(* ===== verification/Py_Prelude.thy ===== *)
theory Py_Prelude
  imports Complex_Main "HOL-Library.List_Lexorder" "HOL-Library.Char_ord" "HOL-Library.AList"
    "HOL-Library.Sublist" "HOL-Library.Multiset"
begin

text \<open>
  The part of Python that every component of the benchmark framework relies on: exceptions as
  values of a sum type, insertion-ordered dictionaries, decimal rendering and reading of integers,
  and a few string operations.

  A text is the list of its UTF-8 bytes. The classes of characters (white space, line ends, digits,
  the dot of patterns) are those of ASCII: what is said of a text is exact unless it has white
  space or separators of lines outside of ASCII. Floating-point numbers are
  modelled by exact rationals; the rounding of IEEE arithmetic is not modelled.
\<close>

named_theorems py_simps \<open>equations that evaluate the Python primitives\<close>
named_theorems dict_simps \<open>laws of insertion-ordered dictionaries\<close>

section \<open>Exceptions and results\<close>

text \<open>
  One constructor per exception class that the modelled code raises, or lets escape from the
  standard library. Messages are not part of the model.
\<close>

datatype py_error =
    ValueError
  | KeyError
  | IndexError
  | AttributeError
  | TypeError
  | AssertionError
  | ZeroDivisionError
  | UnboundLocalError
  | StatisticsError
  | RuntimeError
  | FileNotFoundError
  | OSErr
  | UnicodeDecodeError
  | JSONDecodeError
  | SubprocessError
  | GroupException
  | FabricError
  | UnexpectedExit
  | JSONRPCException
  | ClientError
  | ConfigError
  | ParseError
  | SettingsError
  | BenchError
  | ArgumentTypeError
  | SystemExit int

type_synonym 'a result = "py_error + 'a"

definition rbind :: "'a result \<Rightarrow> ('a \<Rightarrow> 'b result) \<Rightarrow> 'b result" where
  "rbind m f = (case m of Inl e \<Rightarrow> Inl e | Inr x \<Rightarrow> f x)"

lemma rbind_simps [simp]:
  "rbind (Inl e) f = Inl e"
  "rbind (Inr x) f = f x"
  by (simp_all add: rbind_def)

lemma rbind_eq_Inr: "rbind m f = Inr y \<longleftrightarrow> (\<exists>x. m = Inr x \<and> f x = Inr y)"
  by (cases m) auto

lemma rbind_eq_Inl: "rbind m f = Inl e \<longleftrightarrow> m = Inl e \<or> (\<exists>x. m = Inr x \<and> f x = Inl e)"
  by (cases m) auto

text \<open>An \<open>assert\<close> statement.\<close>

definition py_assert :: "bool \<Rightarrow> unit result" where
  "py_assert b = (if b then Inr () else Inl AssertionError)"

lemma py_assert_simps [simp]:
  "py_assert b = Inr u \<longleftrightarrow> b"
  "py_assert b = Inl e \<longleftrightarrow> \<not> b \<and> e = AssertionError"
  "py_assert True = Inr ()"
  "py_assert False = Inl AssertionError"
  by (auto simp: py_assert_def)

text \<open>A loop that collects results and stops at the first exception.\<close>

fun rmap :: "('a \<Rightarrow> 'b result) \<Rightarrow> 'a list \<Rightarrow> 'b list result" where
  "rmap f [] = Inr []"
| "rmap f (x # xs) = rbind (f x) (\<lambda>y. rbind (rmap f xs) (\<lambda>ys. Inr (y # ys)))"

text \<open>A loop that threads a state and stops at the first exception.\<close>

fun rfold :: "('a \<Rightarrow> 's \<Rightarrow> 's result) \<Rightarrow> 'a list \<Rightarrow> 's \<Rightarrow> 's result" where
  "rfold f [] s = Inr s"
| "rfold f (x # xs) s = rbind (f x s) (rfold f xs)"

lemma rmap_Inr_iff: "rmap f xs = Inr ys \<longleftrightarrow> list_all2 (\<lambda>x y. f x = Inr y) xs ys"
  by (induction xs arbitrary: ys) (auto simp: rbind_eq_Inr list_all2_Cons1)

lemma list_all2_in_left: "list_all2 P xs ys \<Longrightarrow> x \<in> set xs \<Longrightarrow> \<exists>y \<in> set ys. P x y"
  by (induction rule: list_all2_induct) auto

lemma list_all2_in_right: "list_all2 P xs ys \<Longrightarrow> y \<in> set ys \<Longrightarrow> \<exists>x \<in> set xs. P x y"
  by (induction rule: list_all2_induct) auto

lemma rmap_length: "rmap f xs = Inr ys \<Longrightarrow> length ys = length xs"
  by (auto simp: rmap_Inr_iff dest: list_all2_lengthD)

lemma rmap_Inr_map: "(\<And>x. x \<in> set xs \<Longrightarrow> f x = Inr (g x)) \<Longrightarrow> rmap f xs = Inr (map g xs)"
  by (induction xs) auto

lemma rmap_append:
  "rmap f (xs @ ys) = rbind (rmap f xs) (\<lambda>us. rbind (rmap f ys) (\<lambda>vs. Inr (us @ vs)))"
  by (induction xs) (auto simp: rbind_def split: sum.splits)

lemma rfold_append: "rfold f (xs @ ys) s = rbind (rfold f xs s) (rfold f ys)"
  by (induction xs arbitrary: s) (auto simp: rbind_def split: sum.splits)

lemma rfold_pure: "(\<And>x s. x \<in> set xs \<Longrightarrow> f x s = Inr (g x s)) \<Longrightarrow> rfold f xs s = Inr (fold g xs s)"
  by (induction xs arbitrary: s) auto

lemma rfold_invariant:
  assumes "rfold f xs s = Inr s'" and "I s"
    and "\<And>x s s'. x \<in> set xs \<Longrightarrow> I s \<Longrightarrow> f x s = Inr s' \<Longrightarrow> I s'"
  shows "I s'"
  using assms by (induction xs arbitrary: s) (auto simp: rbind_eq_Inr)

section \<open>Insertion-ordered dictionaries\<close>

text \<open>
  A Python dictionary keeps its keys in the order of their first insertion; writing to a key that
  is present keeps its place, \<open>pop\<close> removes it. The laws that clients rely on are collected
  in a locale; association lists with distinct keys provide them.
\<close>

type_synonym ('k, 'v) dict = "('k \<times> 'v) list"

abbreviation dict_get :: "('k, 'v) dict \<Rightarrow> 'k \<Rightarrow> 'v option" where
  "dict_get \<equiv> map_of"

definition dict_set :: "'k \<Rightarrow> 'v \<Rightarrow> ('k, 'v) dict \<Rightarrow> ('k, 'v) dict" where
  "dict_set k v d = AList.update k v d"

definition dict_pop :: "'k \<Rightarrow> ('k, 'v) dict \<Rightarrow> ('k, 'v) dict" where
  "dict_pop k d = AList.delete k d"

definition dict_keys :: "('k, 'v) dict \<Rightarrow> 'k list" where
  "dict_keys d = map fst d"

definition dict_values :: "('k, 'v) dict \<Rightarrow> 'v list" where
  "dict_values d = map snd d"

definition dict_ok :: "('k, 'v) dict \<Rightarrow> bool" where
  "dict_ok d = distinct (map fst d)"

text \<open>\<open>d[k]\<close> raises \<open>KeyError\<close> where the key is missing.\<close>

definition dict_index :: "('k, 'v) dict \<Rightarrow> 'k \<Rightarrow> 'v result" where
  "dict_index d k = (case dict_get d k of None \<Rightarrow> Inl KeyError | Some v \<Rightarrow> Inr v)"

text \<open>A dictionary display or comprehension: the pairs are written one after the other.\<close>

definition dict_of :: "('k \<times> 'v) list \<Rightarrow> ('k, 'v) dict" where
  "dict_of ps = fold (\<lambda>(k, v). dict_set k v) ps []"

locale ordered_dict =
  fixes emp :: "'d"
    and set_item :: "'k \<Rightarrow> 'v \<Rightarrow> 'd \<Rightarrow> 'd"
    and pop_item :: "'k \<Rightarrow> 'd \<Rightarrow> 'd"
    and look :: "'d \<Rightarrow> 'k \<Rightarrow> 'v option"
    and keys :: "'d \<Rightarrow> 'k list"
    and ok :: "'d \<Rightarrow> bool"
  assumes look_emp: "look emp k = None"
    and look_set: "ok d \<Longrightarrow> look (set_item k v d) k' = (if k' = k then Some v else look d k')"
    and look_pop: "ok d \<Longrightarrow> look (pop_item k d) k' = (if k' = k then None else look d k')"
    and keys_emp: "keys emp = []"
    and keys_set: "ok d \<Longrightarrow>
      keys (set_item k v d) = (if k \<in> set (keys d) then keys d else keys d @ [k])"
    and keys_pop: "ok d \<Longrightarrow> keys (pop_item k d) = removeAll k (keys d)"
    and keys_look: "ok d \<Longrightarrow> k \<in> set (keys d) \<longleftrightarrow> look d k \<noteq> None"
    and ok_emp: "ok emp"
    and ok_set: "ok d \<Longrightarrow> ok (set_item k v d)"
    and ok_pop: "ok d \<Longrightarrow> ok (pop_item k d)"
begin

lemma ok_build: "ok d \<Longrightarrow> ok (fold (\<lambda>(k, v). set_item k v) ps d)"
  by (induction ps arbitrary: d) (auto intro: ok_set)

text \<open>After a sequence of writes, a key holds the last value written to it.\<close>

lemma look_build:
  "ok d \<Longrightarrow> look (fold (\<lambda>(k, v). set_item k v) ps d) k =
     (case map_of (rev ps) k of None \<Rightarrow> look d k | Some v \<Rightarrow> Some v)"
  by (induction ps rule: rev_induct) (auto simp: look_set ok_build split: option.splits)

lemma look_build_emp: "look (fold (\<lambda>(k, v). set_item k v) ps emp) k = map_of (rev ps) k"
  by (simp add: look_build ok_emp look_emp split: option.splits)

text \<open>The keys keep the order in which they were written first.\<close>

lemma keys_build:
  "ok d \<Longrightarrow> distinct (keys d @ map fst ps) \<Longrightarrow>
     keys (fold (\<lambda>(k, v). set_item k v) ps d) = keys d @ map fst ps"
  by (induction ps arbitrary: d) (auto simp: keys_set ok_set)

lemma set_keys_set: "ok d \<Longrightarrow> set (keys (set_item k v d)) = insert k (set (keys d))"
  by (auto simp: keys_set)

lemma set_keys_build:
  "ok d \<Longrightarrow> set (keys (fold (\<lambda>(k, v). set_item k v) ps d)) = set (keys d) \<union> fst ` set ps"
proof (induction ps arbitrary: d)
  case (Cons p ps)
  then show ?case by (cases p) (simp add: set_keys_set ok_set)
qed simp

lemma look_set_same: "ok d \<Longrightarrow> look (set_item k v d) k = Some v"
  by (simp add: look_set)

lemma set_then_pop: "ok d \<Longrightarrow> look (pop_item k (set_item k v d)) k' = look (pop_item k d) k'"
  by (simp add: look_set look_pop ok_set)

end

interpretation pd: ordered_dict "[]" dict_set dict_pop dict_get dict_keys dict_ok
proof
  fix d :: "('k, 'v) dict" and k k' :: 'k and v :: 'v
  show "dict_get (dict_set k v d) k' = (if k' = k then Some v else dict_get d k')"
    by (simp add: dict_set_def AList.update_conv')
  show "dict_get (dict_pop k d) k' = (if k' = k then None else dict_get d k')"
    by (simp add: dict_pop_def AList.delete_conv')
  show "dict_keys (dict_pop k d) = removeAll k (dict_keys d)"
    by (simp add: dict_pop_def dict_keys_def AList.delete_keys)
  show "dict_ok d \<Longrightarrow> dict_ok (dict_pop k d)"
    by (simp add: dict_pop_def dict_ok_def AList.distinct_delete)
qed (auto simp: dict_keys_def dict_ok_def dict_set_def AList.update_keys AList.distinct_update
      map_of_eq_None_iff)

lemmas dict_laws [dict_simps] =
  pd.look_set pd.look_pop pd.keys_set pd.keys_pop pd.ok_emp pd.ok_set pd.ok_pop

lemma dict_ok_Nil [simp]: "dict_ok []"
  by (rule pd.ok_emp)

lemma dict_get_set [simp]: "dict_get (dict_set k v d) = (dict_get d)(k \<mapsto> v)"
  by (simp add: dict_set_def AList.update_conv')

lemma dict_get_pop [simp]: "dict_get (dict_pop k d) = (dict_get d)(k := None)"
  by (simp add: dict_pop_def AList.delete_conv')

lemma dict_ok_of [simp]: "dict_ok (dict_of ps)"
  unfolding dict_of_def by (rule pd.ok_build) (rule pd.ok_emp)

lemma dict_get_of: "dict_get (dict_of ps) k = map_of (rev ps) k"
  unfolding dict_of_def by (rule pd.look_build_emp)

lemma dict_keys_of_distinct: "distinct (map fst ps) \<Longrightarrow> dict_keys (dict_of ps) = map fst ps"
  unfolding dict_of_def using pd.keys_build [of "[]" ps] by (simp add: dict_keys_def)

lemma dict_of_distinct: "distinct (map fst ps) \<Longrightarrow> dict_of ps = ps"
proof -
  have gen: "distinct (map fst (d @ ps)) \<Longrightarrow> fold (\<lambda>(k, v). dict_set k v) ps d = d @ ps" for d
  proof (induction ps arbitrary: d)
    case (Cons p ps)
    have "dict_set (fst p) (snd p) d = d @ [p]"
      using Cons.prems by (induction d) (auto simp: dict_set_def)
    then show ?case using Cons.IH [of "d @ [p]"] Cons.prems by (simp add: case_prod_beta)
  qed simp
  assume "distinct (map fst ps)"
  then show ?thesis using gen [of "[]"] by (simp add: dict_of_def)
qed

lemma dict_index_Inr_iff [simp]: "dict_index d k = Inr v \<longleftrightarrow> dict_get d k = Some v"
  by (auto simp: dict_index_def split: option.splits)

lemma dict_index_Inl_iff [simp]: "dict_index d k = Inl e \<longleftrightarrow> dict_get d k = None \<and> e = KeyError"
  by (auto simp: dict_index_def split: option.splits)

lemma dict_get_Some_in: "dict_get d k = Some v \<Longrightarrow> (k, v) \<in> set d"
  by (rule map_of_SomeD)

lemma dict_ok_get: "dict_ok d \<Longrightarrow> (k, v) \<in> set d \<Longrightarrow> dict_get d k = Some v"
  by (simp add: dict_ok_def)

lemma dict_get_None_iff: "dict_get d k = None \<longleftrightarrow> k \<notin> set (dict_keys d)"
  by (simp add: dict_keys_def map_of_eq_None_iff)

lemma dict_ok_set: "dict_ok d \<Longrightarrow> dict_ok (dict_set k v d)"
  by (rule pd.ok_set)

lemma dict_ok_pop: "dict_ok d \<Longrightarrow> dict_ok (dict_pop k d)"
  by (rule pd.ok_pop)

lemma dict_set_ne_Nil [simp]: "dict_set k v d \<noteq> []"
  by (cases d) (auto simp: dict_set_def split: if_splits)

lemma dict_keys_set_eq: "dict_ok d \<Longrightarrow> set (dict_keys d) = dom (dict_get d)"
  by (auto simp: dict_keys_def dom_map_of_conv_image_fst)

end
