(* ===== verification/Py_Strings.thy ===== *)
theory Py_Strings
  imports Py_Prelude
begin

text \<open>
  The string operations of Python that the framework uses: \<open>str\<close> and \<open>int\<close> on integers,
  zero-padded formatting, \<open>strip\<close>, \<open>splitlines\<close>, \<open>join\<close>, \<open>replace\<close> and
  the universal-newline translation of text files and pipes.
\<close>

section \<open>Decimal numerals\<close>

definition digit_char :: "nat \<Rightarrow> char" where
  "digit_char d = ''0123456789'' ! d"

definition is_digit :: "char \<Rightarrow> bool" where
  "is_digit c = (c \<in> set ''0123456789'')"

definition digit_val :: "char \<Rightarrow> nat" where
  "digit_val c = of_char c - 48"

lemma less_10_cases:
  assumes "d < (10::nat)"
  shows "d = 0 \<or> d = 1 \<or> d = 2 \<or> d = 3 \<or> d = 4 \<or> d = 5 \<or> d = 6 \<or> d = 7 \<or> d = 8 \<or> d = 9"
  using assms by arith

lemma is_digit_iff: "is_digit c \<longleftrightarrow> (\<exists>d < 10. c = digit_char d)"
proof
  assume "is_digit c"
  then obtain d where "d < length ''0123456789''" "c = ''0123456789'' ! d"
    unfolding is_digit_def in_set_conv_nth by blast
  then show "\<exists>d < 10. c = digit_char d"
    by (intro exI [of _ d]) (simp add: digit_char_def numeral_eq_Suc)
next
  assume "\<exists>d < 10. c = digit_char d"
  then show "is_digit c" by (auto simp: digit_char_def is_digit_def dest!: less_10_cases)
qed

lemma is_digit_digit_char [simp]: "d < 10 \<Longrightarrow> is_digit (digit_char d)"
  by (auto simp: is_digit_iff)

lemma digit_val_digit_char [simp]: "d < 10 \<Longrightarrow> digit_val (digit_char d) = d"
  by (auto simp: digit_val_def digit_char_def dest!: less_10_cases)

lemma of_char_digit: "is_digit c \<Longrightarrow> (of_char c :: nat) = 48 + digit_val c"
  by (auto simp: is_digit_def digit_val_def)

lemma digit_val_less: "is_digit c \<Longrightarrow> digit_val c < 10"
  by (auto simp: is_digit_iff)

lemma digit_less_iff: "is_digit a \<Longrightarrow> is_digit b \<Longrightarrow> a < b \<longleftrightarrow> digit_val a < digit_val b"
  by (simp add: less_char_def of_char_digit)

lemma digit_val_inj: "is_digit a \<Longrightarrow> is_digit b \<Longrightarrow> digit_val a = digit_val b \<longleftrightarrow> a = b"
  by (auto simp: is_digit_iff)

fun nat_str :: "nat \<Rightarrow> string" where
  "nat_str n = (if n < 10 then [digit_char n] else nat_str (n div 10) @ [digit_char (n mod 10)])"

declare nat_str.simps [simp del]

lemma nat_str_small: "n < 10 \<Longrightarrow> nat_str n = [digit_char n]"
  by (subst nat_str.simps) simp

lemma nat_str_large: "\<not> n < 10 \<Longrightarrow> nat_str n = nat_str (n div 10) @ [digit_char (n mod 10)]"
  by (subst nat_str.simps) simp

definition digits_val :: "string \<Rightarrow> nat" where
  "digits_val ds = foldl (\<lambda>n c. 10 * n + digit_val c) 0 ds"

lemma digits_val_snoc [simp]: "digits_val (ds @ [c]) = 10 * digits_val ds + digit_val c"
  by (simp add: digits_val_def)

lemma digits_val_Nil [simp]: "digits_val [] = 0"
  by (simp add: digits_val_def)

lemma digits_val_foldl:
  "foldl (\<lambda>n c. 10 * n + digit_val c) m ds = m * 10 ^ length ds + digits_val ds"
proof (induction ds rule: rev_induct)
  case (snoc c ds)
  then show ?case by (simp add: algebra_simps)
qed simp

lemma digits_val_Cons: "digits_val (c # ds) = digit_val c * 10 ^ length ds + digits_val ds"
  using digits_val_foldl [of "digit_val c" ds] by (simp add: digits_val_def)

lemma digits_val_less: "list_all is_digit ds \<Longrightarrow> digits_val ds < 10 ^ length ds"
proof (induction ds)
  case (Cons c ds)
  have "digit_val c + 1 \<le> 10" using Cons.prems digit_val_less by fastforce
  then have "(digit_val c + 1) * 10 ^ length ds \<le> 10 * 10 ^ length ds" by (rule mult_le_mono1)
  moreover have "digits_val ds < 10 ^ length ds" using Cons by simp
  ultimately have "digit_val c * 10 ^ length ds + digits_val ds < 10 * 10 ^ length ds"
    unfolding distrib_right by linarith
  then show ?case by (simp add: digits_val_Cons)
qed simp

lemma nat_str_digits: "list_all is_digit (nat_str n)"
  by (induction n rule: nat_str.induct) (subst nat_str.simps, auto)

lemma nat_str_ne_Nil [simp]: "nat_str n \<noteq> []"
  by (subst nat_str.simps) simp

lemma digits_val_nat_str [simp]: "digits_val (nat_str n) = n"
proof (induction n rule: nat_str.induct)
  case (1 n)
  show ?case
  proof (cases "n < 10")
    case True
    then show ?thesis by (simp add: nat_str_small digits_val_Cons)
  next
    case False
    with 1 show ?thesis by (simp add: nat_str_large)
  qed
qed

lemma nat_str_inj [simp]: "nat_str m = nat_str n \<longleftrightarrow> m = n"
  by (metis digits_val_nat_str)

lemma nat_str_length_bound: "n < 10 ^ length (nat_str n)"
  using digits_val_less [OF nat_str_digits, of n] by simp

lemma nat_str_length_mono: "m \<le> n \<Longrightarrow> length (nat_str m) \<le> length (nat_str n)"
proof (induction n arbitrary: m rule: nat_str.induct)
  case (1 n)
  show ?case
  proof (cases "n < 10")
    case True
    with 1 show ?thesis by (simp add: nat_str_small)
  next
    case False
    note n = this
    show ?thesis
    proof (cases "m < 10")
      case True
      with n show ?thesis by (simp add: nat_str_small nat_str_large [of n])
    next
      case False
      with n 1 show ?thesis by (simp add: nat_str_large div_le_mono)
    qed
  qed
qed

text \<open>Equally long digit strings compare as strings exactly as they compare as numbers.\<close>

lemma digits_val_inj:
  "length xs = length ys \<Longrightarrow> list_all is_digit xs \<Longrightarrow> list_all is_digit ys \<Longrightarrow>
     digits_val xs = digits_val ys \<longleftrightarrow> xs = ys"
proof (induction xs ys rule: list_induct2)
  case (Cons a xs b ys)
  have bounds: "digits_val xs < 10 ^ length ys" "digits_val ys < 10 ^ length ys"
    using Cons digits_val_less [of xs] digits_val_less [of ys] by auto
  have "digits_val (a # xs) = digits_val (b # ys) \<longleftrightarrow>
      digit_val a = digit_val b \<and> digits_val xs = digits_val ys"
  proof
    assume "digits_val (a # xs) = digits_val (b # ys)"
    then have e: "digit_val a * 10 ^ length ys + digits_val xs =
        digit_val b * 10 ^ length ys + digits_val ys"
      using Cons by (simp add: digits_val_Cons)
    have "(digit_val a * 10 ^ length ys + digits_val xs) div 10 ^ length ys = digit_val a"
      "(digit_val b * 10 ^ length ys + digits_val ys) div 10 ^ length ys = digit_val b"
      using bounds by simp_all
    with e show "digit_val a = digit_val b \<and> digits_val xs = digits_val ys" by simp
  qed (use Cons in \<open>simp add: digits_val_Cons\<close>)
  with Cons show ?case by (simp add: digit_val_inj)
qed simp

lemma digits_less_iff:
  "length xs = length ys \<Longrightarrow> list_all is_digit xs \<Longrightarrow> list_all is_digit ys \<Longrightarrow>
     xs < ys \<longleftrightarrow> digits_val xs < digits_val ys"
proof (induction xs ys rule: list_induct2)
  case (Cons a xs b ys)
  have bounds: "digits_val xs < 10 ^ length ys" "digits_val ys < 10 ^ length ys"
    using Cons digits_val_less [of xs] digits_val_less [of ys] by auto
  consider "digit_val a < digit_val b" | "a = b" | "digit_val b < digit_val a"
    using digit_val_inj [of a b] Cons.prems by fastforce
  then show ?case
  proof cases
    case 1
    then have "(digit_val a + 1) * 10 ^ length ys \<le> digit_val b * 10 ^ length ys"
      by (intro mult_le_mono1) simp
    with bounds have "digits_val (a # xs) < digits_val (b # ys)"
      using Cons.hyps by (simp add: digits_val_Cons)
    with 1 Cons.prems show ?thesis by (simp add: digit_less_iff)
  next
    case 2
    with Cons show ?thesis by (simp add: digits_val_Cons)
  next
    case 3
    then have "(digit_val b + 1) * 10 ^ length ys \<le> digit_val a * 10 ^ length ys"
      by (intro mult_le_mono1) simp
    with bounds have "\<not> digits_val (a # xs) < digits_val (b # ys)"
      using Cons.hyps by (simp add: digits_val_Cons)
    with 3 Cons.prems show ?thesis by (auto simp: digit_less_iff)
  qed
qed simp

section \<open>Rendering and reading integers\<close>

definition int_str :: "int \<Rightarrow> string" where
  "int_str i = (if i < 0 then ''-'' @ nat_str (nat (- i)) else nat_str (nat i))"

text \<open>The format specification \<open>0w\<close> pads with zeros between the sign and the digits.\<close>

definition pad_zeros :: "nat \<Rightarrow> string \<Rightarrow> string" where
  "pad_zeros w s = replicate (w - length s) (CHR ''0'') @ s"

definition format_0w :: "nat \<Rightarrow> int \<Rightarrow> string" where
  "format_0w w i = (if i < 0 then ''-'' @ pad_zeros (w - 1) (nat_str (nat (- i)))
     else pad_zeros w (nat_str (nat i)))"

lemma is_digit_0 [simp]: "is_digit (CHR ''0'')" and digit_val_0 [simp]: "digit_val (CHR ''0'') = 0"
  by (simp_all add: is_digit_def digit_val_def)

lemma digits_val_zeros [simp]: "digits_val (replicate k (CHR ''0'') @ s) = digits_val s"
  by (induction k) (auto simp: digits_val_Cons)

lemma digits_val_pad [simp]: "digits_val (pad_zeros w s) = digits_val s"
  by (simp add: pad_zeros_def)

lemma pad_zeros_digits: "list_all is_digit s \<Longrightarrow> list_all is_digit (pad_zeros w s)"
  by (auto simp: pad_zeros_def list_all_iff)

lemma pad_zeros_length: "length (pad_zeros w s) = max w (length s)"
  by (simp add: pad_zeros_def)

text \<open>
  \<open>int(s)\<close> for a base ten literal: surrounding white space, an optional sign, digits with
  single underscores between them.
\<close>

definition is_space :: "char \<Rightarrow> bool" where
  "is_space c = ((of_char c :: nat) \<in> {9, 10, 11, 12, 13, 28, 29, 30, 31, 32})"

definition lstrip :: "string \<Rightarrow> string" where
  "lstrip s = dropWhile is_space s"

definition rstrip :: "string \<Rightarrow> string" where
  "rstrip s = rev (dropWhile is_space (rev s))"

definition strip :: "string \<Rightarrow> string" where
  "strip s = rstrip (lstrip s)"

fun read_digits :: "string \<Rightarrow> nat \<Rightarrow> nat option" where
  "read_digits [] n = Some n"
| "read_digits (c # cs) n =
     (if is_digit c then read_digits cs (10 * n + digit_val c)
      else if c = CHR ''_'' then
        (case cs of [] \<Rightarrow> None
         | c' # cs' \<Rightarrow> if is_digit c' then read_digits cs' (10 * n + digit_val c') else None)
      else None)"

definition read_nat :: "string \<Rightarrow> nat option" where
  "read_nat s = (case s of [] \<Rightarrow> None | c # cs \<Rightarrow> if is_digit c then read_digits s 0 else None)"

definition py_int :: "string \<Rightarrow> int result" where
  "py_int s =
     (let t = strip s;
          r = (case t of [] \<Rightarrow> None
               | c # cs \<Rightarrow> if c = CHR ''-'' then map_option (\<lambda>n. - int n) (read_nat cs)
                           else if c = CHR ''+'' then map_option int (read_nat cs)
                           else map_option int (read_nat t))
      in case r of None \<Rightarrow> Inl ValueError | Some i \<Rightarrow> Inr i)"

lemma read_digits_digits:
  "list_all is_digit ds \<Longrightarrow> read_digits ds n = Some (foldl (\<lambda>n c. 10 * n + digit_val c) n ds)"
  by (induction ds arbitrary: n) auto

lemma read_nat_digits: "list_all is_digit ds \<Longrightarrow> ds \<noteq> [] \<Longrightarrow> read_nat ds = Some (digits_val ds)"
  by (cases ds) (auto simp: read_nat_def read_digits_digits digits_val_def)

lemma digit_not_space: "is_digit c \<Longrightarrow> \<not> is_space c"
  by (auto simp: is_space_def of_char_digit dest: digit_val_less)

lemma strip_id:
  assumes "s \<noteq> []" and "\<not> is_space (hd s)" and "\<not> is_space (last s)"
  shows "strip s = s"
proof -
  have "lstrip s = s" using assms by (cases s) (simp_all add: lstrip_def)
  moreover have "dropWhile is_space (rev s) = rev s"
    using assms by (cases s rule: rev_cases) simp_all
  ultimately show ?thesis by (simp add: strip_def rstrip_def)
qed

lemma strip_no_space: "list_all (\<lambda>c. \<not> is_space c) s \<Longrightarrow> strip s = s"
proof (cases "s = []")
  case False
  assume "list_all (\<lambda>c. \<not> is_space c) s"
  with False show ?thesis by (intro strip_id) (auto simp: list_all_iff)
qed (simp add: strip_def lstrip_def rstrip_def)

lemma strip_digits: "list_all is_digit ds \<Longrightarrow> strip ds = ds"
  by (rule strip_no_space) (auto simp: list_all_iff digit_not_space)

lemma py_int_digits:
  assumes "list_all is_digit ds" and "ds \<noteq> []"
  shows "py_int ds = Inr (int (digits_val ds))"
proof -
  obtain c cs where ds: "ds = c # cs" using assms by (cases ds) auto
  have "is_digit c" using assms ds by simp
  then have "c \<noteq> CHR ''-''" "c \<noteq> CHR ''+''" by (auto simp: is_digit_def)
  then show ?thesis
    using assms read_nat_digits [OF assms] ds by (simp add: py_int_def strip_digits)
qed

lemma py_int_nat_str [simp]: "py_int (nat_str n) = Inr (int n)"
  by (simp add: py_int_digits nat_str_digits)

lemma minus_not_space: "\<not> is_space (CHR ''-'')"
  by (simp add: is_space_def)

lemma py_int_int_str: "py_int (int_str i) = Inr i"
proof (cases "i < 0")
  case True
  have "strip (CHR ''-'' # nat_str (nat (- i))) = CHR ''-'' # nat_str (nat (- i))"
    by (rule strip_no_space)
      (use nat_str_digits [of "nat (- i)"] in \<open>auto simp: list_all_iff digit_not_space minus_not_space\<close>)
  with True show ?thesis
    by (simp add: py_int_def int_str_def read_nat_digits nat_str_digits)
qed (simp add: int_str_def)

lemma int_str_inj [simp]: "int_str i = int_str j \<longleftrightarrow> i = j"
  using py_int_int_str by (metis sum.inject(2))

section \<open>Lines, newlines, joining and replacing\<close>

text \<open>The characters at which \<open>str.splitlines\<close> ends a line; CR LF is one line end.\<close>

definition is_linebreak :: "char \<Rightarrow> bool" where
  "is_linebreak c = ((of_char c :: nat) \<in> {10, 11, 12, 13, 28, 29, 30})"

abbreviation CR :: char where "CR \<equiv> CHR 0x0D"
abbreviation LF :: char where "LF \<equiv> CHR 0x0A"

fun splitlines_aux :: "string \<Rightarrow> string \<Rightarrow> string list" where
  "splitlines_aux [] acc = (if acc = [] then [] else [rev acc])"
| "splitlines_aux (c # cs) acc =
     (if c = CR then
        (case cs of [] \<Rightarrow> [rev acc]
         | c' # cs' \<Rightarrow> rev acc # (if c' = LF then splitlines_aux cs' [] else splitlines_aux cs []))
      else if is_linebreak c then rev acc # splitlines_aux cs []
      else splitlines_aux cs (c # acc))"

definition splitlines :: "string \<Rightarrow> string list" where
  "splitlines s = splitlines_aux s []"

text \<open>
  The universal-newline translation done when a text file or a text pipe is read: CR LF and CR
  become LF.
\<close>

fun universal_newlines :: "string \<Rightarrow> string" where
  "universal_newlines [] = []"
| "universal_newlines (c # cs) =
     (if c = CR then
        (case cs of [] \<Rightarrow> [LF]
         | c' # cs' \<Rightarrow> LF # (if c' = LF then universal_newlines cs' else universal_newlines cs))
      else c # universal_newlines cs)"

lemma universal_newlines_no_CR: "CR \<notin> set s \<Longrightarrow> universal_newlines s = s"
  by (induction s) auto

lemma CR_notin_universal_newlines [simp]: "CR \<notin> set (universal_newlines s)"
  by (induction s rule: universal_newlines.induct) (auto split: list.splits)

lemma universal_newlines_idem [simp]:
  "universal_newlines (universal_newlines s) = universal_newlines s"
  by (rule universal_newlines_no_CR) simp

lemma splitlines_aux_line:
  assumes "list_all (\<lambda>c. \<not> is_linebreak c) l"
  shows "splitlines_aux (l @ LF # s) acc = (rev acc @ l) # splitlines_aux s []"
  using assms by (induction l arbitrary: acc) (auto simp: is_linebreak_def)

lemma splitlines_aux_last:
  assumes "list_all (\<lambda>c. \<not> is_linebreak c) l"
  shows "splitlines_aux l acc = (if acc = [] \<and> l = [] then [] else [rev acc @ l])"
  using assms by (induction l arbitrary: acc) (auto simp: is_linebreak_def)

lemma splitlines_Nil [simp]: "splitlines [] = []"
  by (simp add: splitlines_def)

lemma splitlines_line:
  "list_all (\<lambda>c. \<not> is_linebreak c) l \<Longrightarrow> splitlines (l @ LF # s) = l # splitlines s"
  by (simp add: splitlines_def splitlines_aux_line)

lemma splitlines_lines:
  "list_all (list_all (\<lambda>c. \<not> is_linebreak c)) ls \<Longrightarrow> splitlines (concat (map (\<lambda>l. l @ [LF]) ls)) = ls"
  by (induction ls) (auto simp: splitlines_line)

fun join :: "string \<Rightarrow> string list \<Rightarrow> string" where
  "join sep [] = []"
| "join sep [x] = x"
| "join sep (x # xs) = x @ sep @ join sep xs"

text \<open>\<open>sub in s\<close> and \<open>s.replace(old, new)\<close>, the latter for a non-empty \<open>old\<close>.\<close>

fun contains :: "string \<Rightarrow> string \<Rightarrow> bool" where
  "contains sub [] = (sub = [])"
| "contains sub (c # cs) = (prefix sub (c # cs) \<or> contains sub cs)"

function str_replace :: "string \<Rightarrow> string \<Rightarrow> string \<Rightarrow> string" where
  "str_replace old new s =
     (if old = [] then s
      else case s of [] \<Rightarrow> []
        | c # cs \<Rightarrow> if prefix old s then new @ str_replace old new (drop (length old) s)
                    else c # str_replace old new cs)"
  by pat_completeness auto
termination
  by (relation "measure (\<lambda>(old, new, s). length s)") auto

declare str_replace.simps [simp del]

lemma contains_iff_sublist: "contains sub s \<longleftrightarrow> sublist sub s"
  by (induction s) (auto simp: sublist_Cons_right)

lemma str_replace_absent: "\<not> contains old s \<Longrightarrow> str_replace old new s = s"
proof (induction s)
  case (Cons c s)
  then show ?case by (cases "old = []") (simp_all add: str_replace.simps [of old new "c # s"])
qed (simp add: str_replace.simps)

end
