(* ===== verification/Py_Regex.thy ===== *)
theory Py_Regex
  imports Py_Strings
begin

text \<open>
  The fragment of Python's \<open>re\<close> that the framework uses, as a backtracking matcher: a pattern
  is a sequence of literals, repetitions of a character class (greedy or lazy, captured or not)
  and captured alternatives of fixed-length class sequences. The matcher tries the choices of
  each item in the order of the Python engine and returns the captures of the first success.
\<close>

datatype re_item =
    Lit string
  | Rep "char \<Rightarrow> bool" nat "nat option" bool bool
  | Alts "(char \<Rightarrow> bool) list list"

text \<open>\<open>Rep P lo hi greedy cap\<close>: at least \<open>lo\<close> and at most \<open>hi\<close> characters of \<open>P\<close>.\<close>

type_synonym regex = "re_item list"

fun first_some :: "('a \<Rightarrow> 'b option) \<Rightarrow> 'a list \<Rightarrow> 'b option" where
  "first_some f [] = None"
| "first_some f (x # xs) = (case f x of Some y \<Rightarrow> Some y | None \<Rightarrow> first_some f xs)"

definition rep_counts :: "(char \<Rightarrow> bool) \<Rightarrow> nat \<Rightarrow> nat option \<Rightarrow> bool \<Rightarrow> string \<Rightarrow> nat list" where
  "rep_counts P lo hi greedy s =
     (let run = length (takeWhile P s);
          n = (case hi of None \<Rightarrow> run | Some h \<Rightarrow> min h run);
          ks = [lo..<Suc n]
      in if greedy then rev ks else ks)"

fun matches_classes :: "(char \<Rightarrow> bool) list \<Rightarrow> string \<Rightarrow> bool" where
  "matches_classes [] s = True"
| "matches_classes (P # Ps) [] = False"
| "matches_classes (P # Ps) (c # cs) = (P c \<and> matches_classes Ps cs)"

fun rx :: "regex \<Rightarrow> string \<Rightarrow> (string list \<times> string) option" where
  "rx [] s = Some ([], s)"
| "rx (Lit l # rs) s = (if prefix l s then rx rs (drop (length l) s) else None)"
| "rx (Rep P lo hi greedy cap # rs) s =
     first_some (\<lambda>k. map_option (\<lambda>(cs, r). (if cap then take k s # cs else cs, r)) (rx rs (drop k s)))
       (rep_counts P lo hi greedy s)"
| "rx (Alts as # rs) s =
     first_some (\<lambda>a. if matches_classes a s
         then map_option (\<lambda>(cs, r). (take (length a) s # cs, r)) (rx rs (drop (length a) s))
         else None) as"

text \<open>\<open>re.search\<close>: the leftmost start at which the pattern matches.\<close>

fun re_search :: "regex \<Rightarrow> string \<Rightarrow> string list option" where
  "re_search r [] = map_option fst (rx r [])"
| "re_search r (c # cs) =
     (case rx r (c # cs) of Some m \<Rightarrow> Some (fst m) | None \<Rightarrow> re_search r cs)"

text \<open>
  \<open>re.findall\<close>: the captures of the non-overlapping matches from left to right. A match that
  consumes nothing moves on by one character; the patterns used here never match the empty string.
\<close>

function re_findall :: "regex \<Rightarrow> string \<Rightarrow> string list list" where
  "re_findall r s =
     (case rx r s of
        Some (cs, rest) \<Rightarrow>
          cs # (if length rest < length s then re_findall r rest
                else case s of [] \<Rightarrow> [] | _ # s' \<Rightarrow> re_findall r s')
      | None \<Rightarrow> (case s of [] \<Rightarrow> [] | _ # s' \<Rightarrow> re_findall r s'))"
  by pat_completeness auto
termination
  by (relation "measure (\<lambda>(r, s). length s)") auto

declare re_findall.simps [simp del]

text \<open>The classes: \<open>.\<close>, \<open>[0-9]\<close> (and \<open>\d\<close>), \<open>[abcdef0-9]\<close>.\<close>

definition any_char :: "char \<Rightarrow> bool" where
  "any_char c = (c \<noteq> LF)"

definition hex_char :: "char \<Rightarrow> bool" where
  "hex_char c = (c \<in> set ''abcdef0123456789'')"

abbreviation "dot_star \<equiv> Rep any_char 0 None True False"
abbreviation "dot_star_cap \<equiv> Rep any_char 0 None True True"
abbreviation "dot_lazy_cap \<equiv> Rep any_char 0 None False True"
abbreviation "digits_cap \<equiv> Rep is_digit 1 None True True"
abbreviation "hex_cap \<equiv> Rep hex_char 1 None True True"

section \<open>Selecting the first success\<close>

lemma first_some_append:
  "first_some f (xs @ ys) = (case first_some f xs of Some y \<Rightarrow> Some y | None \<Rightarrow> first_some f ys)"
  by (induction xs) (auto split: option.splits)

lemma first_some_None_iff: "first_some f xs = None \<longleftrightarrow> (\<forall>x \<in> set xs. f x = None)"
  by (induction xs) (auto split: option.splits)

lemma first_some_pick:
  assumes "xs = us @ x # vs" and "\<And>u. u \<in> set us \<Longrightarrow> f u = None" and "f x = Some y"
  shows "first_some f xs = Some y"
  using assms by (simp add: first_some_append first_some_None_iff [THEN iffD2])

lemma first_some_SomeD: "first_some f xs = Some y \<Longrightarrow> \<exists>x \<in> set xs. f x = Some y"
  by (induction xs) (auto split: option.splits)

lemma upt_split_at: "m \<le> n \<Longrightarrow> [0..<Suc n] = [0..<m] @ m # [Suc m..<Suc n]"
proof -
  assume "m \<le> n"
  then have "[0..<Suc n] = [0..<m] @ [m..<Suc n]"
    by (metis le_SucI le0 le_add_diff_inverse upt_add_eq_append)
  with \<open>m \<le> n\<close> show ?thesis by (simp add: upt_conv_Cons del: upt_Suc)
qed

section \<open>Matching one item\<close>

lemma rx_Lit: "rx (Lit l # rs) (l @ s) = rx rs s"
  by simp

lemma takeWhile_run:
  assumes "list_all P ds" and "t = [] \<or> \<not> P (hd t)"
  shows "takeWhile P (ds @ t) = ds"
  using assms by (cases t) (auto simp: list_all_iff takeWhile_append2)

text \<open>A greedy run that is followed by a character outside its class takes the whole run.\<close>

lemma rx_run:
  assumes "list_all P ds" and "t = [] \<or> \<not> P (hd t)" and "lo \<le> length ds" and "rx rs t = Some (cs, r)"
    and "hi = None \<or> hi = Some h \<and> length ds \<le> h"
  shows "rx (Rep P lo hi True cap # rs) (ds @ t) = Some (if cap then ds # cs else cs, r)"
proof -
  have "rep_counts P lo hi True (ds @ t) = [] @ length ds # rev [lo..<length ds]"
    using assms by (auto simp: rep_counts_def Let_def takeWhile_run [OF assms(1,2)])
  then show ?thesis unfolding rx.simps
    by (rule first_some_pick) (use assms in auto)
qed

lemma prefix_drop_absent:
  assumes "c \<in> set l" and "c \<notin> set s"
  shows "\<not> prefix l (drop k s)"
proof
  assume "prefix l (drop k s)"
  then have "set l \<subseteq> set s" by (metis set_drop_subset set_mono_prefix order_trans)
  with assms show False by auto
qed

text \<open>A lazy run stops at the first character of the literal that follows it.\<close>

lemma rx_lazy_until:
  assumes "list_all P ts" and "c \<notin> set ts" and "rx rs s = Some (cs, r)"
  shows "rx (Rep P 0 None False True # Lit (c # l) # rs) (ts @ (c # l) @ s) = Some (ts # cs, r)"
proof -
  let ?s = "ts @ (c # l) @ s"
  have "length ts \<le> length (takeWhile P ?s)"
    using assms(1) by (induction ts) auto
  then have counts: "rep_counts P 0 None False ?s =
      [0..<length ts] @ length ts # [Suc (length ts)..<Suc (length (takeWhile P ?s))]"
    by (simp only: rep_counts_def Let_def option.case if_False upt_split_at)
  have early: "rx (Lit (c # l) # rs) (drop k ?s) = None" if "k < length ts" for k
  proof -
    have "drop k ?s = ts ! k # drop (Suc k) ?s"
      using that by (metis Cons_nth_drop_Suc length_append nth_append trans_less_add1)
    moreover have "ts ! k \<noteq> c" using that assms(2) nth_mem by fastforce
    ultimately show ?thesis by simp
  qed
  show ?thesis unfolding rx.simps(3)
    by (rule first_some_pick [OF counts]) (use early assms(3) in auto)
qed

text \<open>
  A greedy run takes as much as it can: it ends at the last place from which the rest of the
  pattern matches.
\<close>

lemma rx_greedy_last:
  assumes "list_all P m" and "rx rs s = Some (cs, r)" and "\<And>k. 0 < k \<Longrightarrow> rx rs (drop k s) = None"
  shows "rx (Rep P 0 None True cap # rs) (m @ s) = Some (if cap then m # cs else cs, r)"
proof -
  let ?n = "length (takeWhile P (m @ s))"
  have "length m \<le> ?n" using assms(1) by (induction m) auto
  then have counts: "rep_counts P 0 None True (m @ s) =
      rev [Suc (length m)..<Suc ?n] @ length m # rev [0..<length m]"
    by (simp only: rep_counts_def Let_def option.case if_True upt_split_at rev_append rev.simps
        append_assoc append.simps)
  show ?thesis unfolding rx.simps(3)
  proof (rule first_some_pick [OF counts])
    fix u
    assume "u \<in> set (rev [Suc (length m)..<Suc ?n])"
    then have "rx rs (drop (u - length m) s) = None" by (intro assms(3)) auto
    moreover have "length m < u" using \<open>u \<in> _\<close> by auto
    ultimately show "map_option (\<lambda>(cs, r). (if cap then take u (m @ s) # cs else cs, r))
        (rx rs (drop u (m @ s))) = None"
      by simp
  qed (use assms(2) in simp)
qed

text \<open>
  A literal with a marker character that does not occur again behind it is not found any later.
\<close>

lemma Lit_marker_last:
  assumes "c \<notin> set b" and "c \<notin> set s" and "0 < k"
  shows "rx (Lit (a @ c # b) # rs) (drop k ((a @ c # b) @ s)) = None"
proof -
  let ?l = "a @ c # b"
  obtain j where k: "k = Suc j" using assms(3) by (cases k) auto
  have "\<not> prefix ?l (drop k (?l @ s))"
  proof
    assume "prefix ?l (drop k (?l @ s))"
    then obtain z where z: "drop k (?l @ s) = ?l @ z" by (auto simp: prefix_def)
    have "drop (length a) (drop k (?l @ s)) = c # b @ z" unfolding z by simp
    moreover have "drop (length a) (drop k (?l @ s)) = drop j (drop (Suc (length a)) (?l @ s))"
      by (simp only: k drop_drop add_Suc_right add_Suc add.commute)
    moreover have "drop (Suc (length a)) (?l @ s) = b @ s" by simp
    ultimately have "drop j (b @ s) = c # b @ z" by (simp only:)
    then have "c \<in> set (b @ s)" by (metis in_set_dropD list.set_intros(1))
    with assms(1,2) show False by auto
  qed
  then show ?thesis by simp
qed

lemma rx_greedy_until:
  assumes "list_all P m" and "c \<notin> set b" and "c \<notin> set s" and "rx rs s = Some (cs, r)"
  shows "rx (Rep P 0 None True cap # Lit (a @ c # b) # rs) (m @ (a @ c # b) @ s) =
     Some (if cap then m # cs else cs, r)"
  by (rule rx_greedy_last [OF assms(1)])
    (use assms(4) Lit_marker_last [OF assms(2,3)] in \<open>simp_all only: rx_Lit\<close>)

text \<open>A literal of the pattern occurs in every text that matches.\<close>

lemma contains_drop: "contains l (drop k s) \<Longrightarrow> contains l s"
proof (induction s arbitrary: k)
  case (Cons c s)
  then show ?case by (cases k) auto
qed simp

lemma rx_Lit_contained: "rx rs s = Some m \<Longrightarrow> Lit l \<in> set rs \<Longrightarrow> contains l s"
proof (induction rs s arbitrary: m rule: rx.induct)
  case (2 l' rs s)
  from "2.prems" have l': "prefix l' s" and rs: "rx rs (drop (length l') s) = Some m"
    by (auto split: if_splits)
  show ?case
  proof (cases "l = l'")
    case True
    with l' show ?thesis by (cases s) auto
  next
    case False
    with "2.IH" [OF l' rs] "2.prems"(2) show ?thesis by (auto intro: contains_drop)
  qed
next
  case (3 P lo hi greedy cap rs s)
  from "3.prems"(1) obtain k m' where k: "rx rs (drop k s) = Some m'"
    by (auto dest!: first_some_SomeD)
  from "3.prems"(2) have "Lit l \<in> set rs" by simp
  from "3.IH" [OF k this] show ?case by (rule contains_drop)
next
  case (4 as rs s)
  from "4.prems"(1) obtain a m' where a: "matches_classes a s"
    and m': "rx rs (drop (length a) s) = Some m'"
    by (auto dest!: first_some_SomeD split: if_splits)
  from "4.prems"(2) have "Lit l \<in> set rs" by simp
  from "4.IH" [OF a m' this] show ?case by (rule contains_drop)
qed simp

lemma contains_set: "contains l s \<Longrightarrow> set l \<subseteq> set s"
proof (induction s)
  case (Cons c s)
  then show ?case using set_mono_prefix [of l "c # s"] by auto
qed simp

lemma rx_Lit_needed: "rx rs s = Some m \<Longrightarrow> Lit l \<in> set rs \<Longrightarrow> set l \<subseteq> set s"
  using rx_Lit_contained contains_set by blast

lemma contains_skip:
  "contains (c # l) (w @ t) \<Longrightarrow> c \<notin> set w \<Longrightarrow> contains (c # l) t"
  by (induction w) auto

section \<open>Searching\<close>

text \<open>A pattern that starts with a literal is found where its first character occurs first.\<close>

lemma re_search_at:
  assumes "c \<notin> set pre" and "rx (Lit (c # l) # rs) ((c # l) @ s) = Some (cs, r)"
  shows "re_search (Lit (c # l) # rs) (pre @ (c # l) @ s) = Some cs"
  using assms(1)
proof (induction pre)
  case Nil
  then show ?case using assms(2) by simp
next
  case (Cons x pre)
  then have "rx (Lit (c # l) # rs) ((x # pre) @ (c # l) @ s) = None" by simp
  with Cons show ?case by simp
qed

lemma rx_Lit_absent: "\<not> contains l s \<Longrightarrow> rx (Lit l # rs) s = None"
  by (cases s) auto

lemma re_search_Lit_absent: "\<not> contains l s \<Longrightarrow> re_search (Lit l # rs) s = None"
  by (induction s) auto

lemma re_search_Lit_iff: "re_search [Lit l] s \<noteq> None \<longleftrightarrow> contains l s"
  by (induction s) auto

text \<open>Whatever is captured by a class repetition consists of characters of the class.\<close>

lemma rep_counts_take:
  assumes "k \<in> set (rep_counts P lo hi g s)"
  shows "list_all P (take k s) \<and> lo \<le> length (take k s)"
proof -
  have k: "k \<le> length (takeWhile P s)" "lo \<le> k"
    using assms by (auto simp: rep_counts_def Let_def split: option.splits if_splits)
  then have "take k s = take k (takeWhile P s)"
    by (metis takeWhile_eq_take take_take min.absorb1)
  moreover have "list_all P (takeWhile P s)" by (auto simp: list_all_iff dest: set_takeWhileD)
  ultimately show ?thesis
    using k by (auto simp: list_all_iff length_takeWhile_le min_absorb2 dest!: in_set_takeD)
qed

fun cap_class :: "re_item \<Rightarrow> ((char \<Rightarrow> bool) \<times> nat) option" where
  "cap_class (Lit l) = None"
| "cap_class (Rep P lo hi g cap) = (if cap then Some (P, lo) else None)"
| "cap_class (Alts as) = Some (\<lambda>_. True, 0)"

lemma rx_captures:
  assumes "rx rs s = Some (cs, r)"
  shows "list_all2 (\<lambda>(P, lo) x. list_all P x \<and> lo \<le> length x) (List.map_filter cap_class rs) cs"
  using assms
proof (induction rs s arbitrary: cs r rule: rx.induct)
  case (3 P lo hi greedy cap rs s)
  from "3.prems" obtain k cs' where k: "k \<in> set (rep_counts P lo hi greedy s)"
    and "rx rs (drop k s) = Some (cs', r)" and "cs = (if cap then take k s # cs' else cs')"
    by (auto dest!: first_some_SomeD)
  with "3.IH" rep_counts_take [OF k] show ?case by (auto simp: map_filter_simps)
next
  case (4 as rs s)
  then show ?case
    by (fastforce simp: map_filter_simps list_all_iff dest!: first_some_SomeD split: if_splits)
qed (auto simp: map_filter_simps split: if_splits)

lemma re_search_captures:
  assumes "re_search rs s = Some cs"
  shows "list_all2 (\<lambda>(P, lo) x. list_all P x \<and> lo \<le> length x) (List.map_filter cap_class rs) cs"
  using assms by (induction s) (auto dest: rx_captures split: option.splits)

end
