(* ===== verification/Py_Datetime.thy ===== *)
theory Py_Datetime
  imports Py_Regex "HOL-Library.Product_Lexorder"
begin

text \<open>
  \<open>LogParser.to_posix\<close> of \<^verbatim>\<open>benchmark/benchmark_framework/logs.py\<close> and the time stamps
  that \<open>get_logger\<close> of \<^verbatim>\<open>utils.py\<close> writes, over the part of \<open>datetime\<close> they
  use: \<open>strptime\<close> for the two formats, the proleptic Gregorian day count and the difference to the
  epoch.
\<close>

section \<open>Dates\<close>

definition is_leap :: "int \<Rightarrow> bool" where
  "is_leap y = (y mod 4 = 0 \<and> (y mod 100 \<noteq> 0 \<or> y mod 400 = 0))"

definition days_in_month :: "int \<Rightarrow> nat \<Rightarrow> int" where
  "days_in_month y m =
     (if m = 2 then (if is_leap y then 29 else 28)
      else if m = 4 \<or> m = 6 \<or> m = 9 \<or> m = 11 then 30 else 31)"

definition days_before_year :: "int \<Rightarrow> int" where
  "days_before_year y = (let y1 = y - 1 in y1 * 365 + y1 div 4 - y1 div 100 + y1 div 400)"

definition days_before_month :: "int \<Rightarrow> nat \<Rightarrow> int" where
  "days_before_month y m = sum_list (map (days_in_month y) [1..<m])"

definition ymd2ord :: "int \<Rightarrow> nat \<Rightarrow> int \<Rightarrow> int" where
  "ymd2ord y m d = days_before_year y + days_before_month y m + d"

definition valid_date :: "int \<Rightarrow> nat \<Rightarrow> int \<Rightarrow> bool" where
  "valid_date y m d = (1 \<le> y \<and> y \<le> 9999 \<and> 1 \<le> m \<and> m \<le> 12 \<and> 1 \<le> d \<and> d \<le> days_in_month y m)"

definition valid_time :: "int \<Rightarrow> int \<Rightarrow> int \<Rightarrow> int \<Rightarrow> bool" where
  "valid_time h mi s us =
     (0 \<le> h \<and> h < 24 \<and> 0 \<le> mi \<and> mi < 60 \<and> 0 \<le> s \<and> s < 60 \<and> 0 \<le> us \<and> us < 1000000)"

text \<open>Microseconds since 1 January 1970, whose ordinal is 719163.\<close>

definition micros_since_epoch :: "int \<Rightarrow> nat \<Rightarrow> int \<Rightarrow> int \<Rightarrow> int \<Rightarrow> int \<Rightarrow> int \<Rightarrow> int" where
  "micros_since_epoch y m d h mi s us =
     ((ymd2ord y m d - 719163) * 86400 + h * 3600 + mi * 60 + s) * 1000000 + us"

section \<open>strptime\<close>

definition month_abbrs :: "string list" where
  "month_abbrs = [''jan'', ''feb'', ''mar'', ''apr'', ''may'', ''jun'', ''jul'', ''aug'', ''sep'',
     ''oct'', ''nov'', ''dec'']"

text \<open>The formats are compiled with the ignore-case flag.\<close>

definition ci :: "char \<Rightarrow> char \<Rightarrow> bool" where
  "ci c x = (x = c \<or> (of_char x :: nat) + 32 = of_char c)"

definition btw :: "char \<Rightarrow> char \<Rightarrow> char \<Rightarrow> bool" where
  "btw lo hi x = (lo \<le> x \<and> x \<le> hi)"

definition month_alts :: "(char \<Rightarrow> bool) list list" where
  "month_alts = map (map ci) month_abbrs"

definition day_alts :: "(char \<Rightarrow> bool) list list" where
  "day_alts = [[btw (CHR ''3'') (CHR ''3''), btw (CHR ''0'') (CHR ''1'')],
     [btw (CHR ''1'') (CHR ''2''), is_digit],
     [btw (CHR ''0'') (CHR ''0''), btw (CHR ''1'') (CHR ''9'')],
     [btw (CHR ''1'') (CHR ''9'')],
     [btw (CHR '' '') (CHR '' ''), btw (CHR ''1'') (CHR ''9'')]]"

definition hour_alts :: "(char \<Rightarrow> bool) list list" where
  "hour_alts = [[btw (CHR ''2'') (CHR ''2''), btw (CHR ''0'') (CHR ''3'')],
     [btw (CHR ''0'') (CHR ''1''), is_digit], [is_digit]]"

definition minute_alts :: "(char \<Rightarrow> bool) list list" where
  "minute_alts = [[btw (CHR ''0'') (CHR ''5''), is_digit], [is_digit]]"

definition second_alts :: "(char \<Rightarrow> bool) list list" where
  "second_alts = [[btw (CHR ''6'') (CHR ''6''), btw (CHR ''0'') (CHR ''1'')],
     [btw (CHR ''0'') (CHR ''5''), is_digit], [is_digit]]"

definition year_alts :: "(char \<Rightarrow> bool) list list" where
  "year_alts = [[is_digit, is_digit, is_digit, is_digit]]"

text \<open>\<open>%Y-%b-%d %H:%M:%S\<close>, and the same followed by \<open>.%f\<close>.\<close>

definition format_seconds :: regex where
  "format_seconds = [Alts year_alts, Lit ''-'', Alts month_alts, Lit ''-'', Alts day_alts,
     Rep is_space 1 None True False, Alts hour_alts, Lit '':'', Alts minute_alts, Lit '':'',
     Alts second_alts]"

definition format_micros :: regex where
  "format_micros = format_seconds @ [Lit ''.'', Rep is_digit 1 (Some 6) True True]"

fun index_where :: "('a \<Rightarrow> bool) \<Rightarrow> 'a list \<Rightarrow> nat" where
  "index_where P [] = 0"
| "index_where P (x # xs) = (if P x then 0 else Suc (index_where P xs))"

definition month_number :: "string \<Rightarrow> nat" where
  "month_number s = Suc (index_where (\<lambda>a. matches_classes a s) month_alts)"

text \<open>The digits after the point are padded on the right to six.\<close>

definition fraction_micros :: "string \<Rightarrow> int" where
  "fraction_micros f = int (digits_val (f @ replicate (6 - length f) (CHR ''0'')))"

text \<open>
  The groups become a date; trailing text, an impossible date and a leap second are
  \<open>ValueError\<close>. The day may have a leading blank.
\<close>

definition strptime :: "regex \<Rightarrow> string \<Rightarrow> int result" where
  "strptime fmt str =
     (case rx fmt str of
        Some (Y # b # D # H # M # S # f, []) \<Rightarrow>
          (let y = int (digits_val Y); m = month_number b; d = int (digits_val (lstrip D));
               h = int (digits_val H); mi = int (digits_val M); s = int (digits_val S);
               us = (case f of [] \<Rightarrow> 0 | x # _ \<Rightarrow> fraction_micros x)
           in if valid_date y m d \<and> s < 60 then Inr (micros_since_epoch y m d h mi s us)
              else Inl ValueError)
      | _ \<Rightarrow> Inl ValueError)"

definition to_posix :: "string \<Rightarrow> rat result" where
  "to_posix str =
     (case strptime format_micros str of
        Inr us \<Rightarrow> Inr (rat_of_int us / 1000000)
      | Inl e \<Rightarrow> rbind (strptime format_seconds str) (\<lambda>us. Inr (rat_of_int us / 1000000)))"

section \<open>Rendered time stamps\<close>

definition two_digits :: "int \<Rightarrow> string" where
  "two_digits n = [digit_char (nat n div 10), digit_char (nat n mod 10)]"

definition month_caps :: "string list" where
  "month_caps = [''Jan'', ''Feb'', ''Mar'', ''Apr'', ''May'', ''Jun'', ''Jul'', ''Aug'', ''Sep'',
     ''Oct'', ''Nov'', ''Dec'']"

text \<open>The text \<open>2023-May-16 10:11:12\<close>, as \<open>strftime\<close> and the log library of the node print it.\<close>

definition stamp :: "int \<Rightarrow> nat \<Rightarrow> int \<Rightarrow> int \<Rightarrow> int \<Rightarrow> int \<Rightarrow> string" where
  "stamp y m d h mi s =
     pad_zeros 4 (nat_str (nat y)) @ ''-'' @ month_caps ! (m - 1) @ ''-'' @ two_digits d @ '' '' @
     two_digits h @ '':'' @ two_digits mi @ '':'' @ two_digits s"

text \<open>
  The formatter of \<open>get_logger\<close>, \<open>[%(asctime)s.%(msecs)d]\<close>: the milliseconds are printed
  as a plain decimal number.
\<close>

definition logger_stamp :: "int \<Rightarrow> nat \<Rightarrow> int \<Rightarrow> int \<Rightarrow> int \<Rightarrow> int \<Rightarrow> nat \<Rightarrow> string" where
  "logger_stamp y m d h mi s msecs = stamp y m d h mi s @ ''.'' @ nat_str msecs"

section \<open>Matching a rendered time stamp\<close>

lemma matches_classes_append:
  "length a \<le> length w \<Longrightarrow> matches_classes a (w @ t) = matches_classes a w"
proof (induction a w rule: matches_classes.induct)
  case (3 P Ps c cs)
  then show ?case by simp
qed auto

lemma rx_Alts_pick:
  assumes "list_all (\<lambda>a. length a \<le> length w) as"
    and "List.find (\<lambda>a. matches_classes a w) as = Some a" and "length a = length w"
    and "rx rs t = Some (cs, r)"
  shows "rx (Alts as # rs) (w @ t) = Some (w # cs, r)"
  using assms(1,2)
proof (induction as)
  case (Cons b as)
  show ?case
  proof (cases "matches_classes b w")
    case True
    with Cons.prems assms(3,4) show ?thesis by (simp add: matches_classes_append)
  next
    case False
    with Cons have "rx (Alts as # rs) (w @ t) = Some (w # cs, r)" by simp
    with False Cons.prems show ?thesis by (simp add: matches_classes_append)
  qed
qed simp

definition alts_take :: "(char \<Rightarrow> bool) list list \<Rightarrow> string \<Rightarrow> bool" where
  "alts_take as w =
     (list_all (\<lambda>a. length a \<le> length w) as \<and>
      (case List.find (\<lambda>a. matches_classes a w) as of Some a \<Rightarrow> length a = length w | None \<Rightarrow> False))"

lemma rx_alts_take:
  "alts_take as w \<Longrightarrow> rx rs t = Some (cs, r) \<Longrightarrow> rx (Alts as # rs) (w @ t) = Some (w # cs, r)"
  unfolding alts_take_def by (auto split: option.splits simp del: rx.simps intro: rx_Alts_pick)

lemma day_alts_take: "list_all (\<lambda>d. alts_take day_alts (two_digits (int d))) [1..<32]"
  by code_simp

lemma hour_alts_take: "list_all (\<lambda>d. alts_take hour_alts (two_digits (int d))) [0..<24]"
  by code_simp

lemma minute_alts_take: "list_all (\<lambda>d. alts_take minute_alts (two_digits (int d))) [0..<60]"
  by code_simp

lemma second_alts_take: "list_all (\<lambda>d. alts_take second_alts (two_digits (int d))) [0..<60]"
  by code_simp

lemma month_alts_take: "list_all (\<lambda>m. alts_take month_alts (month_caps ! m) \<and>
    month_number (month_caps ! m) = Suc m) [0..<12]"
  by code_simp

lemma days_in_month_le: "days_in_month y m \<le> 31"
  by (simp add: days_in_month_def)

lemma two_digits_val: "0 \<le> n \<Longrightarrow> n < 100 \<Longrightarrow> int (digits_val (two_digits n)) = n"
  by (simp add: two_digits_def digits_val_Cons)

lemma two_digits_digits: "n < 100 \<Longrightarrow> list_all is_digit (two_digits n)"
  by (simp add: two_digits_def)

lemma lstrip_digits: "list_all is_digit ds \<Longrightarrow> lstrip ds = ds"
  by (cases ds) (auto simp: lstrip_def digit_not_space)

lemma year_string:
  assumes "1 \<le> y" and "y \<le> 9999"
  shows "alts_take year_alts (pad_zeros 4 (nat_str (nat y)))"
    and "digits_val (pad_zeros 4 (nat_str (nat y))) = nat y"
proof -
  have "length (nat_str (nat y)) \<le> length (nat_str 9999)"
    using assms by (intro nat_str_length_mono) simp
  also have "length (nat_str 9999) = 4" by (simp add: nat_str_small nat_str_large)
  finally have len: "length (pad_zeros 4 (nat_str (nat y))) = 4" by (simp add: pad_zeros_length)
  have dig: "list_all is_digit (pad_zeros 4 (nat_str (nat y)))"
    by (rule pad_zeros_digits) (rule nat_str_digits)
  obtain a b c d where "pad_zeros 4 (nat_str (nat y)) = [a, b, c, d]"
    using len by (auto simp: numeral_eq_Suc length_Suc_conv)
  with dig show "alts_take year_alts (pad_zeros 4 (nat_str (nat y)))"
    by (simp add: alts_take_def year_alts_def)
qed simp

definition stamp_groups :: "int \<Rightarrow> nat \<Rightarrow> int \<Rightarrow> int \<Rightarrow> int \<Rightarrow> int \<Rightarrow> string list" where
  "stamp_groups y m d h mi s =
     [pad_zeros 4 (nat_str (nat y)), month_caps ! (m - 1), two_digits d, two_digits h,
      two_digits mi, two_digits s]"

lemma list_all_int_upt:
  assumes "list_all (\<lambda>k. P (int k)) [a..<b]" and "int a \<le> n" and "n < int b"
  shows "P n"
proof -
  have "nat n \<in> set [a..<b]" using assms(2,3) by auto
  with assms(1) have "P (int (nat n))" unfolding list_all_iff by blast
  moreover have "int (nat n) = n" using assms(2) by simp
  ultimately show ?thesis by (simp only:)
qed

lemma rx_stamp:
  assumes date: "valid_date y m d" and time: "valid_time h mi s us"
    and rest: "rx rs t = Some (cs, r)"
  shows "rx (format_seconds @ rs) (stamp y m d h mi s @ t) = Some (stamp_groups y m d h mi s @ cs, r)"
proof -
  have S: "alts_take second_alts (two_digits s)" and M: "alts_take minute_alts (two_digits mi)"
    and H: "alts_take hour_alts (two_digits h)" and D: "alts_take day_alts (two_digits d)"
    using date time days_in_month_le [of y m]
    by (auto simp: valid_date_def valid_time_def
        intro: list_all_int_upt [OF second_alts_take] list_all_int_upt [OF minute_alts_take]
          list_all_int_upt [OF hour_alts_take] list_all_int_upt [OF day_alts_take])
  have Mo: "alts_take month_alts (month_caps ! (m - 1))"
    using date month_alts_take by (auto simp: valid_date_def list_all_iff)
  have Y: "alts_take year_alts (pad_zeros 4 (nat_str (nat y)))"
    using date by (auto simp: valid_date_def intro: year_string)
  note step = rx_alts_take
  let ?tail6 = "two_digits s @ t"
  have 1: "rx (Alts second_alts # rs) ?tail6 = Some (two_digits s # cs, r)"
    by (rule step [OF S rest])
  have 2: "rx (Alts minute_alts # Lit '':'' # Alts second_alts # rs)
      (two_digits mi @ '':'' @ ?tail6) = Some (two_digits mi # two_digits s # cs, r)"
    by (rule step [OF M]) (simp only: rx_Lit 1)
  have 3: "rx (Alts hour_alts # Lit '':'' # Alts minute_alts # Lit '':'' # Alts second_alts # rs)
      (two_digits h @ '':'' @ two_digits mi @ '':'' @ ?tail6) =
      Some (two_digits h # two_digits mi # two_digits s # cs, r)"
    by (rule step [OF H]) (simp only: rx_Lit 2)
  have 4: "rx (Rep is_space 1 None True False # Alts hour_alts # Lit '':'' # Alts minute_alts #
      Lit '':'' # Alts second_alts # rs)
      ('' '' @ two_digits h @ '':'' @ two_digits mi @ '':'' @ ?tail6) =
      Some (two_digits h # two_digits mi # two_digits s # cs, r)"
  proof -
    have "\<not> is_space (hd (two_digits h @ '':'' @ two_digits mi @ '':'' @ ?tail6))"
      using time by (auto simp: valid_time_def two_digits_def intro!: digit_not_space)
    moreover have "list_all is_space '' ''" by (simp add: is_space_def)
    ultimately show ?thesis
      using rx_run [where P = is_space and ds = "'' ''" and lo = 1 and hi = None and cap = False,
          OF _ _ _ 3] by (simp del: rx.simps append.simps)
  qed
  have 5: "rx (Alts day_alts # Rep is_space 1 None True False # Alts hour_alts # Lit '':'' #
      Alts minute_alts # Lit '':'' # Alts second_alts # rs)
      (two_digits d @ '' '' @ two_digits h @ '':'' @ two_digits mi @ '':'' @ ?tail6) =
      Some (two_digits d # two_digits h # two_digits mi # two_digits s # cs, r)"
    by (rule step [OF D 4])
  have 6: "rx (Alts month_alts # Lit ''-'' # Alts day_alts # Rep is_space 1 None True False #
      Alts hour_alts # Lit '':'' # Alts minute_alts # Lit '':'' # Alts second_alts # rs)
      (month_caps ! (m - 1) @ ''-'' @ two_digits d @ '' '' @ two_digits h @ '':'' @ two_digits mi @
       '':'' @ ?tail6) =
      Some (month_caps ! (m - 1) # two_digits d # two_digits h # two_digits mi # two_digits s # cs, r)"
    by (rule step [OF Mo]) (simp only: rx_Lit 5)
  have "rx (Alts year_alts # Lit ''-'' # Alts month_alts # Lit ''-'' # Alts day_alts #
      Rep is_space 1 None True False # Alts hour_alts # Lit '':'' # Alts minute_alts # Lit '':'' #
      Alts second_alts # rs)
      (pad_zeros 4 (nat_str (nat y)) @ ''-'' @ month_caps ! (m - 1) @ ''-'' @ two_digits d @ '' '' @
       two_digits h @ '':'' @ two_digits mi @ '':'' @ ?tail6) =
      Some (pad_zeros 4 (nat_str (nat y)) # month_caps ! (m - 1) # two_digits d # two_digits h #
       two_digits mi # two_digits s # cs, r)"
    by (rule step [OF Y]) (simp only: rx_Lit 6)
  then show ?thesis
    by (simp only: format_seconds_def stamp_def stamp_groups_def append_assoc append.simps)
qed

section \<open>Reading a rendered time stamp\<close>

lemma digits_no_point: "list_all is_digit ds \<Longrightarrow> CHR ''.'' \<notin> set ds"
proof
  assume "list_all is_digit ds" and "CHR ''.'' \<in> set ds"
  then have "is_digit (CHR ''.'')" by (simp add: list_all_iff)
  then show False by (simp add: is_digit_def)
qed

lemma stamp_no_point:
  assumes "valid_date y m d" and "valid_time h mi s us"
  shows "CHR ''.'' \<notin> set (stamp y m d h mi s)"
proof -
  have "list_all (\<lambda>k. CHR ''.'' \<notin> set (month_caps ! k)) [0..<12]" by code_simp
  then have "CHR ''.'' \<notin> set (month_caps ! (m - 1))"
    using assms(1) by (auto simp: valid_date_def list_all_iff)
  moreover have "CHR ''.'' \<notin> set (two_digits n)" if "n < 100" for n
    using digits_no_point [OF two_digits_digits [OF that]] .
  moreover have "CHR ''.'' \<notin> set (pad_zeros 4 (nat_str (nat y)))"
    by (rule digits_no_point) (rule pad_zeros_digits, rule nat_str_digits)
  ultimately show ?thesis
    using assms days_in_month_le [of y m] by (auto simp: stamp_def valid_date_def valid_time_def)
qed

lemma stamp_groups_date:
  assumes "valid_date y m d" and "valid_time h mi s us"
  shows "int (digits_val (pad_zeros 4 (nat_str (nat y)))) = y"
    and "month_number (month_caps ! (m - 1)) = m"
    and "int (digits_val (lstrip (two_digits d))) = d"
    and "int (digits_val (two_digits h)) = h"
    and "int (digits_val (two_digits mi)) = mi"
    and "int (digits_val (two_digits s)) = s"
proof -
  show "month_number (month_caps ! (m - 1)) = m"
    using assms(1) month_alts_take by (auto simp: valid_date_def list_all_iff)
  show "int (digits_val (lstrip (two_digits d))) = d"
    using assms(1) days_in_month_le [of y m]
    by (simp add: lstrip_digits two_digits_digits two_digits_val valid_date_def)
qed (use assms in \<open>auto simp: valid_date_def valid_time_def two_digits_val\<close>)

lemma strptime_seconds_stamp:
  assumes "valid_date y m d" and "valid_time h mi s us"
  shows "strptime format_seconds (stamp y m d h mi s) = Inr (micros_since_epoch y m d h mi s 0)"
proof -
  have "rx format_seconds (stamp y m d h mi s) = Some (stamp_groups y m d h mi s, [])"
    using rx_stamp [OF assms, of "[]" "[]" "[]" "[]"] by simp
  then show ?thesis
    using assms stamp_groups_date [OF assms]
    by (simp add: strptime_def stamp_groups_def Let_def) (simp add: valid_time_def)
qed

lemma strptime_micros_stamp:
  assumes "valid_date y m d" and "valid_time h mi s us"
    and "list_all is_digit ds" and "1 \<le> length ds" and "length ds \<le> 6"
  shows "strptime format_micros (stamp y m d h mi s @ ''.'' @ ds) =
     Inr (micros_since_epoch y m d h mi s (fraction_micros ds))"
proof -
  have "rx [Rep is_digit 1 (Some 6) True True] (ds @ []) = Some ([ds], [])"
    using rx_run [of is_digit ds "[]" 1 "[]" "[]" "[]" "Some 6" 6 True] assms(3-5)
    by (simp del: rx.simps(3))
  then have "rx [Lit ''.'', Rep is_digit 1 (Some 6) True True] (''.'' @ ds) = Some ([ds], [])"
    by (simp only: rx_Lit append_Nil2)
  then have "rx format_micros (stamp y m d h mi s @ ''.'' @ ds) =
      Some (stamp_groups y m d h mi s @ [ds], [])"
    unfolding format_micros_def by (rule rx_stamp [OF assms(1,2)])
  then show ?thesis
    using assms stamp_groups_date [OF assms(1,2)]
    by (simp add: strptime_def stamp_groups_def Let_def) (simp add: valid_time_def)
qed

lemma strptime_micros_no_point:
  assumes "CHR ''.'' \<notin> set str"
  shows "strptime format_micros str = Inl ValueError"
proof -
  have "rx format_micros str = None"
    using rx_Lit_needed [of format_micros str _ "''.''"] assms
    by (cases "rx format_micros str") (auto simp: format_micros_def)
  then show ?thesis by (simp add: strptime_def)
qed

lemma digits_val_append: "digits_val (a @ b) = digits_val a * 10 ^ length b + digits_val b"
  using digits_val_foldl [of "digits_val a" b] by (simp add: digits_val_def)

lemma digits_val_only_zeros [simp]: "digits_val (replicate k (CHR ''0'')) = 0"
  using digits_val_zeros [of k "[]"] by simp

lemma fraction_micros_eq: "fraction_micros ds = int (digits_val ds) * 10 ^ (6 - length ds)"
  by (simp add: fraction_micros_def digits_val_append)

lemma to_posix_fraction:
  assumes "valid_date y m d" and "valid_time h mi s us"
    and "list_all is_digit ds" and "1 \<le> length ds" and "length ds \<le> 6"
  shows "to_posix (stamp y m d h mi s @ ''.'' @ ds) =
     Inr (rat_of_int (micros_since_epoch y m d h mi s (int (digits_val ds) * 10 ^ (6 - length ds))) / 1000000)"
  using strptime_micros_stamp [OF assms] by (simp add: to_posix_def fraction_micros_eq)

lemma to_posix_seconds:
  assumes "valid_date y m d" and "valid_time h mi s us"
  shows "to_posix (stamp y m d h mi s) =
     Inr (rat_of_int (micros_since_epoch y m d h mi s 0) / 1000000)"
  using strptime_micros_no_point [OF stamp_no_point [OF assms]] strptime_seconds_stamp [OF assms]
  by (simp add: to_posix_def)

section \<open>The day count\<close>

lemma div_step:
  assumes "0 < k"
  shows "(y::int) div k = (y - 1) div k + (if y mod k = 0 then 1 else 0)"
proof (cases "y mod k = 0")
  case True
  have "y - 1 = k * (y div k - 1) + (k - 1)" using True by (simp add: algebra_simps) (metis mult_div_mod_eq add.right_neutral)
  then have "(y - 1) div k = y div k - 1" by (rule int_div_pos_eq) (use assms in auto)
  with True show ?thesis by simp
next
  case False
  have "0 \<le> y mod k" "y mod k < k" using assms by simp_all
  have "y - 1 = k * (y div k) + (y mod k - 1)" by simp
  then have "(y - 1) div k = y div k"
    by (rule int_div_pos_eq) (use False \<open>0 \<le> y mod k\<close> \<open>y mod k < k\<close> in linarith)+
  with False show ?thesis by simp
qed

lemma leap_mod: "(y::int) mod 400 = 0 \<Longrightarrow> y mod 100 = 0" "(y::int) mod 100 = 0 \<Longrightarrow> y mod 4 = 0"
  by presburger+

lemma days_before_year_step:
  "days_before_year (y + 1) = days_before_year y + 365 + (if is_leap y then 1 else 0)"
proof -
  have "days_before_year (y + 1) = y * 365 + y div 4 - y div 100 + y div 400"
    by (simp add: days_before_year_def)
  also have "\<dots> = y * 365 + ((y - 1) div 4 + (if y mod 4 = 0 then 1 else 0))
      - ((y - 1) div 100 + (if y mod 100 = 0 then 1 else 0))
      + ((y - 1) div 400 + (if y mod 400 = 0 then 1 else 0))"
    by (simp only: div_step [of 4 y, simplified] div_step [of 100 y, simplified]
        div_step [of 400 y, simplified])
  also have "\<dots> = days_before_year y + 365 + (if is_leap y then 1 else 0)"
    unfolding days_before_year_def is_leap_def Let_def
    by (cases "y mod 4 = 0"; cases "y mod 100 = 0"; cases "y mod 400 = 0")
      (use leap_mod [of y] in \<open>simp_all add: algebra_simps\<close>)
  finally show ?thesis .
qed

lemma days_before_month_step:
  "1 \<le> m \<Longrightarrow> days_before_month y (Suc m) = days_before_month y m + days_in_month y m"
  by (simp add: days_before_month_def)

lemma days_before_month_13:
  "days_before_month y 13 = 365 + (if is_leap y then 1 else 0)"
  by (simp add: days_before_month_def upt_rec days_in_month_def)

lemma days_in_month_pos: "0 < days_in_month y m"
  by (simp add: days_in_month_def)

lemma days_before_month_mono:
  assumes "1 \<le> m" and "m < n"
  shows "days_before_month y m + days_in_month y m \<le> days_before_month y n"
  using assms(2)
proof (induction n)
  case (Suc n)
  show ?case
  proof (cases "m = n")
    case True
    with assms(1) show ?thesis by (simp add: days_before_month_step)
  next
    case False
    with Suc assms(1) have "days_before_month y m + days_in_month y m \<le> days_before_month y n" by simp
    with False Suc.prems assms(1) show ?thesis
      using days_in_month_pos [of y n] by (simp add: days_before_month_step)
  qed
qed simp

lemma ymd2ord_in_year:
  assumes "valid_date y m d"
  shows "days_before_year y < ymd2ord y m d" and "ymd2ord y m d \<le> days_before_year (y + 1)"
proof -
  have "days_before_month y m + days_in_month y m \<le> days_before_month y 13"
    using assms by (intro days_before_month_mono) (auto simp: valid_date_def)
  with assms show "ymd2ord y m d \<le> days_before_year (y + 1)"
    by (simp add: ymd2ord_def days_before_year_step days_before_month_13 valid_date_def)
  have "0 \<le> days_before_month y m"
    by (auto simp: days_before_month_def days_in_month_def intro!: sum_list_nonneg)
  with assms show "days_before_year y < ymd2ord y m d" by (simp add: ymd2ord_def valid_date_def)
qed

lemma days_before_year_mono: "y \<le> z \<Longrightarrow> days_before_year y \<le> days_before_year z"
proof (induction z rule: int_ge_induct)
  case (step z)
  then show ?case by (simp add: days_before_year_step)
qed simp

lemma ymd2ord_less:
  assumes "valid_date y m d" and "valid_date y' m' d'"
    and "y < y' \<or> y = y' \<and> (m < m' \<or> m = m' \<and> d < d')"
  shows "ymd2ord y m d < ymd2ord y' m' d'"
proof (cases "y < y'")
  case True
  then have "days_before_year (y + 1) \<le> days_before_year y'" by (intro days_before_year_mono) simp
  with ymd2ord_in_year [OF assms(1)] ymd2ord_in_year [OF assms(2)] show ?thesis by linarith
next
  case False
  show ?thesis
  proof (cases "m < m'")
    case True
    with assms(1) have "days_before_month y m + days_in_month y m \<le> days_before_month y m'"
      by (intro days_before_month_mono) (auto simp: valid_date_def)
    with assms False show ?thesis by (auto simp: ymd2ord_def valid_date_def)
  qed (use assms False in \<open>auto simp: ymd2ord_def\<close>)
qed

section \<open>Properties\<close>

text \<open>
  The text that the log library of the node prints for a point in time: the fraction has six
  digits and is left out when it is zero.
\<close>

definition ptime_str :: "int \<Rightarrow> nat \<Rightarrow> int \<Rightarrow> int \<Rightarrow> int \<Rightarrow> int \<Rightarrow> int \<Rightarrow> string" where
  "ptime_str y m d h mi s us =
     stamp y m d h mi s @ (if us = 0 then [] else ''.'' @ pad_zeros 6 (nat_str (nat us)))"

lemma six_digits:
  assumes "0 \<le> us" and "us < 1000000"
  shows "length (pad_zeros 6 (nat_str (nat us))) = 6"
proof -
  have "length (nat_str (nat us)) \<le> length (nat_str 999999)"
    using assms by (intro nat_str_length_mono) simp
  also have "\<dots> = 6" by (simp add: nat_str_small nat_str_large)
  finally show ?thesis by (simp add: pad_zeros_length)
qed

lemma to_posix_ptime:
  assumes "valid_date y m d" and "valid_time h mi s us"
  shows "to_posix (ptime_str y m d h mi s us) =
     Inr (rat_of_int (micros_since_epoch y m d h mi s us) / 1000000)"
proof (cases "us = 0")
  case True
  with to_posix_seconds [OF assms] show ?thesis by (simp add: ptime_str_def)
next
  case False
  have us: "0 \<le> us" "us < 1000000" using assms(2) by (auto simp: valid_time_def)
  have "list_all is_digit (pad_zeros 6 (nat_str (nat us)))"
    by (rule pad_zeros_digits) (rule nat_str_digits)
  from to_posix_fraction [OF assms this] False us show ?thesis
    by (simp add: ptime_str_def six_digits)
qed

lemma micros_less:
  assumes "valid_date y m d" and "valid_time h mi s us"
    and "valid_date y' m' d'" and "valid_time h' mi' s' us'"
    and "(y, m, d, h, mi, s, us) < (y', m', d', h', mi', s', us')"
  shows "micros_since_epoch y m d h mi s us < micros_since_epoch y' m' d' h' mi' s' us'"
proof (cases "(y, m, d) = (y', m', d')")
  case True
  with assms show ?thesis by (auto simp: micros_since_epoch_def valid_time_def)
next
  case False
  then have "ymd2ord y m d < ymd2ord y' m' d'"
    using assms(5) by (intro ymd2ord_less [OF assms(1,3)]) auto
  then have "(ymd2ord y m d + 1) * 86400 \<le> ymd2ord y' m' d' * 86400" by simp
  with assms(2,4) show ?thesis by (simp add: micros_since_epoch_def valid_time_def)
qed



text \<open>The framework's own logger prints the milliseconds of a time stamp without leading
  zeros, and the reader takes the digits as a decimal fraction: the value read back is the time
  that was written exactly when the milliseconds are 0 or have three digits.\<close>

theorem logger_stamp_exact_iff:
  assumes "valid_date y m d" and "valid_time h mi s 0" and "msecs < 1000"
  shows "to_posix (logger_stamp y m d h mi s msecs) =
           Inr (rat_of_int (micros_since_epoch y m d h mi s (1000 * int msecs)) / 1000000) \<longleftrightarrow>
         msecs = 0 \<or> 100 \<le> msecs"
proof -
  let ?ds = "nat_str msecs"
  have len: "length ?ds = (if msecs < 10 then 1 else if msecs < 100 then 2 else 3)"
    using assms(3) by (auto simp: nat_str_small nat_str_large)
  have "to_posix (logger_stamp y m d h mi s msecs) =
      Inr (rat_of_int (micros_since_epoch y m d h mi s (int msecs * 10 ^ (6 - length ?ds))) / 1000000)"
    using to_posix_fraction [OF assms(1,2) nat_str_digits, of msecs] len
    by (simp add: logger_stamp_def split: if_splits)
  then show ?thesis
    using len by (auto simp: micros_since_epoch_def split: if_splits)
qed

theorem logger_stamp_exact_iff_witness:
  "valid_date 2023 5 16 \<and> valid_time 10 11 12 0 \<and> (9::nat) < 1000 \<and>
   logger_stamp 2023 5 16 10 11 12 9 = ''2023-May-16 10:11:12.9'' \<and>
   to_posix (logger_stamp 2023 5 16 10 11 12 9) \<noteq>
     Inr (rat_of_int (micros_since_epoch 2023 5 16 10 11 12 9000) / 1000000)"
proof -
  have v: "valid_date 2023 5 16" "valid_time 10 11 12 0" "(9::nat) < 1000"
    by (simp_all add: valid_date_def valid_time_def days_in_month_def)
  moreover have "logger_stamp 2023 5 16 10 11 12 9 = ''2023-May-16 10:11:12.9''"
    by (simp add: logger_stamp_def stamp_def two_digits_def pad_zeros_def nat_str_small nat_str_large
        digit_char_def month_caps_def)
  ultimately show ?thesis using logger_stamp_exact_iff [OF v] by simp
qed

end
