(* ===== verification/Log_Events.thy ===== *)
theory Log_Events
  imports Py_Datetime
begin

text \<open>
  The log events of the replicas (\<open>logs.py\<close>): one class per kind of row, the regular
  expression of each \<open>from_log_row\<close>, and the scan of \<open>NodeLog._parse_logs\<close> that decides which
  class parses a row. The rows themselves are written by the C++ node; \<open>log_line\<close> and the
  message functions reproduce its format strings, and the theorem of this theory says that what
  the node writes is what the parser reads.
\<close>

section \<open>Event classes and events\<close>

datatype event_cls =
    ReceiveRequestsLog
  | ReceiveBlockLog
  | StartTestBlockValidity
  | EndTestBlockValidity
  | StartSubmitBlock
  | EndSubmitBlock
  | SendPrePrepareLog
  | ExecuteActionLog
  | RoastInitLog

datatype log_event =
    ReceiveRequests (log_timestamp: rat) (replica_id: int) (block_timestamp: int)
      (block_height: int)
  | ReceiveBlock (log_timestamp: rat) (replica_id: int) (block_height: int)
  | StartTest (log_timestamp: rat) (replica_id: int) (block_height: int) (block_size: int)
      (block_hash: string)
  | EndTest (log_timestamp: rat) (replica_id: int) (block_height: int) (block_hash: string)
      (result: string)
  | StartSubmit (log_timestamp: rat) (replica_id: int) (block_height: int) (block_size: int)
      (block_hash: string)
  | EndSubmit (log_timestamp: rat) (replica_id: int) (block_height: int) (block_hash: string)
      (result: string)
  | SendPrePrepare (log_timestamp: rat) (replica_id: int) (block_timestamp: int)
      (block_height: int) (view: int) (seq_number: int)
  | ExecuteAction (log_timestamp: rat) (replica_id: int) (block_timestamp: int)
      (block_height: int) (view: int) (seq_number: int)
  | RoastInit (log_timestamp: rat) (replica_id: int) (block_timestamp: int)
      (block_height: int) (view: int) (seq_number: int)

text \<open>
  \<open>ReceiveRequestsLog.true_request_time\<close>: a request with a time stamp in the future counts from
  that time stamp. Of the other classes only the log time is used.
\<close>

definition true_request_time :: "log_event \<Rightarrow> rat" where
  "true_request_time e = max (of_int (block_timestamp e)) (log_timestamp e)"

section \<open>The regular expressions\<close>

definition row_header :: regex where
  "row_header = [Lit ''['', dot_lazy_cap, Lit ''] '', dot_star]"

definition receive_request_re :: regex where
  "receive_request_re = row_header @
     [Lit '' applying <RECEIVE_REQUEST, T='', digits_cap, Lit '', H='', digits_cap,
      Lit '', R='', digits_cap]"

definition receive_block_re :: regex where
  "receive_block_re = row_header @
     [Lit '' applying <RECEIVE_BLOCK, H='', digits_cap, Lit '', R='', digits_cap]"

definition start_test_re :: regex where
  "start_test_re = row_header @
     [Lit '' R'', digits_cap,
      Lit '' BitcoinBlockchain::TestBlockValidity invoking for candidate block at height '',
      digits_cap, Lit '', blocksize '', digits_cap, Lit '' bytes, block hash: '', hex_cap]"

text \<open>The dot before \<open>Result\<close> is not escaped in the source and stands for any character.\<close>

definition any_one :: re_item where
  "any_one = Rep any_char 1 (Some 1) True False"

definition end_test_re :: regex where
  "end_test_re = row_header @
     [Lit '' R'', digits_cap,
      Lit '' BitcoinBlockchain::TestBlockValidity for candidate block at height '',
      digits_cap, Lit '', block hash: '', hex_cap, any_one, Lit '' Result = '', dot_star_cap,
      Lit '' (null means ok)'']"

definition start_submit_re :: regex where
  "start_submit_re = row_header @
     [Lit '' R'', digits_cap,
      Lit '' BitcoinBlockchain::SubmitBlock submitting block at height '', digits_cap,
      Lit '' block size: '', digits_cap, Lit '' bytes, block hash: '', hex_cap]"

definition end_submit_re :: regex where
  "end_submit_re = row_header @
     [Lit '' R'', digits_cap,
      Lit '' BitcoinBlockchain::SubmitBlock for block at height '', digits_cap,
      Lit '', block hash: '', hex_cap, any_one, Lit '' Result = '', dot_star_cap,
      Lit '' (null means ok)'']"

definition ACTION_NAME :: "event_cls \<Rightarrow> string" where
  "ACTION_NAME cls = (case cls of SendPrePrepareLog \<Rightarrow> ''SEND_PRE_PREPARE''
     | RoastInitLog \<Rightarrow> ''ROAST_INIT'' | _ \<Rightarrow> ''EXECUTE'')"

definition pbft_re :: "string \<Rightarrow> regex" where
  "pbft_re name = row_header @
     [Lit ('' applying <'' @ name @ '', Request=(H=''), digits_cap, Lit '', T='', digits_cap,
      Lit ''), V='', digits_cap, Lit '', N='', digits_cap, Lit '', R='', digits_cap, Lit ''>'']"

section \<open>Parsing one row\<close>

text \<open>Where the search fails it returns \<open>None\<close>, and \<open>None.group\<close> is an \<open>AttributeError\<close>.\<close>

definition groups :: "regex \<Rightarrow> string \<Rightarrow> string list result" where
  "groups re row = (case re_search re row of None \<Rightarrow> Inl AttributeError | Some gs \<Rightarrow> Inr gs)"

definition ReceiveRequests_from_log_row :: "string \<Rightarrow> log_event result" where
  "ReceiveRequests_from_log_row row =
     rbind (groups receive_request_re row) (\<lambda>g.
     rbind (to_posix (g ! 0)) (\<lambda>t. rbind (py_int (g ! 3)) (\<lambda>r.
     rbind (py_int (g ! 1)) (\<lambda>bt. rbind (py_int (g ! 2)) (\<lambda>h.
     Inr (ReceiveRequests t r bt h))))))"

definition ReceiveBlock_from_log_row :: "string \<Rightarrow> log_event result" where
  "ReceiveBlock_from_log_row row =
     rbind (groups receive_block_re row) (\<lambda>g.
     rbind (to_posix (g ! 0)) (\<lambda>t. rbind (py_int (g ! 2)) (\<lambda>r. rbind (py_int (g ! 1)) (\<lambda>h.
     Inr (ReceiveBlock t r h)))))"

definition StartTest_from_log_row :: "string \<Rightarrow> log_event result" where
  "StartTest_from_log_row row =
     rbind (groups start_test_re row) (\<lambda>g.
     rbind (to_posix (g ! 0)) (\<lambda>t. rbind (py_int (g ! 1)) (\<lambda>r.
     rbind (py_int (g ! 2)) (\<lambda>h. rbind (py_int (g ! 3)) (\<lambda>sz.
     Inr (StartTest t r h sz (g ! 4)))))))"

definition EndTest_from_log_row :: "string \<Rightarrow> log_event result" where
  "EndTest_from_log_row row =
     rbind (groups end_test_re row) (\<lambda>g.
     rbind (to_posix (g ! 0)) (\<lambda>t. rbind (py_int (g ! 1)) (\<lambda>r. rbind (py_int (g ! 2)) (\<lambda>h.
     Inr (EndTest t r h (g ! 3) (g ! 4))))))"

definition StartSubmit_from_log_row :: "string \<Rightarrow> log_event result" where
  "StartSubmit_from_log_row row =
     rbind (groups start_submit_re row) (\<lambda>g.
     rbind (to_posix (g ! 0)) (\<lambda>t. rbind (py_int (g ! 1)) (\<lambda>r.
     rbind (py_int (g ! 2)) (\<lambda>h. rbind (py_int (g ! 3)) (\<lambda>sz.
     Inr (StartSubmit t r h sz (g ! 4)))))))"

definition EndSubmit_from_log_row :: "string \<Rightarrow> log_event result" where
  "EndSubmit_from_log_row row =
     rbind (groups end_submit_re row) (\<lambda>g.
     rbind (to_posix (g ! 0)) (\<lambda>t. rbind (py_int (g ! 1)) (\<lambda>r. rbind (py_int (g ! 2)) (\<lambda>h.
     Inr (EndSubmit t r h (g ! 3) (g ! 4))))))"

text \<open>
  The three PBFT classes share one method, which builds an \<open>ExecuteActionLog\<close> whatever the class
  it is called on.
\<close>

definition Pbft_from_log_row :: "event_cls \<Rightarrow> string \<Rightarrow> log_event result" where
  "Pbft_from_log_row cls row =
     rbind (groups (pbft_re (ACTION_NAME cls)) row) (\<lambda>g.
     rbind (to_posix (g ! 0)) (\<lambda>t. rbind (py_int (g ! 5)) (\<lambda>r.
     rbind (py_int (g ! 2)) (\<lambda>bt. rbind (py_int (g ! 1)) (\<lambda>h.
     rbind (py_int (g ! 3)) (\<lambda>v. rbind (py_int (g ! 4)) (\<lambda>n.
     Inr (ExecuteAction t r bt h v n))))))))"

fun from_log_row :: "event_cls \<Rightarrow> string \<Rightarrow> log_event result" where
  "from_log_row ReceiveRequestsLog row = ReceiveRequests_from_log_row row"
| "from_log_row ReceiveBlockLog row = ReceiveBlock_from_log_row row"
| "from_log_row StartTestBlockValidity row = StartTest_from_log_row row"
| "from_log_row EndTestBlockValidity row = EndTest_from_log_row row"
| "from_log_row StartSubmitBlock row = StartSubmit_from_log_row row"
| "from_log_row EndSubmitBlock row = EndSubmit_from_log_row row"
| "from_log_row cls row = Pbft_from_log_row cls row"

section \<open>Selecting the class of a row\<close>

definition patterns :: "(string \<times> event_cls) list" where
  "patterns =
     [(''applying <RECEIVE_REQUEST'', ReceiveRequestsLog),
      (''applying <EXECUTE'', ExecuteActionLog),
      (''applying <RECEIVE_BLOCK'', ReceiveBlockLog),
      (''applying <SEND_PRE_PREPARE'', SendPrePrepareLog),
      (''applying <ROAST_INIT'', RoastInitLog),
      (''BitcoinBlockchain::SubmitBlock submitting'', StartSubmitBlock),
      (''BitcoinBlockchain::SubmitBlock for block at height'', EndSubmitBlock)]"

text \<open>
  The patterns are joined by \<open>|\<close> into one regular expression: the leftmost place where one of
  them occurs wins, and at one place the first of them in the order of the dictionary.
\<close>

fun find_pattern :: "(string \<times> 'a) list \<Rightarrow> string \<Rightarrow> 'a option" where
  "find_pattern ps [] = map_option snd (List.find (\<lambda>p. fst p = []) ps)"
| "find_pattern ps (c # cs) =
     (case List.find (\<lambda>p. prefix (fst p) (c # cs)) ps of
        Some p \<Rightarrow> Some (snd p) | None \<Rightarrow> find_pattern ps cs)"

definition parse_row :: "string \<Rightarrow> (event_cls \<times> log_event) option result" where
  "parse_row row =
     (case find_pattern patterns row of
        None \<Rightarrow> Inr None
      | Some cls \<Rightarrow> rbind (from_log_row cls row) (\<lambda>e. Inr (Some (cls, e))))"

section \<open>The rows the node writes\<close>

text \<open>\<open>utils.cpp\<close> sets up the row: line number, time stamp, severity, message.\<close>

definition log_line :: "nat \<Rightarrow> string \<Rightarrow> string \<Rightarrow> string" where
  "log_line line_id ts msg = nat_str line_id @ '' ['' @ ts @ ''] [debug] '' @ msg"

definition identify :: "string \<Rightarrow> nat \<Rightarrow> nat \<Rightarrow> nat \<Rightarrow> nat \<Rightarrow> nat \<Rightarrow> string" where
  "identify name h t v n r =
     ''<'' @ name @ '', Request=(H='' @ nat_str h @ '', T='' @ nat_str t @ ''), V='' @ nat_str v @
     '', N='' @ nat_str n @ '', R='' @ nat_str r @ ''>''"

definition identify_request :: "nat \<Rightarrow> nat \<Rightarrow> nat \<Rightarrow> string" where
  "identify_request t h r =
     ''<RECEIVE_REQUEST, T='' @ nat_str t @ '', H='' @ nat_str h @ '', R='' @ nat_str r @ ''>''"

definition identify_block :: "nat \<Rightarrow> nat \<Rightarrow> string" where
  "identify_block h r = ''<RECEIVE_BLOCK, H='' @ nat_str h @ '', R='' @ nat_str r @ ''>''"

definition applying_msg :: "nat \<Rightarrow> string \<Rightarrow> string" where
  "applying_msg r act = ''R'' @ nat_str r @ '' applying '' @ act @ '' effect.''"

definition submitting_msg :: "nat \<Rightarrow> nat \<Rightarrow> nat \<Rightarrow> string \<Rightarrow> string" where
  "submitting_msg r h sz hsh =
     ''R'' @ nat_str r @ '' BitcoinBlockchain::SubmitBlock submitting block at height '' @
     nat_str h @ '' block size: '' @ nat_str sz @ '' bytes, block hash: '' @ hsh"

definition submitted_msg :: "nat \<Rightarrow> nat \<Rightarrow> string \<Rightarrow> string \<Rightarrow> string" where
  "submitted_msg r h hsh res =
     ''R'' @ nat_str r @ '' BitcoinBlockchain::SubmitBlock for block at height '' @
     nat_str h @ '', block hash: '' @ hsh @ ''. Result = '' @ res @ '' (null means ok).''"

text \<open>What the node does, as far as its log shows, with the numbers that appear in the row.\<close>

datatype node_event =
    NReceiveRequest nat nat nat
  | NReceiveBlock nat nat
  | NPbft event_cls nat nat nat nat nat
  | NSubmitting nat nat nat string
  | NSubmitted nat nat string string

fun event_message :: "node_event \<Rightarrow> string" where
  "event_message (NReceiveRequest t h r) = applying_msg r (identify_request t h r)"
| "event_message (NReceiveBlock h r) = applying_msg r (identify_block h r)"
| "event_message (NPbft cls h t v n r) = applying_msg r (identify (ACTION_NAME cls) h t v n r)"
| "event_message (NSubmitting r h sz hsh) = submitting_msg r h sz hsh"
| "event_message (NSubmitted r h hsh res) = submitted_msg r h hsh res"

fun event_class :: "node_event \<Rightarrow> event_cls" where
  "event_class (NReceiveRequest t h r) = ReceiveRequestsLog"
| "event_class (NReceiveBlock h r) = ReceiveBlockLog"
| "event_class (NPbft cls h t v n r) = cls"
| "event_class (NSubmitting r h sz hsh) = StartSubmitBlock"
| "event_class (NSubmitted r h hsh res) = EndSubmitBlock"

fun event_parsed :: "rat \<Rightarrow> node_event \<Rightarrow> log_event" where
  "event_parsed lt (NReceiveRequest t h r) = ReceiveRequests lt (int r) (int t) (int h)"
| "event_parsed lt (NReceiveBlock h r) = ReceiveBlock lt (int r) (int h)"
| "event_parsed lt (NPbft cls h t v n r) =
     ExecuteAction lt (int r) (int t) (int h) (int v) (int n)"
| "event_parsed lt (NSubmitting r h sz hsh) = StartSubmit lt (int r) (int h) (int sz) hsh"
| "event_parsed lt (NSubmitted r h hsh res) = EndSubmit lt (int r) (int h) hsh res"

text \<open>
  The answer of \<open>submitblock\<close> is printed on one line and does not imitate the row itself.
\<close>

fun event_ok :: "node_event \<Rightarrow> bool" where
  "event_ok (NPbft cls h t v n r) = (cls \<in> {SendPrePrepareLog, ExecuteActionLog, RoastInitLog})"
| "event_ok (NSubmitting r h sz hsh) = (hsh \<noteq> [] \<and> list_all hex_char hsh)"
| "event_ok (NSubmitted r h hsh res) =
     (hsh \<noteq> [] \<and> list_all hex_char hsh \<and> list_all (\<lambda>c. \<not> is_linebreak c) res \<and>
      CHR ''S'' \<notin> set res \<and> CHR ''('' \<notin> set res \<and> CHR ''<'' \<notin> set res)"
| "event_ok _ = True"

section \<open>Matching the pieces of a row\<close>

lemma one_line_any_char: "\<not> is_linebreak c \<Longrightarrow> any_char c"
  by (auto simp: is_linebreak_def any_char_def)

lemma digit_not: "\<not> is_digit c \<Longrightarrow> c \<notin> set (nat_str n)"
  using nat_str_digits [of n] by (auto simp: list_all_iff)

lemma digit_any_char: "is_digit c \<Longrightarrow> any_char c"
  by (auto simp: is_digit_def any_char_def)

lemma nat_str_any_char [simp]: "list_all any_char (nat_str n)"
  using nat_str_digits [of n] by (auto simp: list_all_iff digit_any_char)

lemma rx_digits:
  assumes "rx rs t = Some (cs, r)" and "t = [] \<or> \<not> is_digit (hd t)"
  shows "rx (digits_cap # rs) (nat_str n @ t) = Some (nat_str n # cs, r)"
  using rx_run [OF nat_str_digits assms(2) _ assms(1), of 1 n None _ True]
  by (simp add: Suc_le_eq)

lemma rx_hex:
  assumes "rx rs t = Some (cs, r)" and "t = [] \<or> \<not> hex_char (hd t)"
    and "list_all hex_char hsh" and "hsh \<noteq> []"
  shows "rx (hex_cap # rs) (hsh @ t) = Some (hsh # cs, r)"
  using rx_run [OF assms(3,2) _ assms(1), of 1 None _ True] assms(4)
  by (simp add: Suc_le_eq)

lemma rx_any_one:
  assumes "rx rs t = Some (cs, r)" and "any_char c"
  shows "rx (any_one # rs) (c # t) = Some (cs, r)"
  using assms by (simp add: any_one_def rep_counts_def)

lemma rx_Lit_step: "rx rs s = Some m \<Longrightarrow> rx (Lit l # rs) (l @ s) = Some m"
  by simp

text \<open>The time stamp is what stands between the first brackets.\<close>

lemma header_search:
  assumes "list_all any_char ts" and "CHR '']'' \<notin> set ts"
    and "rx (dot_star # rs) (''[debug] '' @ msg) = Some (cs, r)"
  shows "re_search (row_header @ rs) (log_line i ts msg) = Some (ts # cs)"
proof -
  have "rx (Lit ''['' # dot_lazy_cap # Lit ''] '' # dot_star # rs)
      (''['' @ ts @ ''] '' @ ''[debug] '' @ msg) = Some (ts # cs, r)"
    using rx_lazy_until [OF assms(1,2,3), of "'' ''"] by simp
  then have "re_search (Lit (CHR ''['' # []) # dot_lazy_cap # Lit ''] '' # dot_star # rs)
      ((nat_str i @ '' '') @ (CHR ''['' # []) @ ts @ ''] '' @ ''[debug] '' @ msg) = Some (ts # cs)"
    by (intro re_search_at) (simp_all add: digit_not is_digit_def del: rx.simps)
  then show ?thesis by (simp add: row_header_def log_line_def del: rx.simps re_search.simps)
qed

text \<open>
  Rows of applied actions: the last \<open><\<close> of the row opens the action.
\<close>

lemma applying_row:
  assumes "list_all any_char ts" and "CHR '']'' \<notin> set ts"
    and "CHR ''<'' \<notin> set b" and "CHR ''<'' \<notin> set body" and "rx rs body = Some (cs, r)"
  shows "re_search (row_header @ Lit ('' applying <'' @ b) # rs)
     (log_line i ts (''R'' @ nat_str k @ '' applying <'' @ b @ body)) = Some (ts # cs)"
proof (rule header_search [OF assms(1,2)])
  have "list_all any_char (''[debug] R'' @ nat_str k)" by (simp add: any_char_def)
  from rx_greedy_until [OF this assms(3-5), where cap = False and a = "'' applying ''"]
  show "rx (dot_star # Lit ('' applying <'' @ b) # rs)
      (''[debug] '' @ ''R'' @ nat_str k @ '' applying <'' @ b @ body) = Some (cs, r)"
    by (simp del: rx.simps)
qed

lemma request_row:
  assumes "list_all any_char ts" and "CHR '']'' \<notin> set ts"
  shows "groups receive_request_re (log_line i ts (applying_msg r (identify_request t h r))) =
     Inr [ts, nat_str t, nat_str h, nat_str r]"
proof -
  have "rx [digits_cap, Lit '', H='', digits_cap, Lit '', R='', digits_cap]
      (nat_str t @ '', H='' @ nat_str h @ '', R='' @ nat_str r @ ''> effect.'') =
      Some ([nat_str t, nat_str h, nat_str r], ''> effect.'')"
    by (intro rx_digits rx_Lit_step) (simp_all add: is_digit_def)
  from applying_row [OF assms _ _ this, of "''RECEIVE_REQUEST, T=''" i r]
  show ?thesis
    by (simp add: groups_def receive_request_re_def applying_msg_def identify_request_def
        digit_not is_digit_def del: rx.simps re_search.simps)
qed

lemma block_row:
  assumes "list_all any_char ts" and "CHR '']'' \<notin> set ts"
  shows "groups receive_block_re (log_line i ts (applying_msg r (identify_block h r))) =
     Inr [ts, nat_str h, nat_str r]"
proof -
  have "rx [digits_cap, Lit '', R='', digits_cap] (nat_str h @ '', R='' @ nat_str r @ ''> effect.'') =
      Some ([nat_str h, nat_str r], ''> effect.'')"
    by (intro rx_digits rx_Lit_step) (simp_all add: is_digit_def)
  from applying_row [OF assms _ _ this, of "''RECEIVE_BLOCK, H=''" i r]
  show ?thesis
    by (simp add: groups_def receive_block_re_def applying_msg_def identify_block_def
        digit_not is_digit_def del: rx.simps re_search.simps)
qed

lemma pbft_row:
  assumes "list_all any_char ts" and "CHR '']'' \<notin> set ts" and "CHR ''<'' \<notin> set name"
  shows "groups (pbft_re name) (log_line i ts (applying_msg r (identify name h t v n r))) =
     Inr [ts, nat_str h, nat_str t, nat_str v, nat_str n, nat_str r]"
proof -
  have "rx [digits_cap, Lit '', T='', digits_cap, Lit ''), V='', digits_cap, Lit '', N='',
        digits_cap, Lit '', R='', digits_cap, Lit ''>'']
      (nat_str h @ '', T='' @ nat_str t @ ''), V='' @ nat_str v @ '', N='' @ nat_str n @
       '', R='' @ nat_str r @ ''>'' @ '' effect.'') =
      Some ([nat_str h, nat_str t, nat_str v, nat_str n, nat_str r], '' effect.'')"
    by (intro rx_digits rx_Lit_step) (simp_all add: is_digit_def)
  from applying_row [OF assms(1,2) _ _ this, of "name @ '', Request=(H=''" i r]
  show ?thesis
    by (simp add: groups_def pbft_re_def applying_msg_def identify_def
        digit_not is_digit_def assms(3) del: rx.simps re_search.simps)
qed

text \<open>Rows of block submissions: the greedy run ends before the replica's name.\<close>

lemma hex_not: "\<not> hex_char c \<Longrightarrow> list_all hex_char hsh \<Longrightarrow> c \<notin> set hsh"
  by (auto simp: list_all_iff)

lemma submit_row:
  assumes "list_all any_char ts" and "CHR '']'' \<notin> set ts" and "rx rs body = Some (cs, r)"
    and "\<And>k. 0 < k \<Longrightarrow> rx (Lit '' R'' # rs) (drop k ('' R'' @ body)) = None"
  shows "re_search (row_header @ Lit '' R'' # rs) (log_line i ts (''R'' @ body)) = Some (ts # cs)"
proof (rule header_search [OF assms(1,2)])
  have "rx (Lit '' R'' # rs) ('' R'' @ body) = Some (cs, r)" by (rule rx_Lit_step) (rule assms(3))
  from rx_greedy_last [OF _ this assms(4), of any_char "''[debug]''" False]
  show "rx (dot_star # Lit '' R'' # rs) (''[debug] '' @ ''R'' @ body) = Some (cs, r)"
    by (simp add: any_char_def del: rx.simps)
qed

lemma submitting_row:
  assumes "list_all any_char ts" and "CHR '']'' \<notin> set ts" and "list_all hex_char hsh" and "hsh \<noteq> []"
  shows "groups start_submit_re (log_line i ts (submitting_msg r h sz hsh)) =
     Inr [ts, nat_str r, nat_str h, nat_str sz, hsh]"
proof -
  let ?rs = "[digits_cap, Lit '' BitcoinBlockchain::SubmitBlock submitting block at height '',
     digits_cap, Lit '' block size: '', digits_cap, Lit '' bytes, block hash: '', hex_cap]"
  let ?body = "nat_str r @ '' BitcoinBlockchain::SubmitBlock submitting block at height '' @
     nat_str h @ '' block size: '' @ nat_str sz @ '' bytes, block hash: '' @ hsh @ []"
  have body: "rx ?rs ?body = Some ([nat_str r, nat_str h, nat_str sz, hsh], [])"
    by (intro rx_digits rx_Lit_step rx_hex) (simp_all add: is_digit_def assms)
  have "CHR ''R'' \<notin> set ?body"
    using assms(3) by (simp add: digit_not hex_not is_digit_def hex_char_def)
  then have last: "rx (Lit ('' '' @ CHR ''R'' # []) # ?rs) (drop k (('' '' @ CHR ''R'' # []) @ ?body)) = None"
    if "0 < k" for k
    using that by (intro Lit_marker_last) simp_all
  from submit_row [OF assms(1,2) body, of i] last
  show ?thesis
    by (simp add: groups_def start_submit_re_def submitting_msg_def del: rx.simps re_search.simps)
qed

lemma contains_iff_drop: "contains l s \<longleftrightarrow> (\<exists>k. prefix l (drop k s))"
proof
  show "contains l s \<Longrightarrow> \<exists>k. prefix l (drop k s)"
  proof (induction s)
    case (Cons c s)
    then show ?case by (metis contains.simps(2) drop_0 drop_Suc_Cons)
  qed (metis contains.simps(1) drop_Nil prefix_order.refl)
next
  assume "\<exists>k. prefix l (drop k s)"
  then obtain k where "prefix l (drop k s)" by blast
  then have "contains l (drop k s)" by (cases "drop k s") auto
  then show "contains l s" by (rule contains_drop)
qed

lemma contains_marker_last:
  assumes "c \<notin> set b" and "c \<notin> set s" and "0 < k"
  shows "\<not> contains (a @ c # b) (drop k ((a @ c # b) @ s))"
proof
  assume "contains (a @ c # b) (drop k ((a @ c # b) @ s))"
  then obtain j where "prefix (a @ c # b) (drop (j + k) ((a @ c # b) @ s))"
    unfolding contains_iff_drop drop_drop by blast
  with Lit_marker_last [OF assms(1,2), of "j + k" a "[]"] assms(3) show False
    by (simp del: drop_append)
qed

text \<open>The rest of a matching row behind the replica's name cannot start anew further right.\<close>

lemma name_occurs_once:
  assumes "c \<notin> set b" and "c \<notin> set rest" and "0 < k"
  shows "rx (Lit '' R'' # digits_cap # Lit (a @ c # b) # rs)
     (drop k ('' R'' @ nat_str r @ (a @ c # b) @ rest)) = None"
proof (rule ccontr)
  let ?s = "'' R'' @ nat_str r @ (a @ c # b) @ rest"
  assume "rx (Lit '' R'' # digits_cap # Lit (a @ c # b) # rs) (drop k ?s) \<noteq> None"
  then obtain m where name: "prefix '' R'' (drop k ?s)"
    and m: "rx (digits_cap # Lit (a @ c # b) # rs) (drop 2 (drop k ?s)) = Some m"
    by (auto split: if_splits simp del: drop_append simp: numeral_2_eq_2)
  show False
  proof (cases "length (nat_str r) < k")
    case True
    then have "drop 2 (drop k ?s) = drop (k - length (nat_str r)) ((a @ c # b) @ rest)"
      by simp
    with rx_Lit_contained [OF m, of "a @ c # b"]
      contains_marker_last [OF assms(1,2), of "k - length (nat_str r)" a] True
    show False by simp
  next
    case False
    then have "k < length ?s" by simp
    then have "?s ! k = hd (drop k ?s)" by (simp only: hd_drop_conv_nth)
    also have "\<dots> = CHR '' ''" using name by (auto simp: prefix_def)
    finally have "(''R'' @ nat_str r) ! (k - 1) = CHR '' ''"
      using False assms(3) by (cases k) (simp_all add: nth_append nth_Cons split: nat.splits)
    moreover have "k - 1 < length (''R'' @ nat_str r)" using False assms(3) by simp
    ultimately have "CHR '' '' \<in> set (''R'' @ nat_str r)" by (metis nth_mem)
    then show False by (simp add: digit_not is_digit_def)
  qed
qed

lemma submitted_row:
  assumes "list_all any_char ts" and "CHR '']'' \<notin> set ts" and "event_ok (NSubmitted r h hsh res)"
  shows "groups end_submit_re (log_line i ts (submitted_msg r h hsh res)) =
     Inr [ts, nat_str r, nat_str h, hsh, res]"
proof -
  let ?rs = "[digits_cap, Lit '', block hash: '', hex_cap, any_one, Lit '' Result = '',
     dot_star_cap, Lit '' (null means ok)'']"
  let ?rest = "nat_str h @ '', block hash: '' @ hsh @ CHR ''.'' # '' Result = '' @
     res @ '' (null means ok)'' @ ''.''"
  let ?lit = "'' BitcoinBlockchain::'' @ CHR ''S'' # ''ubmitBlock for block at height ''"
  have ok: "list_all hex_char hsh" "hsh \<noteq> []" "list_all any_char res" "CHR ''S'' \<notin> set res"
    "CHR ''('' \<notin> set res" using assms(3) by (auto simp: list_all_iff one_line_any_char)
  have "rx [dot_star_cap, Lit ('' '' @ CHR ''('' # ''null means ok)'')]
      (res @ ('' '' @ CHR ''('' # ''null means ok)'') @ ''.'') = Some ([res], ''.'')"
    by (rule rx_greedy_until [where cap = True, simplified if_True, OF ok(3)]) simp_all
  then have "rx (digits_cap # Lit ?lit # ?rs) (nat_str r @ ?lit @ ?rest) =
      Some ([nat_str r, nat_str h, hsh, res], ''.'')"
    by (intro rx_digits rx_Lit_step rx_hex rx_any_one)
      (simp_all add: is_digit_def hex_char_def any_char_def ok del: rx.simps)
  moreover have "CHR ''S'' \<notin> set ?rest"
    using ok by (simp add: digit_not hex_not is_digit_def hex_char_def)
  then have "rx (Lit '' R'' # digits_cap # Lit ?lit # ?rs) (drop k ('' R'' @ nat_str r @ ?lit @ ?rest)) = None"
    if "0 < k" for k
    using that by (intro name_occurs_once) simp_all
  ultimately show ?thesis
    using submit_row [OF assms(1,2), of "digits_cap # Lit ?lit # ?rs" "nat_str r @ ?lit @ ?rest"]
    by (simp add: groups_def end_submit_re_def submitted_msg_def del: rx.simps re_search.simps drop_append)
qed

section \<open>Finding the pattern of a row\<close>

lemma find_pattern_skip:
  assumes "\<And>p i. p \<in> set ps \<Longrightarrow> i < length pre \<Longrightarrow> \<not> prefix (fst p) (drop i pre @ s)"
  shows "find_pattern ps (pre @ s) = find_pattern ps s"
  using assms
proof (induction pre)
  case (Cons c pre)
  have "List.find (\<lambda>p. prefix (fst p) (c # pre @ s)) ps = None"
    unfolding find_None_iff using Cons.prems [of _ 0] by auto
  moreover have "find_pattern ps (pre @ s) = find_pattern ps s"
  proof (rule Cons.IH)
    show "\<not> prefix (fst p) (drop i pre @ s)" if "p \<in> set ps" and "i < length pre" for p i
      using Cons.prems [of p "Suc i"] that by simp
  qed
  ultimately show ?case by simp
qed simp

lemma prefix_marker:
  assumes "prefix (a @ c # b) (w @ c # z)" and "c \<notin> set a" and "c \<notin> set w"
  shows "a = w"
  using assms
proof (induction a arbitrary: w)
  case Nil
  then show ?case by (cases w) auto
next
  case (Cons x a)
  then show ?case by (cases w) auto
qed

lemma prefix_first: "prefix (c # b) (w @ s) \<Longrightarrow> w \<noteq> [] \<Longrightarrow> c \<in> set w"
  by (cases w) auto

lemma patterns_shape:
  assumes "p \<in> set patterns"
  obtains b where "fst p = ''applying '' @ CHR ''<'' # b" | b where "fst p = CHR ''B'' # b"
  using assms unfolding patterns_def by auto

lemma find_applying:
  assumes "CHR ''B'' \<notin> set pre" and "CHR ''<'' \<notin> set pre"
  shows "find_pattern patterns (pre @ ''applying <'' @ s) = find_pattern patterns (''applying <'' @ s)"
proof (rule find_pattern_skip)
  fix p i
  assume p: "p \<in> set patterns" and i: "i < length pre"
  show "\<not> prefix (fst p) (drop i pre @ ''applying <'' @ s)"
  proof
    assume pf: "prefix (fst p) (drop i pre @ ''applying <'' @ s)"
    from p show False
    proof (cases rule: patterns_shape)
      case (1 b)
      have "prefix (''applying '' @ CHR ''<'' # b) ((drop i pre @ ''applying '') @ CHR ''<'' # s)"
        using pf 1 by simp
      then have "''applying '' = drop i pre @ ''applying ''"
        by (rule prefix_marker) (use assms(2) in \<open>auto dest: in_set_dropD\<close>)
      with i show False by simp
    next
      case (2 b)
      with pf i have "CHR ''B'' \<in> set (drop i pre)" by (auto intro: prefix_first)
      with assms(1) show False by (auto dest: in_set_dropD)
    qed
  qed
qed

lemma find_submit:
  assumes "CHR ''B'' \<notin> set pre" and "CHR ''<'' \<notin> set (pre @ s)"
  shows "find_pattern patterns (pre @ s) = find_pattern patterns s"
proof (rule find_pattern_skip)
  fix p i
  assume p: "p \<in> set patterns" and i: "i < length pre"
  show "\<not> prefix (fst p) (drop i pre @ s)"
  proof
    assume pf: "prefix (fst p) (drop i pre @ s)"
    from p show False
    proof (cases rule: patterns_shape)
      case (1 b)
      with set_mono_prefix [OF pf] have "CHR ''<'' \<in> set (drop i pre @ s)" by auto
      with assms(2) show False by (auto dest: in_set_dropD)
    next
      case (2 b)
      with pf i have "CHR ''B'' \<in> set (drop i pre)" by (auto intro: prefix_first)
      with assms(1) show False by (auto dest: in_set_dropD)
    qed
  qed
qed

text \<open>The characters of a time stamp.\<close>

definition stamp_chars :: "char set" where
  "stamp_chars = set ''0123456789-: .JanFebMarAprMayJunJulAugSepOctNovDec''"

lemma digits_stamp_chars: "list_all is_digit ds \<Longrightarrow> set ds \<subseteq> stamp_chars"
proof -
  have "set ''0123456789'' \<subseteq> stamp_chars" unfolding stamp_chars_def by simp
  then show "list_all is_digit ds \<Longrightarrow> set ds \<subseteq> stamp_chars"
    unfolding list_all_iff is_digit_def by blast
qed

lemma month_caps_chars: "m < 12 \<Longrightarrow> set (month_caps ! m) \<subseteq> stamp_chars"
proof -
  assume "m < 12"
  then have "month_caps ! m \<in> set month_caps" by (intro nth_mem) (simp add: month_caps_def)
  moreover have "\<forall>w \<in> set month_caps. set w \<subseteq> stamp_chars"
    by (simp add: month_caps_def stamp_chars_def)
  ultimately show ?thesis by blast
qed

lemma ptime_str_chars:
  assumes "valid_date y m d" and "valid_time h mi s us"
  shows "set (ptime_str y m d h mi s us) \<subseteq> stamp_chars"
proof -
  have "set (month_caps ! (m - 1)) \<subseteq> stamp_chars"
    by (rule month_caps_chars) (use assms(1) in \<open>auto simp: valid_date_def\<close>)
  moreover have "set (two_digits n) \<subseteq> stamp_chars" if "n < 100" for n
    by (rule digits_stamp_chars) (use that in \<open>rule two_digits_digits\<close>)
  moreover have "set (pad_zeros w (nat_str n)) \<subseteq> stamp_chars" for w n
    by (intro digits_stamp_chars pad_zeros_digits nat_str_digits)
  moreover have "d < 100" "h < 100" "mi < 100" "s < 100"
    using assms days_in_month_le [of y m] by (auto simp: valid_date_def valid_time_def)
  moreover have "set ''-: .'' \<subseteq> stamp_chars" by (simp add: stamp_chars_def)
  ultimately show ?thesis
    unfolding ptime_str_def stamp_def by simp
qed

lemma stamp_chars_any: "set ts \<subseteq> stamp_chars \<Longrightarrow> list_all any_char ts"
proof -
  assume "set ts \<subseteq> stamp_chars"
  moreover have "LF \<notin> stamp_chars" by (simp add: stamp_chars_def)
  ultimately show ?thesis by (auto simp: list_all_iff any_char_def)
qed

section \<open>What the node writes is what the parser reads\<close>

lemma find_pbft:
  "cls \<in> {SendPrePrepareLog, ExecuteActionLog, RoastInitLog} \<Longrightarrow>
     find_pattern patterns (''applying <'' @ ACTION_NAME cls @ s) = Some cls"
  by (cases cls) (simp_all add: ACTION_NAME_def patterns_def)

lemma find_pattern_event:
  assumes "set ts \<subseteq> stamp_chars" and "event_ok e"
  shows "find_pattern patterns (log_line i ts (event_message e)) = Some (event_class e)"
proof -
  have free: "c \<notin> set (nat_str i @ '' ['' @ ts @ ''] [debug] R'' @ nat_str r @ '' '')"
    if "c = CHR ''B'' \<or> c = CHR ''<''" for c r
  proof -
    have "c \<notin> stamp_chars" using that unfolding stamp_chars_def by auto
    then have "c \<notin> set ts" using assms(1) by blast
    then show ?thesis using that by (auto simp: is_digit_def digit_not)
  qed
  have app: "find_pattern patterns (log_line i ts (applying_msg r (CHR ''<'' # s))) =
      find_pattern patterns (''applying <'' @ s @ '' effect.'')" for r s
    using find_applying [OF free [of "CHR ''B''" r] free [of "CHR ''<''" r], of "s @ '' effect.''"]
    by (simp add: log_line_def applying_msg_def del: find_pattern.simps)
  have sub: "find_pattern patterns (log_line i ts (''R'' @ nat_str r @ '' '' @ s)) =
      find_pattern patterns s" if "CHR ''<'' \<notin> set s" for r s
    using find_submit [OF free [of "CHR ''B''" r], of s] free [of "CHR ''<''" r] that
    by (simp add: log_line_def del: find_pattern.simps)
  show ?thesis
  proof (cases e)
    case (NReceiveRequest t h r)
    then show ?thesis using app by (simp add: identify_request_def patterns_def)
  next
    case (NReceiveBlock h r)
    then show ?thesis using app by (simp add: identify_block_def patterns_def)
  next
    case (NPbft cls h t v n r)
    with assms(2) find_pbft [of cls] app [of r "ACTION_NAME cls @ _"] show ?thesis
      by (simp add: identify_def del: find_pattern.simps)
  next
    case (NSubmitting r h sz hsh)
    let ?s = "''BitcoinBlockchain::SubmitBlock submitting block at height '' @ nat_str h @
      '' block size: '' @ nat_str sz @ '' bytes, block hash: '' @ hsh"
    have "CHR ''<'' \<notin> set ?s"
      using assms(2) NSubmitting by (simp add: digit_not is_digit_def hex_not hex_char_def)
    from sub [OF this, of r] NSubmitting show ?thesis
      by (simp add: submitting_msg_def patterns_def)
  next
    case (NSubmitted r h hsh res)
    let ?s = "''BitcoinBlockchain::SubmitBlock for block at height '' @ nat_str h @
      '', block hash: '' @ hsh @ ''. Result = '' @ res @ '' (null means ok).''"
    have "CHR ''<'' \<notin> set ?s"
      using assms(2) NSubmitted by (simp add: digit_not is_digit_def hex_not hex_char_def)
    from sub [OF this, of r] NSubmitted show ?thesis
      by (simp add: submitted_msg_def patterns_def)
  qed
qed

lemma from_log_row_event:
  assumes "set ts \<subseteq> stamp_chars" and "to_posix ts = Inr lt" and "event_ok e"
  shows "from_log_row (event_class e) (log_line i ts (event_message e)) = Inr (event_parsed lt e)"
proof -
  have any: "list_all any_char ts" by (rule stamp_chars_any) (rule assms(1))
  have "CHR '']'' \<notin> stamp_chars" by (simp add: stamp_chars_def)
  then have br: "CHR '']'' \<notin> set ts" using assms(1) by blast
  note rows = request_row [OF any br] block_row [OF any br] pbft_row [OF any br]
    submitting_row [OF any br] submitted_row [OF any br]
  show ?thesis
  proof (cases e)
    case (NPbft cls h t v n r)
    have "CHR ''<'' \<notin> set (ACTION_NAME cls)" by (simp add: ACTION_NAME_def split: event_cls.split)
    with NPbft assms show ?thesis by (auto simp: rows Pbft_from_log_row_def)
  qed (use assms in \<open>simp_all add: rows ReceiveRequests_from_log_row_def
      ReceiveBlock_from_log_row_def StartSubmit_from_log_row_def EndSubmit_from_log_row_def\<close>)
qed

lemma parse_row_event:
  assumes "valid_date y m d" and "valid_time h mi s us" and "event_ok e"
  shows "parse_row (log_line i (ptime_str y m d h mi s us) (event_message e)) =
     Inr (Some (event_class e,
       event_parsed (rat_of_int (micros_since_epoch y m d h mi s us) / 1000000) e))"
  using find_pattern_event [OF ptime_str_chars [OF assms(1,2)] assms(3)]
    from_log_row_event [OF ptime_str_chars [OF assms(1,2)] to_posix_ptime [OF assms(1,2)] assms(3)]
  by (simp add: parse_row_def del: find_pattern.simps from_log_row.simps)



text \<open>The row that \<open>TestBlockValidity\<close> writes at its end.\<close>

definition tested_msg :: "nat \<Rightarrow> nat \<Rightarrow> string \<Rightarrow> string \<Rightarrow> string" where
  "tested_msg r h hsh res =
     ''R'' @ nat_str r @ '' BitcoinBlockchain::TestBlockValidity for candidate block at height '' @
     nat_str h @ '' with hash '' @ hsh @ ''. Result = '' @ res @ '' (null means ok).''"

lemma re_search_Lit_needed:
  "re_search rs s = Some cs \<Longrightarrow> Lit l \<in> set rs \<Longrightarrow> set l \<subseteq> set s"
proof (induction s)
  case Nil
  then show ?case using rx_Lit_needed [of rs "[]"] by (auto split: prod.splits)
next
  case (Cons c s)
  then show ?case using rx_Lit_needed [of rs "c # s"] by (auto split: option.splits)
qed

text \<open>The class \<open>EndTestBlockValidity\<close> expects \<open>, block hash: \<close> where the node prints
  \<open> with hash \<close>: its \<open>from_log_row\<close> raises an \<open>AttributeError\<close> on every row that
  \<open>TestBlockValidity\<close> writes (unless the printed result has a comma of its own).\<close>

theorem end_test_rows_rejected:
  assumes "set ts \<subseteq> stamp_chars" and "list_all hex_char hsh" and "CHR '','' \<notin> set res"
  shows "from_log_row EndTestBlockValidity (log_line i ts (tested_msg r h hsh res)) = Inl AttributeError"
proof -
  have "CHR '','' \<notin> stamp_chars" unfolding stamp_chars_def by simp
  then have "CHR '','' \<notin> set (log_line i ts (tested_msg r h hsh res))"
    using assms by (auto simp: log_line_def tested_msg_def digit_not is_digit_def hex_not hex_char_def)
  moreover have "Lit '', block hash: '' \<in> set end_test_re" by (simp add: end_test_re_def)
  ultimately have "re_search end_test_re (log_line i ts (tested_msg r h hsh res)) = None"
    using re_search_Lit_needed [of end_test_re _ _ "'', block hash: ''"] by fastforce
  then show ?thesis by (simp add: EndTest_from_log_row_def groups_def)
qed

theorem end_test_rows_rejected_witness:
  "from_log_row EndTestBlockValidity (log_line 1 ''2023-May-16 10:11:12'' (tested_msg 0 7 ''ab'' ''null'')) =
     Inl AttributeError"
  using end_test_rows_rejected [of "''2023-May-16 10:11:12''" "''ab''" "''null''" 1 0 7]
  by (simp add: stamp_chars_def hex_char_def del: from_log_row.simps)

section \<open>What any parsed event looks like\<close>

text \<open>
  The class under which an event is filed determines its constructor, and the numbers read from
  a row are not negative, whatever the row is.
\<close>

fun class_matches :: "event_cls \<Rightarrow> log_event \<Rightarrow> bool" where
  "class_matches ReceiveRequestsLog e = is_ReceiveRequests e"
| "class_matches ReceiveBlockLog e = is_ReceiveBlock e"
| "class_matches StartTestBlockValidity e = is_StartTest e"
| "class_matches EndTestBlockValidity e = is_EndTest e"
| "class_matches StartSubmitBlock e = is_StartSubmit e"
| "class_matches EndSubmitBlock e = is_EndSubmit e"
| "class_matches cls e = is_ExecuteAction e"

definition event_wf :: "event_cls \<Rightarrow> log_event \<Rightarrow> bool" where
  "event_wf cls e \<longleftrightarrow> class_matches cls e \<and> 0 \<le> block_height e \<and> 0 \<le> replica_id e \<and>
     (is_StartSubmit e \<longrightarrow> 0 \<le> block_size e)"

lemma groups_classes:
  "groups re row = Inr gs \<Longrightarrow>
     list_all2 (\<lambda>(P, lo) x. list_all P x \<and> lo \<le> length x) (List.map_filter cap_class re) gs"
  by (auto simp: groups_def split: option.splits dest: re_search_captures)

lemma py_int_group: "list_all is_digit x \<Longrightarrow> Suc 0 \<le> length x \<Longrightarrow> py_int x = Inr (int (digits_val x))"
  by (cases "x = []") (auto simp: py_int_digits)

lemmas row_res = receive_request_re_def receive_block_re_def start_test_re_def end_test_re_def
  start_submit_re_def end_submit_re_def pbft_re_def row_header_def any_one_def

lemmas row_parsers = ReceiveRequests_from_log_row_def ReceiveBlock_from_log_row_def
  StartTest_from_log_row_def EndTest_from_log_row_def StartSubmit_from_log_row_def
  EndSubmit_from_log_row_def Pbft_from_log_row_def

lemma from_log_row_wf: "from_log_row cls row = Inr e \<Longrightarrow> event_wf cls e"
  by (cases cls)
    (auto simp: row_parsers rbind_eq_Inr event_wf_def dest!: groups_classes
      simp: row_res map_filter_simps list_all2_Cons1 py_int_group)

lemma parse_row_wf: "parse_row row = Inr (Some (cls, e)) \<Longrightarrow> event_wf cls e"
  by (auto simp: parse_row_def rbind_eq_Inr from_log_row_wf split: option.splits)

end
