(* ===== verification/Node_Log.thy ===== *)
theory Node_Log
  imports Log_Events
begin

text \<open>
  The log of one replica (\<open>NodeLog\<close> and \<open>TimeIntervals\<close> of \<open>logs.py\<close>): the one-pass parser of
  the raw text, the height at which the replica was killed, and the split of each block's time
  into the FBFT, ROAST and Bitcoin phases.
\<close>

section \<open>Time intervals\<close>

datatype interval_kind = FBFT | ROAST | BITCOIN

fun interval_value :: "interval_kind \<Rightarrow> string" where
  "interval_value FBFT = ''fbft''"
| "interval_value ROAST = ''roast''"
| "interval_value BITCOIN = ''bitcoin''"

record time_interval =
  start_time :: rat
  end_time :: rat
  interval_type :: interval_kind

definition interval_diff :: "time_interval \<Rightarrow> rat" where
  "interval_diff i = end_time i - start_time i"

text \<open>The constructor runs \<open>__post_init__\<close>, which rejects an empty interval.\<close>

definition TimeInterval_init :: "rat \<Rightarrow> rat \<Rightarrow> interval_kind \<Rightarrow> time_interval result" where
  "TimeInterval_init a b k =
     rbind (py_assert (a < b)) (\<lambda>_. Inr \<lparr>start_time = a, end_time = b, interval_type = k\<rparr>)"

type_synonym intervals = "(interval_kind, time_interval) dict"
type_synonym time_intervals = "(int, intervals) dict"

definition nb_heights :: "time_intervals \<Rightarrow> nat" where
  "nb_heights tis = length tis"

definition validate_keys :: "intervals \<Rightarrow> unit result" where
  "validate_keys d = py_assert (set (dict_keys d) = {FBFT, ROAST, BITCOIN})"

text \<open>
  The two loops of \<open>get_cumulative_time_by_interval_type\<close>: the durations of the heights whose
  FBFT phase starts late enough, then their sums by type. A \<open>defaultdict\<close> answers 0 for a type
  that was never written.
\<close>

definition height_diffs ::
  "rat \<Rightarrow> int \<times> intervals \<Rightarrow> (int, (interval_kind, rat) dict) dict \<Rightarrow>
   (int, (interval_kind, rat) dict) dict result" where
  "height_diffs not_before hi acc =
     rbind (validate_keys (snd hi)) (\<lambda>_.
     rbind (dict_index (snd hi) FBFT) (\<lambda>fbft.
     rbind (dict_index (snd hi) ROAST) (\<lambda>roast.
     rbind (dict_index (snd hi) BITCOIN) (\<lambda>submitblock.
       if start_time fbft < not_before then Inr acc
       else Inr (dict_set (fst hi)
         [(FBFT, interval_diff fbft), (ROAST, interval_diff roast),
          (BITCOIN, interval_diff submitblock)] acc)))))"

definition dget0 :: "(interval_kind, rat) dict \<Rightarrow> interval_kind \<Rightarrow> rat" where
  "dget0 d k = (case dict_get d k of None \<Rightarrow> 0 | Some v \<Rightarrow> v)"

definition add_diff ::
  "interval_kind \<times> rat \<Rightarrow> (interval_kind, rat) dict \<Rightarrow> (interval_kind, rat) dict" where
  "add_diff kd acc = dict_set (fst kd) (dget0 acc (fst kd) + snd kd) acc"

definition get_cumulative_time_by_interval_type ::
  "time_intervals \<Rightarrow> rat \<Rightarrow> (interval_kind, rat) dict result" where
  "get_cumulative_time_by_interval_type tis not_before =
     rbind (rfold (height_diffs not_before) tis []) (\<lambda>diffs_by_height.
       Inr (fold (\<lambda>hd. fold add_diff (snd hd)) diffs_by_height []))"

section \<open>Parsing the raw log\<close>

type_synonym events = "(event_cls, (int, log_event) dict) dict"

record node_log =
  raw_log :: string
  events_by_type_by_height :: events
  fault_height :: int
  node_config :: "(string \<times> string) list"

definition killed_error_re :: regex where
  "killed_error_re = [dot_star, Lit '' [ERROR] Killed replica R'', digits_cap,
     Lit '' at view V='', digits_cap]"

definition killed_info_re :: regex where
  "killed_info_re = [Lit ''[INFO] Killed replica R'', digits_cap, Lit '' at view V='', digits_cap]"

definition check_killed :: "string \<Rightarrow> unit result" where
  "check_killed raw = (if re_search killed_error_re raw \<noteq> None then Inl ParseError else Inr ())"

definition log_events_by_height :: "log_event list \<Rightarrow> (int, log_event) dict result" where
  "log_events_by_height es =
     rfold (\<lambda>e merged. if block_height e \<in> set (dict_keys merged) then Inl ValueError
        else Inr (dict_set (block_height e) e merged)) es []"

text \<open>\<open>events_by_type_by_height.setdefault(cls, {})[event.block_height] = event\<close>\<close>

definition events_of :: "events \<Rightarrow> event_cls \<Rightarrow> (int, log_event) dict" where
  "events_of ev cls = (case dict_get ev cls of None \<Rightarrow> [] | Some d \<Rightarrow> d)"

definition add_event :: "event_cls \<Rightarrow> log_event \<Rightarrow> events \<Rightarrow> events" where
  "add_event cls e ev = dict_set cls (dict_set (block_height e) e (events_of ev cls)) ev"

definition parse_logs_row :: "string \<Rightarrow> events \<Rightarrow> events result" where
  "parse_logs_row row ev =
     rbind (parse_row row) (\<lambda>p. case p of None \<Rightarrow> Inr ev | Some (cls, e) \<Rightarrow> Inr (add_event cls e ev))"

definition parse_logs :: "string \<Rightarrow> events result" where
  "parse_logs raw = rfold parse_logs_row (splitlines raw) []"

text \<open>Python's \<open>max\<close> and \<open>min\<close> of a collection raise a \<open>ValueError\<close> where it is empty.\<close>

definition py_max :: "'a::linorder list \<Rightarrow> 'a result" where
  "py_max xs = (if xs = [] then Inl ValueError else Inr (fold max (tl xs) (hd xs)))"

definition py_min :: "'a::linorder list \<Rightarrow> 'a result" where
  "py_min xs = (if xs = [] then Inl ValueError else Inr (fold min (tl xs) (hd xs)))"

definition parse_fault_height :: "string \<Rightarrow> (int, log_event) dict \<Rightarrow> int result" where
  "parse_fault_height raw executes =
     (if re_search killed_info_re raw \<noteq> None \<and> 0 < length (dict_keys executes)
      then py_max (dict_keys executes) else Inr 0)"

definition NodeLog_init :: "string \<Rightarrow> (string \<times> string) list \<Rightarrow> node_log result" where
  "NodeLog_init raw config =
     rbind (check_killed raw) (\<lambda>_.
     rbind (parse_logs raw) (\<lambda>ev.
     rbind (parse_fault_height raw (events_of ev ExecuteActionLog)) (\<lambda>fh.
       Inr \<lparr>raw_log = raw, events_by_type_by_height = ev, fault_height = fh,
            node_config = config\<rparr>)))"

definition requests_by_height :: "node_log \<Rightarrow> (int, log_event) dict result" where
  "requests_by_height nl = dict_index (events_by_type_by_height nl) ReceiveRequestsLog"

definition executes_by_height :: "node_log \<Rightarrow> (int, log_event) dict" where
  "executes_by_height nl = events_of (events_by_type_by_height nl) ExecuteActionLog"

definition nb_executes :: "node_log \<Rightarrow> nat" where
  "nb_executes nl = length (executes_by_height nl)"

definition is_primary :: "node_log \<Rightarrow> bool" where
  "is_primary nl = contains ''<EXECUTE, Request'' (raw_log nl)"

section \<open>Splitting the time of a block\<close>

definition interval_event_types :: "event_cls list" where
  "interval_event_types =
     [SendPrePrepareLog, RoastInitLog, ExecuteActionLog, StartSubmitBlock, EndSubmitBlock]"

fun zip5 :: "'a list \<Rightarrow> 'a list \<Rightarrow> 'a list \<Rightarrow> 'a list \<Rightarrow> 'a list \<Rightarrow> ('a \<times> 'a \<times> 'a \<times> 'a \<times> 'a) list" where
  "zip5 (a # as) (b # bs) (c # cs) (d # ds) (e # es) = (a, b, c, d, e) # zip5 as bs cs ds es"
| "zip5 _ _ _ _ _ = []"

fun block_intervals ::
  "log_event \<times> log_event \<times> log_event \<times> log_event \<times> log_event \<Rightarrow> time_intervals \<Rightarrow>
   time_intervals result" where
  "block_intervals (fbft, roast, execute, submit, submitted) res =
     rbind (py_assert (block_height fbft = block_height roast \<and> block_height roast = block_height execute \<and>
       block_height execute = block_height submit \<and> block_height submit = block_height submitted)) (\<lambda>_.
     rbind (py_assert (log_timestamp fbft \<le> log_timestamp roast \<and> log_timestamp roast \<le> log_timestamp execute \<and>
       log_timestamp execute \<le> log_timestamp submit \<and> log_timestamp submit \<le> log_timestamp submitted)) (\<lambda>_.
     rbind (TimeInterval_init (log_timestamp fbft) (log_timestamp roast) FBFT) (\<lambda>fbft_interval.
     rbind (TimeInterval_init (log_timestamp roast) (log_timestamp submit) ROAST) (\<lambda>roast_interval.
     rbind (TimeInterval_init (log_timestamp submit) (log_timestamp submitted) BITCOIN) (\<lambda>submit_interval.
       Inr (dict_set (block_height fbft)
         (dict_of (map (\<lambda>i. (interval_type i, i)) [fbft_interval, submit_interval, roast_interval]))
         res))))))"

definition parse_time_intervals :: "node_log \<Rightarrow> time_intervals option result" where
  "parse_time_intervals nl =
     (let ev = events_by_type_by_height nl;
          vals = (\<lambda>cls. dict_values (events_of ev cls))
      in if \<exists>cls \<in> set interval_event_types. dict_get ev cls = None then Inr None
         else rbind (rfold block_intervals
           (zip5 (vals SendPrePrepareLog) (vals RoastInitLog) (vals ExecuteActionLog)
             (vals StartSubmitBlock) (vals EndSubmitBlock)) []) (\<lambda>tis. Inr (Some tis)))"

section \<open>The parsed events\<close>

lemma events_of_add: "events_of (add_event cls e ev) cls' =
    (if cls' = cls then dict_set (block_height e) e (events_of ev cls) else events_of ev cls')"
  by (simp add: add_event_def events_of_def)

definition keyed :: "event_cls \<Rightarrow> (event_cls \<times> log_event) list \<Rightarrow> (int \<times> log_event) list" where
  "keyed cls ps = map (\<lambda>p. (block_height (snd p), snd p)) (filter (\<lambda>p. fst p = cls) ps)"

lemma events_of_fold:
  "events_of (fold (\<lambda>p. add_event (fst p) (snd p)) ps []) cls = dict_of (keyed cls ps)"
proof (induction ps rule: rev_induct)
  case Nil
  then show ?case by (simp add: events_of_def dict_of_def keyed_def)
next
  case (snoc p ps)
  then show ?case by (auto simp: events_of_add keyed_def dict_of_def)
qed

lemma dict_get_fold_add_event:
  "dict_get (fold (\<lambda>p. add_event (fst p) (snd p)) ps []) cls \<noteq> None \<longleftrightarrow> (\<exists>e. (cls, e) \<in> set ps)"
  by (induction ps rule: rev_induct) (auto simp: add_event_def)

lemma parse_logs_row_event:
  "parse_row row = Inr (Some p) \<Longrightarrow> parse_logs_row row ev = Inr (add_event (fst p) (snd p) ev)"
  by (cases p) (simp add: parse_logs_row_def)

section \<open>Logs as the node writes them\<close>

text \<open>A row is an event with its time, or any other single line in which no pattern occurs.\<close>

datatype log_row =
    Event nat int nat int int int int int node_event
  | Other string

fun row_text :: "log_row \<Rightarrow> string" where
  "row_text (Event i y m d h mi s us e) = log_line i (ptime_str y m d h mi s us) (event_message e)"
| "row_text (Other t) = t"

fun row_ok :: "log_row \<Rightarrow> bool" where
  "row_ok (Event i y m d h mi s us e) =
     (valid_date y m d \<and> valid_time h mi s us \<and> event_ok e)"
| "row_ok (Other t) =
     (list_all (\<lambda>c. \<not> is_linebreak c) t \<and> find_pattern patterns t = None)"

fun row_event :: "log_row \<Rightarrow> (event_cls \<times> log_event) option" where
  "row_event (Event i y m d h mi s us e) =
     Some (event_class e, event_parsed (rat_of_int (micros_since_epoch y m d h mi s us) / 1000000) e)"
| "row_event (Other t) = None"

definition log_text :: "log_row list \<Rightarrow> string" where
  "log_text rows = concat (map (\<lambda>r. row_text r @ [LF]) rows)"

definition row_events :: "log_row list \<Rightarrow> (event_cls \<times> log_event) list" where
  "row_events rows = List.map_filter row_event rows"

lemma no_linebreak_chars:
  "list_all (\<lambda>c. \<not> is_linebreak c) (nat_str n)"
  "list_all hex_char hsh \<Longrightarrow> list_all (\<lambda>c. \<not> is_linebreak c) hsh"
  "set ts \<subseteq> stamp_chars \<Longrightarrow> list_all (\<lambda>c. \<not> is_linebreak c) ts"
proof -
  have digits: "\<forall>c \<in> set ''0123456789''. \<not> is_linebreak c" by (simp add: is_linebreak_def)
  show "list_all (\<lambda>c. \<not> is_linebreak c) (nat_str n)"
    using nat_str_digits [of n] digits unfolding list_all_iff is_digit_def by blast
  have "\<forall>c \<in> set ''abcdef0123456789''. \<not> is_linebreak c" by (simp add: is_linebreak_def)
  then show "list_all hex_char hsh \<Longrightarrow> list_all (\<lambda>c. \<not> is_linebreak c) hsh"
    unfolding list_all_iff hex_char_def by blast
  have "\<forall>c \<in> stamp_chars. \<not> is_linebreak c" by (simp add: stamp_chars_def is_linebreak_def)
  then show "set ts \<subseteq> stamp_chars \<Longrightarrow> list_all (\<lambda>c. \<not> is_linebreak c) ts"
    unfolding list_all_iff by blast
qed

lemma action_name_one_line: "list_all (\<lambda>c. \<not> is_linebreak c) (ACTION_NAME cls)"
  by (cases cls) (simp_all add: ACTION_NAME_def is_linebreak_def)

lemma event_message_one_line: "event_ok e \<Longrightarrow> list_all (\<lambda>c. \<not> is_linebreak c) (event_message e)"
  by (cases e) (simp_all add: applying_msg_def identify_request_def identify_block_def identify_def
      submitting_msg_def submitted_msg_def no_linebreak_chars action_name_one_line,
      simp_all add: is_linebreak_def)

lemma row_text_one_line: "row_ok r \<Longrightarrow> list_all (\<lambda>c. \<not> is_linebreak c) (row_text r)"
proof (cases r)
  case (Event i y m d h mi s us e)
  assume "row_ok r"
  with Event ptime_str_chars [of y m d h mi s us] show ?thesis
    by (simp add: log_line_def no_linebreak_chars event_message_one_line)
      (simp add: is_linebreak_def)
qed simp

lemma parse_logs_row_row:
  "row_ok r \<Longrightarrow> parse_logs_row (row_text r) ev =
     Inr (case row_event r of None \<Rightarrow> ev | Some p \<Rightarrow> add_event (fst p) (snd p) ev)"
proof (cases r)
  case (Event i y m d h mi s us e)
  assume "row_ok r"
  with Event parse_row_event [of y m d h mi s us e i] show ?thesis
    by (simp add: parse_logs_row_def del: row_text.simps(2))
next
  case (Other t)
  assume "row_ok r"
  with Other show ?thesis by (simp add: parse_logs_row_def parse_row_def)
qed

lemma splitlines_log_text: "list_all row_ok rows \<Longrightarrow> splitlines (log_text rows) = map row_text rows"
proof (induction rows)
  case (Cons r rows)
  then show ?case using splitlines_line [OF row_text_one_line, of r "log_text rows"]
    by (simp add: log_text_def)
qed (simp add: log_text_def)

lemma rfold_rows:
  "list_all row_ok rows \<Longrightarrow> rfold parse_logs_row (map row_text rows) ev =
     Inr (fold (\<lambda>p. add_event (fst p) (snd p)) (row_events rows) ev)"
  by (induction rows arbitrary: ev)
    (auto simp: parse_logs_row_row row_events_def map_filter_simps split: option.split)

lemma parse_logs_rows:
  "list_all row_ok rows \<Longrightarrow> parse_logs (log_text rows) =
     Inr (fold (\<lambda>p. add_event (fst p) (snd p)) (row_events rows) [])"
  by (simp add: parse_logs_def splitlines_log_text rfold_rows)

lemma dict_keys_of: "dict_keys (dict_of ps) = rev (remdups (rev (map fst ps)))"
proof (induction ps rule: rev_induct)
  case (snoc p ps)
  have "dict_keys (dict_of (ps @ [p])) = dict_keys (dict_set (fst p) (snd p) (dict_of ps))"
    by (simp add: dict_of_def case_prod_beta)
  also have "\<dots> = (if fst p \<in> set (dict_keys (dict_of ps)) then dict_keys (dict_of ps)
      else dict_keys (dict_of ps) @ [fst p])"
    by (rule pd.keys_set) simp
  finally show ?case using snoc by simp
qed (simp add: dict_of_def dict_keys_def)

lemma fold_max_Max: "fold max xs (x::'a::linorder) = Max (insert x (set xs))"
  using Max.set_eq_fold [of x xs] by simp

lemma fold_min_Min: "fold min xs (x::'a::linorder) = Min (insert x (set xs))"
  using Min.set_eq_fold [of x xs] by simp

lemma py_max_Inr: "py_max xs = Inr m \<longleftrightarrow> xs \<noteq> [] \<and> m = Max (set xs)"
  by (cases xs) (auto simp: py_max_def fold_max_Max)

lemma py_min_Inr: "py_min xs = Inr m \<longleftrightarrow> xs \<noteq> [] \<and> m = Min (set xs)"
  by (cases xs) (auto simp: py_min_def fold_min_Min)

lemma parse_fault_height_eq:
  "parse_fault_height raw ex = Inr (if re_search killed_info_re raw \<noteq> None \<and> dict_keys ex \<noteq> []
     then Max (set (dict_keys ex)) else 0)"
  using py_max_Inr [of "dict_keys ex"] by (simp add: parse_fault_height_def)

text \<open>C36: The one-pass parser is correct on whole logs: on a text made of rows that a replica
  writes and of other lines in which no pattern occurs, the parser raises only the
  \<open>ParseError\<close> of a replica killed by mistake. Otherwise, for every class and height it holds
  exactly the last event written for them, the heights of a class come in the order of their first
  row, and the fault height is the largest executed height if the log says that the replica was
  killed on purpose, and 0 otherwise.\<close>

theorem node_log_parsed:
  assumes "list_all row_ok rows"
  shows "\<exists>nl. NodeLog_init (log_text rows) cfg =
       (if re_search killed_error_re (log_text rows) \<noteq> None then Inl ParseError else Inr nl) \<and>
     (\<forall>cls h. dict_get (events_of (events_by_type_by_height nl) cls) h =
        map_of (rev (keyed cls (row_events rows))) h) \<and>
     (\<forall>cls. dict_keys (events_of (events_by_type_by_height nl) cls) =
        rev (remdups (rev (map fst (keyed cls (row_events rows)))))) \<and>
     fault_height nl =
       (if re_search killed_info_re (log_text rows) \<noteq> None \<and> executes_by_height nl \<noteq> []
        then Max (set (dict_keys (executes_by_height nl))) else 0)"
proof -
  let ?ev = "fold (\<lambda>p. add_event (fst p) (snd p)) (row_events rows) []"
  let ?fh = "if re_search killed_info_re (log_text rows) \<noteq> None \<and>
      dict_keys (events_of ?ev ExecuteActionLog) \<noteq> []
    then Max (set (dict_keys (events_of ?ev ExecuteActionLog))) else 0"
  let ?nl = "\<lparr>raw_log = log_text rows, events_by_type_by_height = ?ev, fault_height = ?fh,
     node_config = cfg\<rparr>"
  have "NodeLog_init (log_text rows) cfg =
      (if re_search killed_error_re (log_text rows) \<noteq> None then Inl ParseError else Inr ?nl)"
    by (simp add: NodeLog_init_def check_killed_def parse_logs_rows [OF assms]
        parse_fault_height_eq del: re_search.simps)
  moreover have "dict_get (events_of ?ev cls) h = map_of (rev (keyed cls (row_events rows))) h"
    for cls h
    by (simp add: events_of_fold dict_get_of)
  moreover have "dict_keys (events_of ?ev cls) = rev (remdups (rev (map fst (keyed cls (row_events rows)))))"
    for cls
    by (simp add: events_of_fold dict_keys_of)
  moreover have "fault_height ?nl =
      (if re_search killed_info_re (log_text rows) \<noteq> None \<and> executes_by_height ?nl \<noteq> []
       then Max (set (dict_keys (executes_by_height ?nl))) else 0)"
    by (simp add: executes_by_height_def dict_keys_def del: re_search.simps)
  ultimately show ?thesis by (intro exI [of _ ?nl] conjI allI) (simp_all del: re_search.simps)
qed

definition example_rows :: "log_row list" where
  "example_rows =
     [Other ''starting'',
      Event 1 2023 5 16 10 11 12 250000 (NReceiveRequest 1684231872 7 0),
      Event 2 2023 5 16 10 11 13 0 (NPbft ExecuteActionLog 7 1684231872 0 7 0)]"

theorem node_log_parsed_witness:
  "list_all row_ok example_rows \<and>
   (\<exists>nl. dict_get (events_of (events_by_type_by_height nl) ExecuteActionLog) 7 =
      map_of (rev (keyed ExecuteActionLog (row_events example_rows))) 7 \<and>
      NodeLog_init (log_text example_rows) [] =
        (if re_search killed_error_re (log_text example_rows) \<noteq> None then Inl ParseError else Inr nl))"
proof -
  have ok: "list_all row_ok example_rows"
    by (simp add: example_rows_def valid_date_def valid_time_def days_in_month_def is_leap_def
        is_linebreak_def patterns_def)
  from node_log_parsed [OF ok, of "[]"] ok show ?thesis by blast
qed

section \<open>The phases of a block\<close>

text \<open>The dictionary built for one block, from its four instants.\<close>

definition phases :: "rat \<Rightarrow> rat \<Rightarrow> rat \<Rightarrow> rat \<Rightarrow> intervals" where
  "phases t0 t1 t2 t3 =
     [(FBFT, \<lparr>start_time = t0, end_time = t1, interval_type = FBFT\<rparr>),
      (BITCOIN, \<lparr>start_time = t2, end_time = t3, interval_type = BITCOIN\<rparr>),
      (ROAST, \<lparr>start_time = t1, end_time = t2, interval_type = ROAST\<rparr>)]"

lemma block_intervals_Inr:
  "block_intervals (a, b, c, s, e) res = Inr res' \<longleftrightarrow>
     block_height b = block_height a \<and> block_height c = block_height a \<and>
     block_height s = block_height a \<and> block_height e = block_height a \<and>
     log_timestamp a < log_timestamp b \<and> log_timestamp b \<le> log_timestamp c \<and>
     log_timestamp c \<le> log_timestamp s \<and> log_timestamp b < log_timestamp s \<and>
     log_timestamp s < log_timestamp e \<and>
     res' = dict_set (block_height a)
       (phases (log_timestamp a) (log_timestamp b) (log_timestamp s) (log_timestamp e)) res"
  by (auto simp: rbind_eq_Inr TimeInterval_init_def dict_of_def dict_set_def phases_def)

declare block_intervals.simps [simp del]

lemma zip5_in:
  "(a, b, c, d, e) \<in> set (zip5 as bs cs ds es) \<Longrightarrow>
     a \<in> set as \<and> b \<in> set bs \<and> c \<in> set cs \<and> d \<in> set ds \<and> e \<in> set es"
  by (induction as bs cs ds es rule: zip5.induct) auto

definition phase_events :: "node_log \<Rightarrow> event_cls \<Rightarrow> log_event set" where
  "phase_events nl cls = set (dict_values (events_of (events_by_type_by_height nl) cls))"

definition height_phases :: "node_log \<Rightarrow> int \<Rightarrow> intervals \<Rightarrow> bool" where
  "height_phases nl h d \<longleftrightarrow>
     (\<exists>a \<in> phase_events nl SendPrePrepareLog. \<exists>b \<in> phase_events nl RoastInitLog.
      \<exists>c \<in> phase_events nl ExecuteActionLog. \<exists>s \<in> phase_events nl StartSubmitBlock.
      \<exists>e \<in> phase_events nl EndSubmitBlock.
        (\<forall>x \<in> {a, b, c, s, e}. block_height x = h) \<and>
        log_timestamp a < log_timestamp b \<and> log_timestamp b \<le> log_timestamp c \<and>
        log_timestamp c \<le> log_timestamp s \<and> log_timestamp b < log_timestamp s \<and>
        log_timestamp s < log_timestamp e \<and>
        d = phases (log_timestamp a) (log_timestamp b) (log_timestamp s) (log_timestamp e))"

lemma parse_time_intervals_inv:
  assumes "parse_time_intervals nl = Inr (Some tis)"
  shows "dict_ok tis \<and> (\<forall>h d. dict_get tis h = Some d \<longrightarrow> height_phases nl h d)"
proof -
  let ?vals = "\<lambda>cls. dict_values (events_of (events_by_type_by_height nl) cls)"
  let ?z = "zip5 (?vals SendPrePrepareLog) (?vals RoastInitLog) (?vals ExecuteActionLog)
      (?vals StartSubmitBlock) (?vals EndSubmitBlock)"
  have "rfold block_intervals ?z [] = Inr tis"
    using assms by (auto simp: parse_time_intervals_def Let_def rbind_eq_Inr split: if_splits)
  then show ?thesis
  proof (rule rfold_invariant)
    fix x :: "log_event \<times> log_event \<times> log_event \<times> log_event \<times> log_event" and s s'
    assume x: "x \<in> set ?z" and step: "block_intervals x s = Inr s'"
      and I: "dict_ok s \<and> (\<forall>h d. dict_get s h = Some d \<longrightarrow> height_phases nl h d)"
    obtain a b c u e where [simp]: "x = (a, b, c, u, e)" by (cases x) auto
    have ev: "a \<in> phase_events nl SendPrePrepareLog" "b \<in> phase_events nl RoastInitLog"
      "c \<in> phase_events nl ExecuteActionLog" "u \<in> phase_events nl StartSubmitBlock"
      "e \<in> phase_events nl EndSubmitBlock"
      using zip5_in [of a b c u e] x by (auto simp: phase_events_def)
    have hp: "height_phases nl (block_height a)
        (phases (log_timestamp a) (log_timestamp b) (log_timestamp u) (log_timestamp e))"
      unfolding height_phases_def using step ev
      by (intro bexI [of _ a] bexI [of _ b] bexI [of _ c] bexI [of _ u] bexI [of _ e])
        (auto simp: block_intervals_Inr)
    from step I hp show "dict_ok s' \<and> (\<forall>h d. dict_get s' h = Some d \<longrightarrow> height_phases nl h d)"
      by (auto simp: block_intervals_Inr pd.ok_set)
  qed simp
qed

lemma height_phases_phases:
  "height_phases nl h d \<Longrightarrow> \<exists>t0 t1 t2 t3. t0 < t1 \<and> t1 < t2 \<and> t2 < t3 \<and> d = phases t0 t1 t2 t3"
  unfolding height_phases_def by blast

text \<open>The instants of a block's dictionary.\<close>

definition phase_of :: "intervals \<Rightarrow> interval_kind \<Rightarrow> time_interval" where
  "phase_of d k = the (dict_get d k)"

lemma phase_of_phases [simp]:
  "phase_of (phases t0 t1 t2 t3) FBFT = \<lparr>start_time = t0, end_time = t1, interval_type = FBFT\<rparr>"
  "phase_of (phases t0 t1 t2 t3) ROAST = \<lparr>start_time = t1, end_time = t2, interval_type = ROAST\<rparr>"
  "phase_of (phases t0 t1 t2 t3) BITCOIN = \<lparr>start_time = t2, end_time = t3, interval_type = BITCOIN\<rparr>"
  by (simp_all add: phase_of_def phases_def)

text \<open>C38: The time of a block is split without gap or overlap. In every result of
  \<open>parse_time_intervals\<close>, each height has exactly the three phases; they come from one
  pre-prepare, signature, execution, submission and end-of-submission event of that same height;
  FBFT ends where ROAST starts and ROAST where Bitcoin starts, no phase is empty, and the three
  durations add up to the time from the pre-prepare to the end of the submission.\<close>

theorem time_intervals_partition:
  assumes "parse_time_intervals nl = Inr (Some tis)" and "dict_get tis h = Some d"
  shows "set (dict_keys d) = {FBFT, ROAST, BITCOIN} \<and>
     (\<exists>a \<in> phase_events nl SendPrePrepareLog. \<exists>e \<in> phase_events nl EndSubmitBlock.
        block_height a = h \<and> block_height e = h \<and>
        start_time (phase_of d FBFT) = log_timestamp a \<and> end_time (phase_of d BITCOIN) = log_timestamp e \<and>
        interval_diff (phase_of d FBFT) + interval_diff (phase_of d ROAST) +
          interval_diff (phase_of d BITCOIN) = log_timestamp e - log_timestamp a) \<and>
     (\<exists>b \<in> phase_events nl RoastInitLog. block_height b = h \<and>
        end_time (phase_of d FBFT) = log_timestamp b \<and> start_time (phase_of d ROAST) = log_timestamp b) \<and>
     (\<exists>s \<in> phase_events nl StartSubmitBlock. block_height s = h \<and>
        end_time (phase_of d ROAST) = log_timestamp s \<and> start_time (phase_of d BITCOIN) = log_timestamp s) \<and>
     (\<forall>k. 0 < interval_diff (phase_of d k))"
proof -
  from parse_time_intervals_inv [OF assms(1)] assms(2) have "height_phases nl h d" by blast
  then obtain a b c s e where ev: "a \<in> phase_events nl SendPrePrepareLog" "b \<in> phase_events nl RoastInitLog"
      "s \<in> phase_events nl StartSubmitBlock" "e \<in> phase_events nl EndSubmitBlock"
    and hs: "block_height a = h" "block_height b = h" "block_height s = h" "block_height e = h"
    and ts: "log_timestamp a < log_timestamp b" "log_timestamp b < log_timestamp s"
      "log_timestamp s < log_timestamp e"
    and d: "d = phases (log_timestamp a) (log_timestamp b) (log_timestamp s) (log_timestamp e)"
    unfolding height_phases_def by auto
  have "set (dict_keys d) = {FBFT, ROAST, BITCOIN}" unfolding d by (auto simp: dict_keys_def phases_def)
  moreover have "0 < interval_diff (phase_of d k)" for k
    using ts by (cases k) (simp_all add: d interval_diff_def)
  ultimately show ?thesis using ev hs by (auto simp: d interval_diff_def)
qed

definition example_log :: node_log where
  "example_log =
     \<lparr>raw_log = [],
      events_by_type_by_height =
        [(SendPrePrepareLog, [(7, ExecuteAction 1 0 1 7 0 7)]),
         (RoastInitLog, [(7, ExecuteAction 2 0 1 7 0 7)]),
         (ExecuteActionLog, [(7, ExecuteAction 4 0 1 7 0 7)]),
         (StartSubmitBlock, [(7, StartSubmit 4 0 7 250 ''ab'')]),
         (EndSubmitBlock, [(7, EndSubmit 6 0 7 ''ab'' ''null'')])],
      fault_height = 0, node_config = []\<rparr>"

lemma example_log_intervals: "parse_time_intervals example_log = Inr (Some [(7, phases 1 2 4 6)])"
  by (simp add: parse_time_intervals_def example_log_def interval_event_types_def events_of_def
      dict_values_def block_intervals.simps TimeInterval_init_def dict_of_def dict_set_def phases_def)

theorem time_intervals_partition_witness:
  "parse_time_intervals example_log = Inr (Some [(7, phases 1 2 4 6)]) \<and>
   set (dict_keys (phases 1 2 4 6)) = {FBFT, ROAST, BITCOIN}"
  using time_intervals_partition [OF example_log_intervals, of 7 "phases 1 2 4 6"]
  by (simp add: example_log_intervals)

section \<open>Cumulated times\<close>

lemma dget0_fold_add:
  "dget0 (fold add_diff l acc) k = dget0 acc k + sum_list (map snd (filter (\<lambda>p. fst p = k) l))"
  by (induction l arbitrary: acc) (auto simp: add_diff_def dget0_def)

lemma dget0_fold_fold_add:
  "dget0 (fold (\<lambda>hd. fold add_diff (snd hd)) ds acc) k =
     dget0 acc k + sum_list (map (\<lambda>hd. sum_list (map snd (filter (\<lambda>p. fst p = k) (snd hd)))) ds)"
  by (induction ds arbitrary: acc) (auto simp: dget0_fold_add)

definition diffs_of :: "intervals \<Rightarrow> (interval_kind, rat) dict" where
  "diffs_of d = map (\<lambda>k. (k, interval_diff (phase_of d k))) [FBFT, ROAST, BITCOIN]"

lemma height_diffs_phases:
  assumes "snd hi = phases t0 t1 t2 t3"
  shows "height_diffs nb hi acc = Inr (if start_time (phase_of (snd hi) FBFT) < nb then acc
     else dict_set (fst hi) (diffs_of (snd hi)) acc)"
proof -
  have "validate_keys (phases t0 t1 t2 t3) = Inr ()"
    by (auto simp: validate_keys_def dict_keys_def phases_def)
  moreover have "dict_index (phases t0 t1 t2 t3) k = Inr (phase_of (phases t0 t1 t2 t3) k)" for k
    by (cases k) (simp_all add: phase_of_def, simp_all add: phases_def)
  ultimately show ?thesis
    by (simp add: height_diffs_def assms diffs_of_def del: dict_index_Inr_iff)
qed

abbreviation late :: "rat \<Rightarrow> int \<times> intervals \<Rightarrow> bool" where
  "late nb hi \<equiv> nb \<le> start_time (phase_of (snd hi) FBFT)"

lemma fold_filter: "fold (\<lambda>x. if P x then f x else id) xs s = fold f (filter P xs) s"
  by (induction xs arbitrary: s) auto

lemma height_diffs_all:
  assumes "dict_ok tis" and "\<And>h d. (h, d) \<in> set tis \<Longrightarrow> \<exists>t0 t1 t2 t3. d = phases t0 t1 t2 t3"
  shows "rfold (height_diffs nb) tis [] = Inr (map (\<lambda>hi. (fst hi, diffs_of (snd hi))) (filter (late nb) tis))"
proof -
  let ?g = "\<lambda>hi. if late nb hi then dict_set (fst hi) (diffs_of (snd hi)) else id"
  let ?ps = "map (\<lambda>hi. (fst hi, diffs_of (snd hi))) (filter (late nb) tis)"
  have "height_diffs nb hi acc = Inr (?g hi acc)" if hi: "hi \<in> set tis" for hi acc
  proof -
    obtain t0 t1 t2 t3 where "snd hi = phases t0 t1 t2 t3"
      using assms(2) [of "fst hi" "snd hi"] hi by auto
    from height_diffs_phases [OF this] show ?thesis by auto
  qed
  then have "rfold (height_diffs nb) tis [] = Inr (fold ?g tis [])" by (rule rfold_pure)
  also have "fold ?g tis [] = dict_of ?ps"
    by (simp add: fold_filter dict_of_def fold_map comp_def case_prod_beta)
  also have "dict_of ?ps = ?ps"
    using assms(1) by (intro dict_of_distinct) (simp add: dict_ok_def comp_def distinct_map_filter)
  finally show ?thesis .
qed

text \<open>The cumulated times are complete. For every result of \<open>parse_time_intervals\<close> the
  accumulation succeeds, and the times it reports for FBFT, ROAST and Bitcoin add up to the sum,
  over the heights whose FBFT phase starts no earlier than the given time, of the whole span from
  the pre-prepare to the end of the block submission.\<close>

theorem cumulative_times_complete:
  assumes "parse_time_intervals nl = Inr (Some tis)"
  shows "\<exists>sm. get_cumulative_time_by_interval_type tis nb = Inr sm \<and>
     (\<forall>k. dget0 sm k = sum_list (map (\<lambda>hi. interval_diff (phase_of (snd hi) k)) (filter (late nb) tis))) \<and>
     dget0 sm FBFT + dget0 sm ROAST + dget0 sm BITCOIN =
       sum_list (map (\<lambda>hi. end_time (phase_of (snd hi) BITCOIN) - start_time (phase_of (snd hi) FBFT))
         (filter (late nb) tis))"
proof -
  from parse_time_intervals_inv [OF assms] have ok: "dict_ok tis"
    and hp: "\<And>h d. (h, d) \<in> set tis \<Longrightarrow> height_phases nl h d"
    by (auto dest: dict_ok_get)
  have ph: "\<exists>t0 t1 t2 t3. d = phases t0 t1 t2 t3" if "(h, d) \<in> set tis" for h d
    using height_phases_phases [OF hp [OF that]] by blast
  let ?ds = "map (\<lambda>hi. (fst hi, diffs_of (snd hi))) (filter (late nb) tis)"
  let ?sm = "fold (\<lambda>hd. fold add_diff (snd hd)) ?ds []"
  have run: "get_cumulative_time_by_interval_type tis nb = Inr ?sm"
    by (simp add: get_cumulative_time_by_interval_type_def height_diffs_all [OF ok ph])
  have each: "dget0 ?sm k = sum_list (map (\<lambda>hi. interval_diff (phase_of (snd hi) k)) (filter (late nb) tis))" for k
    unfolding dget0_fold_fold_add
    by (cases k) (simp_all add: dget0_def comp_def diffs_of_def)
  have "interval_diff (phase_of (snd hi) FBFT) + interval_diff (phase_of (snd hi) ROAST) +
      interval_diff (phase_of (snd hi) BITCOIN) =
      end_time (phase_of (snd hi) BITCOIN) - start_time (phase_of (snd hi) FBFT)" if hi: "hi \<in> set tis" for hi
  proof -
    obtain t0 t1 t2 t3 where "snd hi = phases t0 t1 t2 t3" using ph [of "fst hi" "snd hi"] hi by auto
    then show ?thesis by (simp add: interval_diff_def)
  qed
  then have "dget0 ?sm FBFT + dget0 ?sm ROAST + dget0 ?sm BITCOIN =
      sum_list (map (\<lambda>hi. end_time (phase_of (snd hi) BITCOIN) - start_time (phase_of (snd hi) FBFT))
        (filter (late nb) tis))"
    unfolding each sum_list_addf [symmetric] by (intro arg_cong [of _ _ sum_list] map_cong) auto
  with run each show ?thesis by blast
qed

theorem cumulative_times_complete_witness:
  "\<exists>sm. get_cumulative_time_by_interval_type [(7, phases 1 2 4 6)] 0 = Inr sm \<and>
     dget0 sm FBFT + dget0 sm ROAST + dget0 sm BITCOIN = 5"
  using cumulative_times_complete [OF example_log_intervals, of 0] by auto

section \<open>The invariant of a parsed log\<close>

definition events_wf :: "events \<Rightarrow> bool" where
  "events_wf ev \<longleftrightarrow> dict_ok ev \<and> (\<forall>cls. dict_ok (events_of ev cls) \<and>
     (\<forall>h e. dict_get (events_of ev cls) h = Some e \<longrightarrow> block_height e = h \<and> event_wf cls e))"

lemma events_wf_Nil: "events_wf []"
  by (simp add: events_wf_def events_of_def)

lemma events_wf_add: "events_wf ev \<Longrightarrow> event_wf cls e \<Longrightarrow> events_wf (add_event cls e ev)"
  unfolding events_wf_def events_of_add
  by (auto simp: add_event_def pd.ok_set split: if_splits)

lemma parse_logs_wf: "parse_logs raw = Inr ev \<Longrightarrow> events_wf ev"
  unfolding parse_logs_def
proof (erule rfold_invariant)
  show "events_wf s'" if "events_wf s" and "parse_logs_row x s = Inr s'" for x s s'
    using that
    by (auto simp: parse_logs_row_def rbind_eq_Inr split: option.splits prod.splits
        intro!: events_wf_add parse_row_wf)
qed (rule events_wf_Nil)

text \<open>C37: Whatever text is parsed, the resulting log is well formed: the dictionaries have no
  repeated keys, every event is stored under its own height and under a class that fits its kind
  (the three consensus classes hold \<open>ExecuteActionLog\<close> objects), heights, replica numbers and block
  sizes are not negative, and the fault height is 0 or the height of an executed block.\<close>

theorem node_log_well_formed:
  assumes "NodeLog_init raw cfg = Inr nl"
  shows "events_wf (events_by_type_by_height nl) \<and> raw_log nl = raw \<and>
     (fault_height nl = 0 \<or> (\<exists>e. dict_get (executes_by_height nl) (fault_height nl) = Some e))"
proof -
  from assms obtain ev where ev: "parse_logs raw = Inr ev"
    and nl: "raw_log nl = raw" "events_by_type_by_height nl = ev"
    and fh: "parse_fault_height raw (events_of ev ExecuteActionLog) = Inr (fault_height nl)"
    by (auto simp: NodeLog_init_def rbind_eq_Inr)
  have "fault_height nl = 0 \<or> fault_height nl \<in> set (dict_keys (executes_by_height nl))"
  proof (cases "re_search killed_info_re raw \<noteq> None \<and> dict_keys (executes_by_height nl) \<noteq> []")
    case True
    with fh have fh': "fault_height nl = Max (set (dict_keys (executes_by_height nl)))"
      unfolding parse_fault_height_eq executes_by_height_def nl by auto
    show ?thesis unfolding fh' using True by (intro disjI2 Max_in) auto
  qed (use fh in \<open>auto simp: parse_fault_height_eq executes_by_height_def nl split: if_splits\<close>)
  then have "fault_height nl = 0 \<or> dict_get (executes_by_height nl) (fault_height nl) \<noteq> None"
    unfolding dict_get_None_iff by blast
  then show ?thesis using parse_logs_wf [OF ev] nl by auto
qed

theorem node_log_well_formed_witness:
  "\<exists>nl. NodeLog_init ''node started'' [] = Inr nl \<and> events_wf (events_by_type_by_height nl)"
proof -
  have "NodeLog_init ''node started'' [] = Inr \<lparr>raw_log = ''node started'',
      events_by_type_by_height = [], fault_height = 0, node_config = []\<rparr>" (is "_ = Inr ?nl")
    by code_simp
  from node_log_well_formed [OF this] this show ?thesis by blast
qed

end
