(* ===== verification/Node_Logs.thy ===== *)
theory Node_Logs
  imports Node_Log
begin

text \<open>
  The logs of all replicas of a run (\<open>NodeLogs\<close> of \<open>logs.py\<close>): the primary, the start and the
  end of the run, the earliest event of each height across replicas, and the fault height.
\<close>

definition primaries :: "node_log list \<Rightarrow> nat list" where
  "primaries logs = filter (\<lambda>i. is_primary (logs ! i)) [0..<length logs]"

definition no_view_change :: "node_log list \<Rightarrow> bool result" where
  "no_view_change logs =
     rbind (py_assert (0 < length (primaries logs))) (\<lambda>_. Inr (length (primaries logs) = 1))"

definition primary_logs :: "node_log list \<Rightarrow> node_log option result" where
  "primary_logs logs =
     rbind (no_view_change logs) (\<lambda>nvc.
       Inr (if nvc then Some (logs ! (primaries logs ! 0)) else None))"

definition run_start :: "node_log list \<Rightarrow> rat result" where
  "run_start logs =
     rbind (rmap requests_by_height logs) (\<lambda>ds. py_min (map log_timestamp (concat (map dict_values ds))))"

definition run_end :: "node_log list \<Rightarrow> rat result" where
  "run_end logs = py_max (map log_timestamp (concat (map (dict_values \<circ> executes_by_height) logs)))"

section \<open>The earliest event of each height\<close>

text \<open>The time that is compared with the end of the warm-up.\<close>

definition event_time :: "log_event \<Rightarrow> rat" where
  "event_time e = (if is_ReceiveRequests e then true_request_time e else log_timestamp e)"

type_synonym earliest_state = "(int, log_event) dict \<times> int set"

definition earliest_step :: "rat \<Rightarrow> int \<times> log_event \<Rightarrow> earliest_state \<Rightarrow> earliest_state" where
  "earliest_step not_before he st =
     (let height = fst he; e = snd he;
          (res, banned) =
            (if event_time e < not_before
             then (if height \<in> set (dict_keys (fst st)) then dict_pop height (fst st) else fst st,
                   insert height (snd st))
             else st)
      in if not_before \<le> event_time e \<and> height \<notin> banned \<and>
            (case dict_get res height of None \<Rightarrow> True | Some r \<Rightarrow> log_timestamp e < log_timestamp r)
         then (dict_set height e res, banned) else (res, banned))"

definition get_earliest_log_event_by_height ::
  "node_log list \<Rightarrow> event_cls \<Rightarrow> rat \<Rightarrow> (int, log_event) dict" where
  "get_earliest_log_event_by_height logs cls not_before =
     fst (fold (\<lambda>nl. fold (earliest_step not_before) (events_of (events_by_type_by_height nl) cls))
       logs ([], {}))"

definition get_earliest_requests_by_height :: "node_log list \<Rightarrow> rat \<Rightarrow> (int, log_event) dict" where
  "get_earliest_requests_by_height logs = get_earliest_log_event_by_height logs ReceiveRequestsLog"

definition get_earliest_executes_by_height :: "node_log list \<Rightarrow> rat \<Rightarrow> (int, log_event) dict" where
  "get_earliest_executes_by_height logs = get_earliest_log_event_by_height logs ExecuteActionLog"

definition get_earliest_preprepare_by_height :: "node_log list \<Rightarrow> rat \<Rightarrow> (int, log_event) dict" where
  "get_earliest_preprepare_by_height logs = get_earliest_log_event_by_height logs SendPrePrepareLog"

definition get_earliest_start_submit_block_by_height ::
  "node_log list \<Rightarrow> rat \<Rightarrow> (int, log_event) dict" where
  "get_earliest_start_submit_block_by_height logs =
     get_earliest_log_event_by_height logs StartSubmitBlock"

definition get_fault_height :: "node_log list \<Rightarrow> int result" where
  "get_fault_height logs =
     (let res = map fault_height logs
      in rbind (py_assert (\<forall>x \<in> set res. x = res ! 0 \<or> x = 0)) (\<lambda>_.
         if res = [] then Inl IndexError else Inr (res ! 0)))"

section \<open>Correctness of the aggregation\<close>

text \<open>All events of a class, replica by replica, and those of one height.\<close>

definition all_events :: "node_log list \<Rightarrow> event_cls \<Rightarrow> (int \<times> log_event) list" where
  "all_events logs cls = concat (map (\<lambda>nl. events_of (events_by_type_by_height nl) cls) logs)"

definition at_height :: "int \<Rightarrow> (int \<times> log_event) list \<Rightarrow> log_event list" where
  "at_height h es = map snd (filter (\<lambda>p. fst p = h) es)"

text \<open>
  The specification: nothing for a height with an event that is too early; otherwise the first
  event whose log time is minimal.
\<close>

definition earliest_spec :: "rat \<Rightarrow> log_event list \<Rightarrow> log_event option" where
  "earliest_spec nb es =
     (if es = [] \<or> (\<exists>e \<in> set es. event_time e < nb) then None
      else Some (arg_min_list log_timestamp es))"

lemma arg_min_list_snoc:
  "xs \<noteq> [] \<Longrightarrow> arg_min_list f (xs @ [x]) =
     (if f x < (f (arg_min_list f xs) :: 'b::linorder) then x else arg_min_list f xs)"
proof (induction f xs rule: arg_min_list.induct)
  case (2 f y z zs)
  then show ?case by (auto simp: Let_def not_le not_less)
qed auto

lemma at_height_snoc: "at_height h (es @ [(k, e)]) = at_height h es @ (if h = k then [e] else [])"
  by (simp add: at_height_def)

definition earliest_inv :: "rat \<Rightarrow> (int \<times> log_event) list \<Rightarrow> earliest_state \<Rightarrow> bool" where
  "earliest_inv nb es st \<longleftrightarrow> dict_ok (fst st) \<and>
     (\<forall>h. h \<in> snd st \<longleftrightarrow> (\<exists>e \<in> set (at_height h es). event_time e < nb)) \<and>
     (\<forall>h. dict_get (fst st) h = earliest_spec nb (at_height h es))"

lemma earliest_step_early:
  assumes inv: "earliest_inv nb es (res, ban)" and early: "event_time e < nb"
  shows "earliest_inv nb (es @ [(k, e)]) (earliest_step nb (k, e) (res, ban))"
proof -
  obtain res' where step: "earliest_step nb (k, e) (res, ban) = (res', insert k ban)"
    and res': "res' = (if k \<in> set (dict_keys res) then dict_pop k res else res)"
    using early by (simp add: earliest_step_def Let_def)
  have "dict_get res' = (dict_get res)(k := None)"
    using dict_get_None_iff [of res k] by (auto simp: res')
  moreover have "dict_ok res'" using inv by (simp add: res' earliest_inv_def pd.ok_pop)
  moreover have "earliest_spec nb (at_height k es @ [e]) = None"
    using early by (simp add: earliest_spec_def)
  ultimately show ?thesis using inv early
    by (auto simp: step earliest_inv_def at_height_snoc)
qed

lemma earliest_step_late:
  assumes inv: "earliest_inv nb es (res, ban)" and late: "\<not> event_time e < nb"
  shows "earliest_inv nb (es @ [(k, e)]) (earliest_step nb (k, e) (res, ban))"
proof -
  let ?take = "k \<notin> ban \<and>
      (case dict_get res k of None \<Rightarrow> True | Some r \<Rightarrow> log_timestamp e < log_timestamp r)"
  obtain res' where step: "earliest_step nb (k, e) (res, ban) = (res', ban)"
    and res': "res' = (if ?take then dict_set k e res else res)"
    using late by (simp add: earliest_step_def Let_def)
  have ban: "k \<in> ban \<longleftrightarrow> (\<exists>e \<in> set (at_height k es). event_time e < nb)"
    and get: "dict_get res k = earliest_spec nb (at_height k es)"
    using inv by (simp_all add: earliest_inv_def)
  have "dict_get res' k = earliest_spec nb (at_height k es @ [e])"
    unfolding res' using late by (cases "k \<in> ban")
      (simp_all add: ban get earliest_spec_def arg_min_list_snoc)
  then have "dict_get res' = (dict_get res)(k := earliest_spec nb (at_height k es @ [e]))"
    by (auto simp: res' fun_eq_iff)
  moreover have "dict_ok res'" using inv by (simp add: res' earliest_inv_def pd.ok_set)
  ultimately show ?thesis using inv late
    by (auto simp: step earliest_inv_def at_height_snoc)
qed

lemma fold_earliest_inv: "earliest_inv nb es (fold (earliest_step nb) es ([], {}))"
proof (induction es rule: rev_induct)
  case Nil
  then show ?case by (simp add: earliest_inv_def at_height_def earliest_spec_def)
next
  case (snoc p es)
  obtain k e where p: "p = (k, e)" by (cases p)
  obtain res ban where st: "fold (earliest_step nb) es ([], {}) = (res, ban)" by fastforce
  with snoc earliest_step_early earliest_step_late show ?case
    by (cases "event_time e < nb") (simp_all add: p st)
qed

lemma earliest_fold_concat:
  "fold (\<lambda>nl. fold f (g nl)) logs st = fold f (concat (map g logs)) st"
  by (induction logs arbitrary: st) auto

lemma get_earliest_eq:
  "dict_ok (get_earliest_log_event_by_height logs cls nb)"
  "dict_get (get_earliest_log_event_by_height logs cls nb) h =
     earliest_spec nb (at_height h (all_events logs cls))"
  using fold_earliest_inv [of nb "all_events logs cls"]
  unfolding get_earliest_log_event_by_height_def earliest_fold_concat all_events_def
  by (auto simp: earliest_inv_def)

lemma arg_min_list_le: "x \<in> set xs \<Longrightarrow> f (arg_min_list f xs) \<le> (f x :: 'b::linorder)"
proof (induction xs rule: rev_induct)
  case (snoc y xs)
  then show ?case by (cases "xs = []") (auto simp: arg_min_list_snoc)
qed simp

text \<open>What a selected event satisfies, for the components that use the aggregation.\<close>

lemma get_earliest_SomeD:
  assumes "dict_get (get_earliest_log_event_by_height logs cls nb) h = Some e"
  shows "(h, e) \<in> set (all_events logs cls)"
    and "\<And>x. (h, x) \<in> set (all_events logs cls) \<Longrightarrow> nb \<le> event_time x"
    and "\<And>x. (h, x) \<in> set (all_events logs cls) \<Longrightarrow> log_timestamp e \<le> log_timestamp x"
proof -
  let ?es = "at_height h (all_events logs cls)"
  have mem: "x \<in> set ?es \<longleftrightarrow> (h, x) \<in> set (all_events logs cls)" for x
    by (force simp: at_height_def)
  from assms have "?es \<noteq> []" and no: "\<forall>x \<in> set ?es. nb \<le> event_time x"
    and e: "e = arg_min_list log_timestamp ?es"
    by (auto simp: get_earliest_eq earliest_spec_def not_less split: if_splits)
  then show "(h, e) \<in> set (all_events logs cls)" using arg_min_list_in [of ?es] mem by blast
  show "(h, x) \<in> set (all_events logs cls) \<Longrightarrow> nb \<le> event_time x" for x using no mem by blast
  show "(h, x) \<in> set (all_events logs cls) \<Longrightarrow> log_timestamp e \<le> log_timestamp x" for x
    unfolding e mem [symmetric] by (rule arg_min_list_le)
qed

text \<open>C34: Aggregation over replicas refines its specification, whatever the order of the logs:
  a height is reported iff some replica has an event of the class at that height and no replica
  has one before the given time (for requests the later of log time and block time counts), even
  if the early one is read last; the reported event is the first one in reading order whose log
  time is minimal among all replicas; and every height is reported once.\<close>

theorem earliest_event_refines:
  "dict_ok (get_earliest_log_event_by_height logs cls nb) \<and>
   dict_get (get_earliest_log_event_by_height logs cls nb) h =
     (let es = at_height h (all_events logs cls)
      in if es \<noteq> [] \<and> list_all (\<lambda>e. nb \<le> event_time e) es
         then Some (arg_min_list log_timestamp es) else None)"
  by (auto simp: get_earliest_eq earliest_spec_def Let_def list_all_iff not_less not_le)

section \<open>Primary, start, end and fault height\<close>

lemma primaries_filter: "filter is_primary logs = map ((!) logs) (primaries logs)"
  using filter_map [of is_primary "(!) logs" "[0..<length logs]"]
  by (simp add: primaries_def map_nth comp_def)

text \<open>The primary of a run. Without any log of an execution the look-up fails with an
  \<open>AssertionError\<close>; with executions at several replicas (a view change) there is no primary;
  otherwise the log returned is that of the only replica that executed.\<close>

theorem primary_logs_unique:
  "primary_logs logs =
     (case filter is_primary logs of
        [] \<Rightarrow> Inl AssertionError
      | [nl] \<Rightarrow> Inr (Some nl)
      | _ \<Rightarrow> Inr None)"
proof (cases "primaries logs")
  case (Cons i js)
  then show ?thesis
    by (cases "js") (simp_all add: primaries_filter primary_logs_def no_view_change_def)
qed (simp add: primaries_filter primary_logs_def no_view_change_def)

lemma rmap_requests_Inr:
  "rmap requests_by_height logs = Inr ds \<Longrightarrow>
     ds = map (\<lambda>nl. events_of (events_by_type_by_height nl) ReceiveRequestsLog) logs"
  by (induction logs arbitrary: ds)
    (auto simp: rbind_eq_Inr requests_by_height_def events_of_def)

lemma run_start_Inr:
  "run_start logs = Inr t \<Longrightarrow>
     set (all_events logs ReceiveRequestsLog) \<noteq> {} \<and>
     t = Min ((log_timestamp \<circ> snd) ` set (all_events logs ReceiveRequestsLog))"
  by (auto simp: run_start_def rbind_eq_Inr py_min_Inr all_events_def dict_values_def image_UN
      image_comp comp_def dest!: rmap_requests_Inr)

lemma run_end_Inr:
  "run_end logs = Inr t \<Longrightarrow>
     set (all_events logs ExecuteActionLog) \<noteq> {} \<and>
     t = Max ((log_timestamp \<circ> snd) ` set (all_events logs ExecuteActionLog))"
  by (auto simp: run_end_def py_max_Inr all_events_def dict_values_def executes_by_height_def image_UN
      image_comp comp_def)

lemma run_start_le: "run_start logs = Inr t \<Longrightarrow> (h, e) \<in> set (all_events logs ReceiveRequestsLog) \<Longrightarrow>
    t \<le> log_timestamp e"
  by (drule run_start_Inr) (force intro: Min_le)

lemma run_end_ge: "run_end logs = Inr t \<Longrightarrow> (h, e) \<in> set (all_events logs ExecuteActionLog) \<Longrightarrow>
    log_timestamp e \<le> t"
  by (drule run_end_Inr) (force intro: Max_ge)

text \<open>The fault height of a run is that of the first replica. It is returned exactly when
  every replica that was killed was killed at that height; where the first replica was not killed
  (its fault height is 0) but another one was, the look-up fails with an \<open>AssertionError\<close>.\<close>

theorem fault_height_first_replica:
  "get_fault_height logs =
     (case logs of
        [] \<Rightarrow> Inl IndexError
      | nl # rest \<Rightarrow>
          if list_all (\<lambda>x. fault_height x = fault_height nl \<or> fault_height x = 0) rest
          then Inr (fault_height nl)
          else Inl AssertionError)"
  by (cases logs) (simp_all add: get_fault_height_def py_assert_def list_all_iff)

end
