(* ===== verification/Bft_Utils.thy ===== *)
theory Bft_Utils
  imports Py_Strings
begin

text \<open>
  \<^verbatim>\<open>benchmark/benchmark_framework/utils.py\<close>: quorum sizes, node types and directory
  names, the integer range check, the progress bar, the error report and the removal of an output
  directory.
\<close>

section \<open>Quorums\<close>

text \<open>
  \<open>math.floor((N-1) / 3)\<close>: a true division followed by a floor. The floating-point quotient
  is exact enough for its floor below \<open>2^53\<close>; the model divides rationals.
\<close>

definition byzantine_quorum :: "int \<Rightarrow> int" where
  "byzantine_quorum N = (let F = \<lfloor>(rat_of_int (N - 1)) / 3\<rfloor> in 2 * F + 1)"

definition byzantine_replies_quorum :: "int \<Rightarrow> int" where
  "byzantine_replies_quorum N = (let F = \<lfloor>(rat_of_int (N - 1)) / 3\<rfloor> in F + 1)"

lemma floor_third: "\<lfloor>(rat_of_int n) / 3\<rfloor> = n div 3"
  using floor_divide_of_int_eq [of n 3, where 'a = rat] by simp

lemma byzantine_quorum_eq: "byzantine_quorum N = 2 * ((N - 1) div 3) + 1"
  by (simp add: byzantine_quorum_def floor_third del: of_int_diff)

lemma byzantine_replies_quorum_eq: "byzantine_replies_quorum N = (N - 1) div 3 + 1"
  by (simp add: byzantine_replies_quorum_def floor_third del: of_int_diff)

lemma third_nat: "1 \<le> N \<Longrightarrow> (int N - 1) div 3 = int ((N - 1) div 3)"
  by presburger

lemma card_Int_quorums:
  assumes "finite V" and "A \<subseteq> V" and "B \<subseteq> V"
  shows "int (card A) + int (card B) - int (card V) \<le> int (card (A \<inter> B))"
proof -
  have fin: "finite A" "finite B" using assms finite_subset by auto
  have "card A + card B = card (A \<union> B) + card (A \<inter> B)" using fin by (rule card_Un_Int)
  moreover have "card (A \<union> B) \<le> card V" using assms by (intro card_mono) auto
  ultimately show ?thesis by linarith
qed

lemma overlapping_intervals_card:
  fixes q N :: nat
  assumes "q \<le> N"
  shows "card ({0..<q} \<inter> {N - q..<N}) = q - (N - q)"
  using assms by (simp add: Int_atLeastLessThan)

section \<open>Node types and directory names\<close>

datatype node_type = VALIDATOR | CLIENT

fun node_type_value :: "node_type \<Rightarrow> string" where
  "node_type_value VALIDATOR = ''validator''"
| "node_type_value CLIENT = ''client''"

definition get_dirname :: "node_type \<Rightarrow> string" where
  "get_dirname t = (if t = CLIENT then ''client'' else ''node'')"

definition add_zeros_prefix :: "int \<Rightarrow> int \<Rightarrow> string" where
  "add_zeros_prefix n max_n =
     (let max_nb_digits = length (int_str (max (max_n - 1) 0))
      in format_0w max_nb_digits n)"

definition get_node_dirname :: "int \<Rightarrow> node_type \<Rightarrow> int \<Rightarrow> string" where
  "get_node_dirname node_id t total_nb_nodes =
     (let final_node_number = add_zeros_prefix node_id total_nb_nodes
      in get_dirname t @ ''-'' @ final_node_number)"

lemma add_zeros_prefix_digits: "0 \<le> n \<Longrightarrow> list_all is_digit (add_zeros_prefix n m)"
  by (simp add: add_zeros_prefix_def format_0w_def pad_zeros_digits nat_str_digits)

lemma add_zeros_prefix_val: "0 \<le> n \<Longrightarrow> digits_val (add_zeros_prefix n m) = nat n"
  by (simp add: add_zeros_prefix_def format_0w_def)

lemma add_zeros_prefix_length:
  assumes "0 \<le> n" and "n < m"
  shows "length (add_zeros_prefix n m) = length (int_str (m - 1))"
proof -
  have "length (nat_str (nat n)) \<le> length (nat_str (nat (m - 1)))"
    using assms by (intro nat_str_length_mono) simp
  with assms show ?thesis
    by (simp add: add_zeros_prefix_def format_0w_def int_str_def pad_zeros_length)
qed

lemma add_zeros_prefix_less_iff:
  assumes "0 \<le> i" "i < n" "0 \<le> j" "j < n"
  shows "add_zeros_prefix i n < add_zeros_prefix j n \<longleftrightarrow> i < j"
  using assms digits_less_iff [of "add_zeros_prefix i n" "add_zeros_prefix j n"]
  by (auto simp: add_zeros_prefix_length add_zeros_prefix_digits add_zeros_prefix_val)

lemma append_less_iff: "p @ (xs :: 'a :: linorder list) < p @ ys \<longleftrightarrow> xs < ys"
  by (induction p) auto

lemma get_node_dirname_less_iff:
  assumes "0 \<le> i" "i < n" "0 \<le> j" "j < n"
  shows "get_node_dirname i t n < get_node_dirname j t n \<longleftrightarrow> i < j"
  using assms
  by (simp only: get_node_dirname_def Let_def append_less_iff add_zeros_prefix_less_iff)

lemma get_node_dirname_inj:
  assumes "0 \<le> i" "i < n" "0 \<le> j" "j < n" and "get_node_dirname i t n = get_node_dirname j t n"
  shows "i = j"
  using get_node_dirname_less_iff [of i n j t] get_node_dirname_less_iff [of j n i t] assms
  by auto

lemma node_dirnames_sorted:
  "sorted_wrt (<) (map (\<lambda>i. get_node_dirname (int i) t (int n)) [0..<n])"
  by (simp add: sorted_wrt_map sorted_wrt_iff_nth_less get_node_dirname_less_iff)

lemma get_dirname_inj: "get_dirname a @ ''-'' @ x = get_dirname b @ ''-'' @ y \<Longrightarrow> a = b"
  by (cases a; cases b) (simp_all add: get_dirname_def)

section \<open>The range check\<close>

text \<open>\<open>range(start, stop)\<close> has step one here.\<close>

definition check_int_in_range :: "int \<Rightarrow> int \<times> int \<Rightarrow> unit result" where
  "check_int_in_range value r =
     (if \<not> (fst r \<le> value \<and> value < snd r) then Inl ValueError else Inr ())"

definition check_greater_than :: "int \<Rightarrow> int \<Rightarrow> unit result" where
  "check_greater_than value min_value = (if \<not> value \<ge> min_value then Inl ValueError else Inr ())"

section \<open>The progress bar\<close>

text \<open>
  One frame of the bar: the characters between the two vertical lines and the percentage that is
  printed after them (before it is rounded to the requested number of decimals). Printing a
  frame of an empty iterable divides by zero.
\<close>

definition progress_frame :: "'a \<Rightarrow> 'a \<Rightarrow> int \<Rightarrow> int \<Rightarrow> int \<Rightarrow> ('a list \<times> rat) result" where
  "progress_frame fill dash len tot iteration =
     (if tot = 0 then Inl ZeroDivisionError
      else let percent = 100 * (rat_of_int iteration / rat_of_int tot);
               filledLength = (len * iteration) div tot;
               bar = replicate (nat filledLength) fill @ replicate (nat (len - filledLength)) dash
           in Inr (bar, percent))"

text \<open>The generator yields the items in order and prints a frame before the first and after each.\<close>

definition progress_bar :: "'a \<Rightarrow> 'a \<Rightarrow> int \<Rightarrow> 'b list \<Rightarrow> ('b list \<times> ('a list \<times> rat) list) result" where
  "progress_bar fill dash len items =
     (let tot = int (length items)
      in rbind (progress_frame fill dash len tot 0) (\<lambda>f0.
         rbind (rmap (\<lambda>i. progress_frame fill dash len tot (int i + 1)) [0..<length items]) (\<lambda>fs.
         Inr (items, f0 # fs))))"

lemma progress_frame_ok:
  assumes "0 < tot" "0 \<le> it" "it \<le> tot" "0 \<le> len"
  shows "\<exists>bar percent. progress_frame fill dash len tot it = Inr (bar, percent) \<and>
           int (length bar) = len \<and> 0 \<le> percent \<and> percent \<le> 100"
proof -
  have "0 \<le> len * it div tot" using assms by (simp add: pos_imp_zdiv_nonneg_iff)
  moreover have "len * it div tot \<le> len"
  proof -
    have "len * it \<le> len * tot" using assms by (intro mult_left_mono) auto
    then have "len * it div tot \<le> len * tot div tot" using assms by (intro zdiv_mono1) auto
    with assms show ?thesis by simp
  qed
  moreover have "rat_of_int it / rat_of_int tot \<le> 1" using assms by simp
  ultimately show ?thesis
    using assms by (auto simp: progress_frame_def Let_def divide_le_eq)
qed

section \<open>The error report\<close>

text \<open>
  A benchmark error wraps another exception, which may again be a benchmark error. The report has
  one line per wrapped benchmark error, then the type and the text of the innermost cause. Each
  exception carries its printed text and its printed type.
\<close>

datatype exc = BenchExc string exc | OtherExc string string

fun exc_str :: "exc \<Rightarrow> string" where
  "exc_str (BenchExc msg c) = msg"
| "exc_str (OtherExc ty msg) = msg"

fun exc_type :: "exc \<Rightarrow> string" where
  "exc_type (BenchExc msg c) = ''<class 'benchmark_framework.utils.BenchError'>''"
| "exc_type (OtherExc ty msg) = ty"

definition cause_line :: "nat \<Rightarrow> string \<Rightarrow> string" where
  "cause_line k s = ''  '' @ nat_str k @ '': '' @ s @ [LF]"

text \<open>The loop: \<open>shown\<close> is the text of \<open>e.cause\<close>, which every line of the loop prints.\<close>

fun error_causes :: "string \<Rightarrow> exc \<Rightarrow> string list \<Rightarrow> string list" where
  "error_causes shown (BenchExc msg c) causes =
     error_causes shown c (causes @ [cause_line (length causes) shown])"
| "error_causes shown (OtherExc ty msg) causes =
     (let cs = causes @ [cause_line (length causes) ty]
      in cs @ [cause_line (length cs) msg])"

fun print_error :: "exc \<Rightarrow> string list result" where
  "print_error (BenchExc msg c) = Inr (error_causes (exc_str c) c [])"
| "print_error (OtherExc ty msg) = Inl AssertionError"

fun exc_depth :: "exc \<Rightarrow> nat" where
  "exc_depth (BenchExc msg c) = Suc (exc_depth c)"
| "exc_depth (OtherExc ty msg) = 0"

fun innermost :: "exc \<Rightarrow> exc" where
  "innermost (BenchExc msg c) = innermost c"
| "innermost (OtherExc ty msg) = OtherExc ty msg"

lemma error_causes_eq:
  "error_causes shown c causes =
     causes @ map (\<lambda>k. cause_line k shown) [length causes..<length causes + exc_depth c] @
     [cause_line (length causes + exc_depth c) (exc_type (innermost c)),
      cause_line (length causes + exc_depth c + 1) (exc_str (innermost c))]"
proof (induction shown c causes rule: error_causes.induct)
  case (1 shown msg c causes)
  have "[length causes..<length causes + exc_depth (BenchExc msg c)] =
      length causes # [Suc (length causes)..<Suc (length causes) + exc_depth c]"
    by (simp add: upt_conv_Cons)
  with 1 show ?case by simp
qed (simp add: Let_def)

section \<open>Removing an output directory\<close>

text \<open>
  The result says whether the directory still exists afterwards; the process exits with status 1
  when the user, asked to confirm, declines. The user's answer is the argument \<open>confirmed\<close>.
\<close>

definition remove_dir_or_fail :: "bool \<Rightarrow> bool \<Rightarrow> bool \<Rightarrow> bool result" where
  "remove_dir_or_fail dir_exists force confirmed =
     (if force then Inr False
      else if dir_exists then (if confirmed then Inr False else Inl (SystemExit 1))
      else Inr dir_exists)"

section \<open>Properties\<close>

text \<open>Quorum safety. With \<open>N\<close> validators, any two groups of \<open>byzantine_quorum N\<close>
  validators share at least \<open>byzantine_replies_quorum N\<close> members (so at least one correct one,
  with at most \<open>(N-1) div 3\<close> faulty) exactly when \<open>N\<close> is of the form \<open>3F + 1\<close>; for every
  other size two quorums exist whose members in common can all be faulty.\<close>

theorem byzantine_quorum_intersection_iff:
  fixes N :: nat
  assumes "1 \<le> N"
  shows "(\<forall>A B. A \<subseteq> {0..<N} \<and> B \<subseteq> {0..<N} \<and>
              int (card A) = byzantine_quorum (int N) \<and> int (card B) = byzantine_quorum (int N) \<longrightarrow>
              byzantine_replies_quorum (int N) \<le> int (card (A \<inter> B))) \<longleftrightarrow> N mod 3 = 1"
    (is "?safe \<longleftrightarrow> _")
proof
  define q where "q = 2 * ((N - 1) div 3) + 1"
  have qN: "q \<le> N" using assms unfolding q_def by presburger
  have q: "int q = byzantine_quorum (int N)"
    unfolding q_def byzantine_quorum_eq third_nat [OF assms] by (simp only: of_nat_add of_nat_mult of_nat_1 of_nat_numeral)
  assume safe: ?safe
  have "byzantine_replies_quorum (int N) \<le> int (card ({0..<q} \<inter> {N - q..<N}))"
    by (rule safe [rule_format]) (use q qN in auto)
  then have "int ((N - 1) div 3) + 1 \<le> int (q - (N - q))"
    unfolding overlapping_intervals_card [OF qN] byzantine_replies_quorum_eq third_nat [OF assms] .
  then have "(N - 1) div 3 + 1 + N \<le> 2 * q" by linarith
  then have "N \<le> 3 * ((N - 1) div 3) + 1" by (simp add: q_def)
  then show "N mod 3 = 1" using assms by presburger
next
  assume N: "N mod 3 = 1"
  show ?safe
  proof (intro allI impI, elim conjE)
    fix A B :: "nat set"
    assume *: "A \<subseteq> {0..<N}" "B \<subseteq> {0..<N}"
      "int (card A) = byzantine_quorum (int N)" "int (card B) = byzantine_quorum (int N)"
    have "int (card A) + int (card B) - int N \<le> int (card (A \<inter> B))"
      using card_Int_quorums [OF _ *(1,2)] by simp
    with * N show "byzantine_replies_quorum (int N) \<le> int (card (A \<inter> B))"
      unfolding byzantine_quorum_eq byzantine_replies_quorum_eq by presburger
  qed
qed

theorem byzantine_quorum_intersection_iff_witness:
  "(1::nat) \<le> 6 \<and>
   \<not> (\<forall>A B. A \<subseteq> {0..<6::nat} \<and> B \<subseteq> {0..<6} \<and>
          int (card A) = byzantine_quorum (int 6) \<and> int (card B) = byzantine_quorum (int 6) \<longrightarrow>
          byzantine_replies_quorum (int 6) \<le> int (card (A \<inter> B)))"
proof -
  have h: "(1::nat) \<le> 6" by simp
  show ?thesis using h byzantine_quorum_intersection_iff [OF h] by simp
qed

text \<open>Directory names keep the numeric order. Among \<open>n\<close> nodes of one type, the padded
  directory names compare as strings exactly as the node ids compare as numbers, so sorting a
  listing of the log directories, in whatever order it comes, restores the order of the ids;
  validators and clients never share a name.\<close>

theorem node_dirname_order:
  assumes "0 \<le> i" "i < n" "0 \<le> j" "j < n"
    and listing: "mset dirs = mset (map (\<lambda>k. get_node_dirname (int k) t n) [0..<nat n])"
  shows "(get_node_dirname i t n < get_node_dirname j t n \<longleftrightarrow> i < j) \<and>
         (get_node_dirname i t n = get_node_dirname j u n \<longleftrightarrow> i = j \<and> t = u) \<and>
         sort dirs = map (\<lambda>k. get_node_dirname (int k) t n) [0..<nat n]"
proof (intro conjI)
  show "get_node_dirname i t n < get_node_dirname j t n \<longleftrightarrow> i < j"
    by (rule get_node_dirname_less_iff [OF assms(1-4)])
  show "get_node_dirname i t n = get_node_dirname j u n \<longleftrightarrow> i = j \<and> t = u"
    using get_node_dirname_inj [OF assms(1-4)] get_dirname_inj [of t _ u]
    by (metis get_node_dirname_def)
  have n: "n = int (nat n)" using assms by simp
  have "sorted_wrt (<) (map (\<lambda>k. get_node_dirname (int k) t n) [0..<nat n])"
    using node_dirnames_sorted [of t "nat n"] n by simp
  then have s: "sorted (map (\<lambda>k. get_node_dirname (int k) t n) [0..<nat n])"
    by (rule strict_sorted_imp_sorted)
  with listing show "sort dirs = map (\<lambda>k. get_node_dirname (int k) t n) [0..<nat n]"
    by (intro properties_for_sort) simp_all
qed

theorem node_dirname_order_witness:
  "get_node_dirname 2 VALIDATOR 12 < get_node_dirname 10 VALIDATOR 12 \<and>
   get_node_dirname 2 VALIDATOR 12 = ''node-02'' \<and>
   sort (map (\<lambda>k. get_node_dirname (int k) VALIDATOR 12) (rev [0..<12])) =
     map (\<lambda>k. get_node_dirname (int k) VALIDATOR 12) [0..<12]"
proof -
  have m: "mset (map (\<lambda>k. get_node_dirname (int k) VALIDATOR 12) (rev [0..<12])) =
      mset (map (\<lambda>k. get_node_dirname (int k) VALIDATOR 12) [0..<nat 12])"
    by (simp del: upt_rec_numeral)
  have n: "get_node_dirname 2 VALIDATOR 12 = ''node-02''" by code_simp
  have "nat 12 = (12 :: nat)" by simp
  with node_dirname_order [OF _ _ _ _ m, of 2 10 CLIENT] n show ?thesis
    by (simp del: upt_rec_numeral)
qed

text \<open>The progress bar draws one frame before the first item and one after each item, yields
  the items unchanged, every frame has the requested width and a percentage between 0 and 100;
  only an empty iterable fails.\<close>

theorem progress_bar_frames:
  assumes "items \<noteq> []" and "0 \<le> len"
  shows "\<exists>frames. progress_bar fill dash len items = Inr (items, frames) \<and>
           length frames = length items + 1 \<and>
           list_all (\<lambda>(bar, percent). int (length bar) = len \<and> 0 \<le> percent \<and> percent \<le> 100) frames \<and>
           last frames = (replicate (nat len) fill, 100)"
proof -
  define n where "n = int (length items)"
  have n: "0 < n" using assms(1) by (simp add: n_def)
  let ?ok = "\<lambda>(bar, percent). int (length bar) = len \<and> 0 \<le> percent \<and> percent \<le> (100::rat)"
  define g where "g = (\<lambda>it. projr (progress_frame fill dash len n it))"
  have g: "progress_frame fill dash len n it = Inr (g it) \<and> ?ok (g it)" if "0 \<le> it" "it \<le> n" for it
    using progress_frame_ok [OF n that assms(2), of fill dash] by (auto simp: g_def)
  have "rmap (\<lambda>i. progress_frame fill dash len n (int i + 1)) [0..<length items] =
      Inr (map (\<lambda>i. g (int i + 1)) [0..<length items])"
    by (rule rmap_Inr_map) (use g in \<open>simp add: n_def\<close>)
  then have run: "progress_bar fill dash len items =
      Inr (items, g 0 # map (\<lambda>i. g (int i + 1)) [0..<length items])"
    using g [of 0] n by (simp add: progress_bar_def Let_def flip: n_def)
  have "g n = (replicate (nat len) fill, 100)"
    using n assms(2) by (simp add: g_def progress_frame_def Let_def)
  then have "last (g 0 # map (\<lambda>i. g (int i + 1)) [0..<length items]) = (replicate (nat len) fill, 100)"
    using assms(1) by (cases "length items") (auto simp: n_def algebra_simps)
  moreover have "list_all ?ok (g 0 # map (\<lambda>i. g (int i + 1)) [0..<length items])"
    using g [of 0] n g by (auto simp: list_all_iff n_def)
  ultimately show ?thesis using run by auto
qed

theorem progress_bar_frames_witness:
  "[7::nat, 8] \<noteq> [] \<and> (0::int) \<le> 4 \<and>
   (\<exists>frames. progress_bar True False 4 [7::nat, 8] = Inr ([7, 8], frames) \<and> length frames = 3)"
proof -
  have h: "[7::nat, 8] \<noteq> []" "(0::int) \<le> 4" by simp_all
  show ?thesis using h progress_bar_frames [OF h, of True False] by auto
qed

end
