(* ===== verification/Param_Fields.thy ===== *)
theory Param_Fields
  imports Bft_Utils
begin

text \<open>
  \<^verbatim>\<open>benchmark/benchmark_framework/utils.py\<close>: the descriptor fields that validate the
  attributes of a parameters class (\<open>CustomField\<close> and its subclasses), the set-valued
  descriptor, and the construction of a parameters object from a dictionary.
\<close>

section \<open>Values\<close>

text \<open>The values that a JSON document, or a default value, can hold.\<close>

datatype py_val =
    VNone
  | VBool bool
  | VInt int
  | VFloat rat
  | VStr string
  | VList "py_val list"
  | VDict "(string \<times> py_val) list"

datatype field_type = TBool | TInt | TFloat

text \<open>\<open>isinstance\<close>: a \<open>bool\<close> is an \<open>int\<close>, an \<open>int\<close> is not a \<open>float\<close>.\<close>

fun py_isinstance :: "py_val \<Rightarrow> field_type \<Rightarrow> bool" where
  "py_isinstance (VBool b) TBool = True"
| "py_isinstance (VBool b) TInt = True"
| "py_isinstance (VInt i) TInt = True"
| "py_isinstance (VFloat x) TFloat = True"
| "py_isinstance v t = False"

text \<open>The number that arithmetic and comparisons see.\<close>

fun as_int :: "py_val \<Rightarrow> int option" where
  "as_int (VInt i) = Some i"
| "as_int (VBool b) = Some (if b then 1 else 0)"
| "as_int v = None"

section \<open>Descriptors\<close>

text \<open>
  The attributes of an instance that have been assigned so far. A descriptor stores the value of
  field \<open>f\<close> under \<open>_f\<close>; the model uses the field name itself as the key.
\<close>

type_synonym inst = "(string, py_val) dict"

type_synonym validator = "inst \<Rightarrow> py_val \<Rightarrow> unit result"

record custom_field =
  original_name :: string
  field_default :: "py_val option"
  field_kind :: field_type
  validators :: "validator list"
  is_nullable :: bool
  converts_int :: bool

text \<open>
  \<open>CustomField.__init__\<close>: \<open>None\<close> stands for \<open>MISSING\<close>. The flag \<open>converts_int\<close> says
  that the class is \<open>Float\<close>, whose \<open>__set__\<close> converts integers first.
\<close>

definition CustomField_init ::
    "string \<Rightarrow> field_type \<Rightarrow> py_val option \<Rightarrow> validator list \<Rightarrow> bool \<Rightarrow> custom_field result" where
  "CustomField_init name ty dflt vs nullable =
     (if dflt = Some VNone \<and> \<not> nullable then Inl ValueError
      else if dflt \<noteq> Some VNone \<and> dflt \<noteq> None \<and> \<not> py_isinstance (the dflt) ty
      then Inl ValueError
      else Inr \<lparr>original_name = name, field_default = dflt, field_kind = ty, validators = vs,
                is_nullable = nullable, converts_int = False\<rparr>)"

definition check_min :: "int \<Rightarrow> validator" where
  "check_min min_value i v =
     (case as_int v of None \<Rightarrow> Inr ()
      | Some n \<Rightarrow> if \<not> n \<ge> min_value then Inl ValueError else Inr ())"

definition check_max :: "int \<Rightarrow> validator" where
  "check_max max_value i v =
     (case as_int v of None \<Rightarrow> Inr ()
      | Some n \<Rightarrow> if \<not> n \<le> max_value then Inl ValueError else Inr ())"

definition Bool_init :: "string \<Rightarrow> py_val option \<Rightarrow> validator list \<Rightarrow> custom_field result" where
  "Bool_init name dflt vs = CustomField_init name TBool dflt vs False"

definition Int_init ::
    "string \<Rightarrow> py_val option \<Rightarrow> int option \<Rightarrow> int option \<Rightarrow> validator list \<Rightarrow> bool \<Rightarrow> custom_field result" where
  "Int_init name dflt min_value max_value vs nullable =
     (let vs1 = (case min_value of None \<Rightarrow> [] | Some m \<Rightarrow> [check_min m]);
          vs2 = (case max_value of None \<Rightarrow> [] | Some m \<Rightarrow> [check_max m])
      in CustomField_init name TInt dflt (vs1 @ vs2 @ vs) nullable)"

definition PositiveInt_init :: "string \<Rightarrow> py_val option \<Rightarrow> custom_field result" where
  "PositiveInt_init name dflt = Int_init name dflt (Some 1) None [] False"

definition NonnegativeInt_init :: "string \<Rightarrow> py_val option \<Rightarrow> custom_field result" where
  "NonnegativeInt_init name dflt = Int_init name dflt (Some 0) None [] False"

definition Float_init :: "string \<Rightarrow> py_val option \<Rightarrow> validator list \<Rightarrow> bool \<Rightarrow> custom_field result" where
  "Float_init name dflt vs nullable =
     rbind (CustomField_init name TFloat dflt vs nullable) (\<lambda>f. Inr (f\<lparr>converts_int := True\<rparr>))"

text \<open>\<open>__get__\<close> on an instance: the stored value or the default; \<open>None\<close> only where it is allowed.\<close>

definition field_get :: "custom_field \<Rightarrow> inst \<Rightarrow> py_val result" where
  "field_get f i =
     (let r = (case dict_get i (original_name f) of None \<Rightarrow> field_default f | Some v \<Rightarrow> Some v)
      in if r = Some VNone \<and> \<not> is_nullable f then Inl ValueError
         else case r of None \<Rightarrow> Inl ValueError | Some v \<Rightarrow> Inr v)"

fun run_validators :: "validator list \<Rightarrow> inst \<Rightarrow> py_val \<Rightarrow> unit result" where
  "run_validators [] i v = Inr ()"
| "run_validators (w # ws) i v = rbind (w i v) (\<lambda>_. run_validators ws i v)"

text \<open>\<open>Float.__set__\<close> converts an integer; a \<open>bool\<close> is an integer here, too.\<close>

fun to_float :: "py_val \<Rightarrow> py_val" where
  "to_float (VInt i) = VFloat (rat_of_int i)"
| "to_float (VBool b) = VFloat (if b then 1 else 0)"
| "to_float v = v"

definition field_set :: "custom_field \<Rightarrow> inst \<Rightarrow> py_val \<Rightarrow> inst result" where
  "field_set f i v0 =
     (let v = (if converts_int f then to_float v0 else v0)
      in if v \<noteq> VNone \<and> \<not> py_isinstance v (field_kind f) then Inl ValueError
         else rbind (run_validators (validators f) i v) (\<lambda>_. Inr (dict_set (original_name f) v i)))"

lemma run_validators_Inr_iff:
  "run_validators ws i v = Inr u \<longleftrightarrow> (\<forall>w \<in> set ws. w i v = Inr ())"
  by (induction ws) (auto simp: rbind_eq_Inr)

lemma field_set_Inr:
  assumes "field_set f i v0 = Inr i'"
  obtains v where "v = (if converts_int f then to_float v0 else v0)"
    "v = VNone \<or> py_isinstance v (field_kind f)"
    "\<forall>w \<in> set (validators f). w i v = Inr ()" "i' = dict_set (original_name f) v i"
  using assms
  by (auto simp: field_set_def Let_def rbind_eq_Inr run_validators_Inr_iff split: if_splits)

section \<open>Parameter classes\<close>

text \<open>
  A parameters class is the list of its fields in the order of declaration. \<open>from_dict\<close> keeps
  the declared fields, complains about a missing key without a default, and calls the
  constructor, which assigns the fields in order.
\<close>

fun from_dict_filter :: "custom_field list \<Rightarrow> (string, py_val) dict \<Rightarrow> (string, py_val) dict result" where
  "from_dict_filter [] obj = Inr []"
| "from_dict_filter (f # fs) obj =
     (case dict_get obj (original_name f) of
        Some v \<Rightarrow> rbind (from_dict_filter fs obj) (\<lambda>r. Inr ((original_name f, v) # r))
      | None \<Rightarrow> if field_default f = None then Inl ConfigError else from_dict_filter fs obj)"

text \<open>
  The generated \<open>__init__\<close>: each field receives the argument or its default; an argument without
  either is a \<open>TypeError\<close>.
\<close>

fun dataclass_init :: "custom_field list \<Rightarrow> (string, py_val) dict \<Rightarrow> inst \<Rightarrow> inst result" where
  "dataclass_init [] kwargs i = Inr i"
| "dataclass_init (f # fs) kwargs i =
     (case (case dict_get kwargs (original_name f) of Some v \<Rightarrow> Some v | None \<Rightarrow> field_default f) of
        None \<Rightarrow> Inl TypeError
      | Some v \<Rightarrow> rbind (field_set f i v) (dataclass_init fs kwargs))"

definition from_dict :: "custom_field list \<Rightarrow> (string, py_val) dict \<Rightarrow> inst result" where
  "from_dict fs obj = rbind (from_dict_filter fs obj) (\<lambda>filtered. dataclass_init fs filtered [])"

text \<open>\<open>dataclasses.asdict\<close> reads every field in order.\<close>

definition to_dict :: "custom_field list \<Rightarrow> inst \<Rightarrow> (string, py_val) dict result" where
  "to_dict fs i = rmap (\<lambda>f. rbind (field_get f i) (\<lambda>v. Inr (original_name f, v))) fs"

section \<open>The set-valued descriptor\<close>

text \<open>
  \<open>ConvertToSet.__set__\<close>: a container without duplicates whose elements pass the validators;
  the descriptor itself, and not the instance, keeps the value. Elements are compared by a
  given equality, and the result is the set of the elements.
\<close>

datatype 'a container = Sequence "'a list" | NotContainer

fun ConvertToSet_set :: "('i \<Rightarrow> 'a \<Rightarrow> unit result) list \<Rightarrow> 'i \<Rightarrow> 'a container \<Rightarrow> 'a set result" where
  "ConvertToSet_set vs i NotContainer = Inl ValueError"
| "ConvertToSet_set vs i (Sequence xs) =
     (if length xs \<noteq> card (set xs) then Inl ValueError
      else rbind (rmap (\<lambda>v. rmap (\<lambda>w. w i v) vs) xs) (\<lambda>_. Inr (set xs)))"

section \<open>Laws of parameter classes\<close>

lemma to_float_idem [simp]: "to_float (to_float v) = to_float v"
  by (cases v) auto

lemma field_set_replay:
  assumes "field_set f i v0 = Inr i'" and "dict_get i' (original_name f) = Some v"
  shows "field_set f i v = Inr i'"
  using assms
  by (auto simp: field_set_def Let_def rbind_eq_Inr split: if_splits)

lemma from_dict_filter_get:
  assumes "from_dict_filter fs obj = Inr r" and "f \<in> set fs"
  shows "dict_get r (original_name f) = dict_get obj (original_name f)"
  using assms
proof (induction fs arbitrary: r)
  case (Cons g fs)
  show ?case
  proof (cases "original_name g = original_name f")
    case False
    with Cons show ?thesis by (auto simp: rbind_eq_Inr split: option.splits if_splits)
  next
    case True
    have keys: "from_dict_filter gs obj = Inr r' \<Longrightarrow> dict_get obj k = None \<Longrightarrow> dict_get r' k = None"
      for gs r' k
      by (induction gs arbitrary: r') (auto simp: rbind_eq_Inr split: option.splits if_splits)
    with True Cons.prems show ?thesis
      by (auto simp: rbind_eq_Inr split: option.splits if_splits)
  qed
qed simp

lemma from_dict_filter_total:
  "(\<And>f. f \<in> set fs \<Longrightarrow> dict_get obj (original_name f) \<noteq> None) \<Longrightarrow> \<exists>r. from_dict_filter fs obj = Inr r"
proof (induction fs)
  case (Cons f fs)
  then obtain r v where "from_dict_filter fs obj = Inr r" "dict_get obj (original_name f) = Some v"
    by fastforce
  then show ?case by simp
qed simp

lemma dataclass_init_frame:
  "dataclass_init fs kw i = Inr p \<Longrightarrow> k \<notin> original_name ` set fs \<Longrightarrow> dict_get p k = dict_get i k"
proof (induction fs arbitrary: i)
  case (Cons f fs)
  then obtain v0 i' where "field_set f i v0 = Inr i'" "dataclass_init fs kw i' = Inr p"
    by (auto simp: rbind_eq_Inr split: option.splits)
  with Cons show ?case by (auto elim!: field_set_Inr)
qed simp

lemma field_set_stored: "field_set f i v0 = Inr i' \<Longrightarrow> \<exists>v. dict_get i' (original_name f) = Some v"
  by (auto elim!: field_set_Inr)

text \<open>
  A parameters class has distinct field names. Everything a constructed object holds went through
  the descriptor of its field, and the dictionary of an object rebuilds it.
\<close>

locale parameters_class =
  fixes fs :: "custom_field list"
  assumes distinct_names: "distinct (map original_name fs)"
begin

lemma init_step:
  assumes "fs = fs1 @ f # fs2" and "dataclass_init fs kw [] = Inr p"
  shows "\<exists>i v0 i'. dataclass_init fs1 kw [] = Inr i \<and> field_set f i v0 = Inr i' \<and>
           dict_get p (original_name f) = dict_get i' (original_name f) \<and>
           (\<forall>g \<in> set fs1. dict_get i (original_name g) = dict_get p (original_name g))"
proof -
  have split: "dataclass_init (xs @ ys) kw j =
      rbind (dataclass_init xs kw j) (dataclass_init ys kw)" for xs ys j
    by (induction xs arbitrary: j) (auto simp: rbind_def split: option.splits sum.splits)
  from assms obtain i where i: "dataclass_init fs1 kw [] = Inr i"
    and rest: "dataclass_init (f # fs2) kw i = Inr p"
    by (auto simp: split rbind_eq_Inr)
  from rest obtain v0 i' where set: "field_set f i v0 = Inr i'"
    and tail: "dataclass_init fs2 kw i' = Inr p"
    by (auto simp: rbind_eq_Inr split: option.splits)
  have dist: "original_name f \<notin> original_name ` set fs2"
    "\<And>g. g \<in> set fs1 \<Longrightarrow> original_name g \<notin> original_name ` set (f # fs2)"
    using distinct_names assms(1) by (auto simp: image_iff)
  have "dict_get i (original_name g) = dict_get p (original_name g)" if "g \<in> set fs1" for g
    using dataclass_init_frame [OF rest dist(2) [OF that]] by simp
  with i set dataclass_init_frame [OF tail dist(1)] show ?thesis by blast
qed

lemma all_stored:
  assumes "dataclass_init fs kw [] = Inr p" and "f \<in> set fs"
  shows "\<exists>v. dict_get p (original_name f) = Some v"
proof -
  obtain fs1 fs2 where "fs = fs1 @ f # fs2" using assms(2) by (meson split_list)
  from init_step [OF this assms(1)] show ?thesis by (metis field_set_stored)
qed

text \<open>An assigned value has the type of its field or is \<open>None\<close>.\<close>

lemma stored_type:
  assumes "dataclass_init fs kw [] = Inr p" and "f \<in> set fs" and "dict_get p (original_name f) = Some v"
  shows "v = VNone \<or> py_isinstance v (field_kind f)"
proof -
  obtain fs1 fs2 where "fs = fs1 @ f # fs2" using assms(2) by (meson split_list)
  from init_step [OF this assms(1)] obtain i v0 i' where
    set: "field_set f i v0 = Inr i'" and "dict_get p (original_name f) = dict_get i' (original_name f)"
    by blast
  with assms(3) have "dict_get i' (original_name f) = Some v" by simp
  with set show ?thesis by (auto elim!: field_set_Inr split: if_splits)
qed

text \<open>Every validator accepted the stored value, seeing the fields declared before it.\<close>

lemma stored_valid:
  assumes "fs = fs1 @ f # fs2" and "dataclass_init fs kw [] = Inr p" and "w \<in> set (validators f)"
    and "dict_get p (original_name f) = Some v"
  shows "\<exists>i. w i v = Inr () \<and> (\<forall>g \<in> set fs1. dict_get i (original_name g) = dict_get p (original_name g))"
proof -
  from init_step [OF assms(1,2)] obtain i v0 i' where
    set: "field_set f i v0 = Inr i'" and eq: "dict_get p (original_name f) = dict_get i' (original_name f)"
    and agree: "\<forall>g \<in> set fs1. dict_get i (original_name g) = dict_get p (original_name g)"
    by blast
  from eq assms(4) have "dict_get i' (original_name f) = Some v" by simp
  with set assms(3) have "w i v = Inr ()" by (auto elim!: field_set_Inr split: if_splits)
  with agree show ?thesis by blast
qed

lemma init_replay:
  assumes "dataclass_init gs kw i = Inr p" and "distinct (map original_name gs)"
    and "\<And>f. f \<in> set gs \<Longrightarrow> dict_get kw' (original_name f) = dict_get p (original_name f)"
  shows "dataclass_init gs kw' i = Inr p"
  using assms
proof (induction gs arbitrary: i)
  case (Cons f gs)
  then obtain v0 i' where set: "field_set f i v0 = Inr i'" and tail: "dataclass_init gs kw i' = Inr p"
    by (auto simp: rbind_eq_Inr split: option.splits)
  obtain v where v: "dict_get i' (original_name f) = Some v" using field_set_stored [OF set] by blast
  have "dict_get p (original_name f) = dict_get i' (original_name f)"
    using Cons.prems(2) dataclass_init_frame [OF tail] by simp
  with v Cons.prems(3) have "dict_get kw' (original_name f) = Some v" by simp
  with field_set_replay [OF set v] Cons.IH [OF tail] Cons.prems show ?case by simp
qed simp

text \<open>A missing key without a default is reported before any field is assigned.\<close>

lemma from_dict_missing:
  assumes "f \<in> set fs" and "field_default f = None" and "dict_get obj (original_name f) = None"
  shows "from_dict fs obj = Inl ConfigError"
proof -
  have "g \<in> set gs \<Longrightarrow> field_default g = None \<Longrightarrow> dict_get obj (original_name g) = None \<Longrightarrow>
      from_dict_filter gs obj = Inl ConfigError" for g gs
    by (induction gs) (auto simp: rbind_def split: option.splits)
  with assms show ?thesis by (simp add: from_dict_def)
qed

text \<open>Keys that no field declares do not matter.\<close>

lemma from_dict_cong:
  assumes "\<And>f. f \<in> set fs \<Longrightarrow> dict_get obj (original_name f) = dict_get obj' (original_name f)"
  shows "from_dict fs obj = from_dict fs obj'"
proof -
  have "(\<And>f. f \<in> set gs \<Longrightarrow> dict_get obj (original_name f) = dict_get obj' (original_name f)) \<Longrightarrow>
      from_dict_filter gs obj = from_dict_filter gs obj'" for gs
    by (induction gs) (auto split: option.splits)
  with assms show ?thesis by (simp add: from_dict_def)
qed

theorem from_dict_round_trip:
  assumes "from_dict fs obj = Inr p" and "to_dict fs p = Inr d"
  shows "from_dict fs d = Inr p"
proof -
  obtain kw where init: "dataclass_init fs kw [] = Inr p"
    using assms(1) by (auto simp: from_dict_def rbind_eq_Inr)
  have d: "dict_get d (original_name f) = dict_get p (original_name f)" if f: "f \<in> set fs" for f
  proof -
    obtain v where v: "dict_get p (original_name f) = Some v" using all_stored [OF init f] by blast
    have la: "list_all2 (\<lambda>f y. rbind (field_get f p) (\<lambda>v. Inr (original_name f, v)) = Inr y) fs d"
      using assms(2) by (simp add: to_dict_def rmap_Inr_iff)
    then have names: "map fst d = map original_name fs"
      by (induction rule: list_all2_induct) (auto simp: rbind_eq_Inr)
    from list_all2_in_left [OF la f] obtain y where "y \<in> set d"
      and "rbind (field_get f p) (\<lambda>v. Inr (original_name f, v)) = Inr y"
      by blast
    with v have "(original_name f, v) \<in> set d"
      by (auto simp: rbind_eq_Inr field_get_def split: if_splits)
    then show ?thesis using v names distinct_names by simp
  qed
  have "\<exists>r. from_dict_filter fs d = Inr r"
    using d all_stored [OF init] by (intro from_dict_filter_total) fastforce
  then obtain r where r: "from_dict_filter fs d = Inr r" by blast
  have "dataclass_init fs r [] = Inr p"
    using init distinct_names by (rule init_replay) (simp add: from_dict_filter_get [OF r] d)
  with r show ?thesis by (simp add: from_dict_def)
qed

end

end
