(* ===== verification/Bench_Config.thy ===== *)
theory Bench_Config
  imports Param_Fields
begin

text \<open>
  \<^verbatim>\<open>benchmark/benchmark_framework/config.py\<close>: the parameters of a benchmark, their
  cross-field checks, the genesis timestamp and the directory name of a configuration.
\<close>

section \<open>The class\<close>

text \<open>
  The descriptors are created when the class body runs; \<open>field_of\<close> takes the object that the
  constructor call returned (every call below succeeds, see \<open>bench_fields_defined\<close>).
\<close>

definition field_of :: "custom_field result \<Rightarrow> custom_field" where
  "field_of r = projr r"

definition nodes_field :: custom_field where
  "nodes_field = field_of (PositiveInt_init ''nodes'' None)"

definition check_faults :: validator where
  "check_faults instance v =
     rbind (field_get nodes_field instance) (\<lambda>nodes.
       case as_int nodes of None \<Rightarrow> Inl TypeError
       | Some n \<Rightarrow>
           (case as_int v of None \<Rightarrow> Inl ValueError
            | Some k \<Rightarrow> check_int_in_range k (0, n + 1)))"

definition faults_field :: custom_field where
  "faults_field = field_of (Int_init ''faults'' (Some (VInt 0)) (Some 0) None [check_faults] False)"

definition check_fault_info :: validator where
  "check_fault_info instance fault_time =
     rbind (field_get faults_field instance) (\<lambda>faults.
       case as_int faults of None \<Rightarrow> Inl TypeError
       | Some k \<Rightarrow>
           if k > 0 \<and> fault_time = VNone then Inl ConfigError
           else if k = 0 \<and> fault_time \<noteq> VNone then Inl ConfigError
           else Inr ())"

definition bench_field_results :: "custom_field result list" where
  "bench_field_results =
     [PositiveInt_init ''nodes'' None,
      PositiveInt_init ''clients'' None,
      NonnegativeInt_init ''warmup_duration'' None,
      Float_init ''rate'' None [] False,
      PositiveInt_init ''tx_size'' None,
      Float_init ''genesis_hours_in_the_past'' None [] False,
      NonnegativeInt_init ''target_block_time'' None,
      NonnegativeInt_init ''duration'' None,
      Int_init ''runs'' (Some (VInt 1)) (Some 1) None [] False,
      Int_init ''faults'' (Some (VInt 0)) (Some 0) None [check_faults] False,
      Float_init ''fault_time'' (Some VNone) [check_fault_info] True]"

definition bench_fields :: "custom_field list" where
  "bench_fields = map field_of bench_field_results"

definition BenchParameters_from_dict :: "(string, py_val) dict \<Rightarrow> inst result" where
  "BenchParameters_from_dict obj = from_dict bench_fields obj"

definition BenchParameters_dict :: "inst \<Rightarrow> (string, py_val) dict result" where
  "BenchParameters_dict p = to_dict bench_fields p"

lemmas field_inits = PositiveInt_init_def NonnegativeInt_init_def Int_init_def Float_init_def
  CustomField_init_def field_of_def

lemma bench_fields_defined: "rmap id bench_field_results = Inr bench_fields"
  by (simp add: bench_fields_def bench_field_results_def field_inits)

lemma bench_field_names:
  "map original_name bench_fields =
     [''nodes'', ''clients'', ''warmup_duration'', ''rate'', ''tx_size'',
      ''genesis_hours_in_the_past'', ''target_block_time'', ''duration'', ''runs'', ''faults'',
      ''fault_time'']"
  by (simp add: bench_fields_def bench_field_results_def field_inits)

interpretation bp: parameters_class bench_fields
  by unfold_locales (simp add: bench_field_names)

section \<open>The genesis timestamp\<close>

text \<open>\<open>int(x)\<close> truncates towards zero.\<close>

definition py_trunc :: "rat \<Rightarrow> int" where
  "py_trunc x = (if 0 \<le> x then \<lfloor>x\<rfloor> else \<lceil>x\<rceil>)"

text \<open>The wall clock \<open>time.time()\<close> is the argument \<open>now\<close>.\<close>

definition genesis_timestamp :: "rat \<Rightarrow> rat \<Rightarrow> int" where
  "genesis_timestamp now hours =
     (let current_time = py_trunc now;
          current_time_delta = 3600 * hours
      in py_trunc (rat_of_int current_time - current_time_delta))"

definition genesis_hours_field :: custom_field where
  "genesis_hours_field = field_of (Float_init ''genesis_hours_in_the_past'' None [] False)"

definition compute_genesis_block_timestamp :: "rat \<Rightarrow> inst \<Rightarrow> int result" where
  "compute_genesis_block_timestamp now p =
     rbind (field_get genesis_hours_field p) (\<lambda>v.
       case v of VFloat hours \<Rightarrow> Inr (genesis_timestamp now hours) | _ \<Rightarrow> Inl TypeError)"

section \<open>Reading attributes\<close>

text \<open>\<open>params.name\<close>, and the numbers that arithmetic and formatting take from it.\<close>

definition bench_attr :: "string \<Rightarrow> inst \<Rightarrow> py_val result" where
  "bench_attr name p =
     (case List.find (\<lambda>f. original_name f = name) bench_fields of
        None \<Rightarrow> Inl AttributeError | Some f \<Rightarrow> field_get f p)"

fun as_num :: "py_val \<Rightarrow> rat result" where
  "as_num (VInt i) = Inr (rat_of_int i)"
| "as_num (VBool b) = Inr (if b then 1 else 0)"
| "as_num (VFloat x) = Inr x"
| "as_num v = Inl TypeError"

definition bench_num :: "string \<Rightarrow> inst \<Rightarrow> rat result" where
  "bench_num name p = rbind (bench_attr name p) as_num"

definition bench_int :: "string \<Rightarrow> inst \<Rightarrow> int result" where
  "bench_int name p = rbind (bench_attr name p) (\<lambda>v.
     case as_int v of None \<Rightarrow> Inl TypeError | Some i \<Rightarrow> Inr i)"

text \<open>How \<open>str\<close> prints the values; floats are left to the argument \<open>float_repr\<close>.\<close>

fun val_str :: "(rat \<Rightarrow> string) \<Rightarrow> py_val \<Rightarrow> string" where
  "val_str float_repr (VBool b) = (if b then ''True'' else ''False'')"
| "val_str float_repr (VInt i) = int_str i"
| "val_str float_repr (VFloat x) = float_repr x"
| "val_str float_repr (VStr s) = s"
| "val_str float_repr _ = ''None''"

section \<open>The directory name of a configuration\<close>

definition get_dirname_str :: "(rat \<Rightarrow> string) \<Rightarrow> inst \<Rightarrow> int \<Rightarrow> int \<Rightarrow> string result" where
  "get_dirname_str float_repr p max_nodes max_faults =
     rbind (bench_int ''nodes'' p) (\<lambda>nodes.
     rbind (bench_int ''faults'' p) (\<lambda>faults.
     rbind (bench_attr ''rate'' p) (\<lambda>rate.
     rbind (bench_attr ''tx_size'' p) (\<lambda>tx_size.
       Inr (add_zeros_prefix nodes max_nodes @ ''-'' @ add_zeros_prefix faults max_faults @ ''-'' @
            val_str float_repr rate @ ''-'' @ val_str float_repr tx_size)))))"

section \<open>Properties\<close>

lemma nodes_field_simps [simp]:
  "original_name nodes_field = ''nodes''" "field_default nodes_field = None"
  "is_nullable nodes_field = False"
  by (simp_all add: nodes_field_def field_inits)

lemma faults_field_simps [simp]:
  "original_name faults_field = ''faults''" "field_default faults_field = Some (VInt 0)"
  "is_nullable faults_field = False"
  by (simp_all add: faults_field_def field_inits)

lemma bench_fields_split_faults:
  "bench_fields = take 9 bench_fields @ faults_field # [bench_fields ! 10]"
  by (simp add: bench_fields_def bench_field_results_def faults_field_def)

lemma bench_fields_split_fault_time:
  "bench_fields = take 10 bench_fields @ bench_fields ! 10 # []"
  by (simp add: bench_fields_def bench_field_results_def)

lemma validators_faults: "check_faults \<in> set (validators faults_field)"
  by (simp add: faults_field_def field_inits)

lemma validators_fault_time: "validators (bench_fields ! 10) = [check_fault_info]"
  "original_name (bench_fields ! 10) = ''fault_time''"
  by (simp_all add: bench_fields_def bench_field_results_def field_inits)

lemma check_faults_Inr:
  assumes "check_faults i v = Inr ()"
  obtains n k where "as_int v = Some k" "0 \<le> k" "k \<le> n"
    "Option.bind (dict_get i ''nodes'') as_int = Some n"
  using assms
  by (auto simp: check_faults_def rbind_eq_Inr field_get_def check_int_in_range_def Let_def
      split: option.splits if_splits)

text \<open>The minimum that an integer field declares holds for what it stores, unless it is \<open>None\<close>.\<close>

lemma stored_min:
  assumes "BenchParameters_from_dict obj = Inr p"
    and "bench_fields = fs1 @ f # fs2" and "check_min m \<in> set (validators f)"
    and "dict_get p (original_name f) = Some v" and "as_int v = Some n"
  shows "m \<le> n"
proof -
  obtain kw where "dataclass_init bench_fields kw [] = Inr p"
    using assms(1) by (auto simp: BenchParameters_from_dict_def from_dict_def rbind_eq_Inr)
  from bp.stored_valid [OF assms(2) this assms(3,4)] obtain i where "check_min m i v = Inr ()"
    by blast
  with assms(5) show ?thesis by (simp add: check_min_def split: if_splits)
qed

abbreviation int_attr :: "inst \<Rightarrow> string \<Rightarrow> int option" where
  "int_attr p k \<equiv> Option.bind (dict_get p k) as_int"

lemma fault_attrs:
  assumes "BenchParameters_from_dict obj = Inr p"
  shows "\<exists>n k. int_attr p ''nodes'' = Some n \<and> int_attr p ''faults'' = Some k \<and> 0 \<le> k \<and> k \<le> n \<and>
           (k = 0 \<longleftrightarrow> dict_get p ''fault_time'' = Some VNone)"
proof -
  obtain kw where init: "dataclass_init bench_fields kw [] = Inr p"
    using assms by (auto simp: BenchParameters_from_dict_def from_dict_def rbind_eq_Inr)
  have stored: "\<exists>v. dict_get p k = Some v" if "k \<in> set (map original_name bench_fields)" for k
    using bp.all_stored [OF init] that by auto
  obtain f t where f: "dict_get p ''faults'' = Some f" and t: "dict_get p ''fault_time'' = Some t"
    using stored [of "''faults''"] stored [of "''fault_time''"] unfolding bench_field_names by auto
  have nodes_in: "nodes_field \<in> set (take 9 bench_fields)"
    by (simp add: bench_fields_def bench_field_results_def nodes_field_def)
  have faults_in: "faults_field \<in> set (take 10 bench_fields)"
    by (simp add: bench_fields_def bench_field_results_def faults_field_def)
  obtain i where i: "check_faults i f = Inr ()" "dict_get i ''nodes'' = dict_get p ''nodes''"
    using bp.stored_valid [OF bench_fields_split_faults init validators_faults, of f] f nodes_in
    by fastforce
  then obtain n k where nk: "as_int f = Some k" "0 \<le> k" "k \<le> n" "int_attr p ''nodes'' = Some n"
    by (auto elim!: check_faults_Inr)
  obtain j where j: "check_fault_info j t = Inr ()" "dict_get j ''faults'' = dict_get p ''faults''"
    using bp.stored_valid [OF bench_fields_split_fault_time init, of check_fault_info t] t faults_in
      validators_fault_time by fastforce
  then have "k = 0 \<longleftrightarrow> t = VNone"
    using f nk by (auto simp: check_fault_info_def rbind_eq_Inr field_get_def split: if_splits)
  with f t nk show ?thesis by auto
qed


text \<open>The configuration \<^verbatim>\<open>config-examples/test-with-single-fault.json\<close>.\<close>

definition single_fault_example :: "(string, py_val) dict" where
  "single_fault_example =
     [(''nodes'', VInt 4), (''clients'', VInt 1), (''warmup_duration'', VInt 0), (''rate'', VInt 0),
      (''tx_size'', VInt 4096), (''genesis_hours_in_the_past'', VFloat (- (1 / 100))),
      (''target_block_time'', VInt 60), (''faults'', VInt 1), (''fault_time'', VInt 60),
      (''duration'', VInt 180), (''runs'', VInt 1)]"

definition single_fault_params :: inst where
  "single_fault_params =
     [(''nodes'', VInt 4), (''clients'', VInt 1), (''warmup_duration'', VInt 0), (''rate'', VFloat 0),
      (''tx_size'', VInt 4096), (''genesis_hours_in_the_past'', VFloat (- (1 / 100))),
      (''target_block_time'', VInt 60), (''duration'', VInt 180), (''runs'', VInt 1),
      (''faults'', VInt 1), (''fault_time'', VFloat 60)]"

lemma single_fault_loads: "BenchParameters_from_dict single_fault_example = Inr single_fault_params"
  by (simp add: BenchParameters_from_dict_def from_dict_def single_fault_example_def
      single_fault_params_def bench_fields_def bench_field_results_def field_inits field_set_def
      check_faults_def check_fault_info_def nodes_field_def faults_field_def field_get_def
      check_min_def check_int_in_range_def dict_set_def Let_def)

lemma single_fault_dict: "BenchParameters_dict single_fault_params = Inr single_fault_params"
  by (simp add: BenchParameters_dict_def to_dict_def single_fault_params_def bench_fields_def
      bench_field_results_def field_inits field_get_def)


text \<open>The dictionary that an accepted configuration is saved as rebuilds exactly the same
  configuration.\<close>

theorem bench_parameters_round_trip:
  assumes "BenchParameters_from_dict obj = Inr p" and "BenchParameters_dict p = Inr d"
  shows "BenchParameters_from_dict d = Inr p"
  using bp.from_dict_round_trip assms
  unfolding BenchParameters_from_dict_def BenchParameters_dict_def by blast

theorem bench_parameters_round_trip_witness:
  "BenchParameters_from_dict single_fault_example = Inr single_fault_params \<and>
   BenchParameters_dict single_fault_params = Inr single_fault_params \<and>
   BenchParameters_from_dict single_fault_params = Inr single_fault_params"
  using single_fault_loads single_fault_dict
    bench_parameters_round_trip [OF single_fault_loads single_fault_dict] by blast

text \<open>Loading a configuration depends only on the declared keys, and a missing key without a
  default is a configuration error whatever the other values are.\<close>

theorem bench_parameters_keys:
  assumes "k \<notin> set (map original_name bench_fields)"
    and "req \<in> {''nodes'', ''clients'', ''warmup_duration'', ''rate'', ''tx_size'',
           ''genesis_hours_in_the_past'', ''target_block_time'', ''duration''}"
  shows "BenchParameters_from_dict (dict_set k v obj) = BenchParameters_from_dict obj \<and>
         BenchParameters_from_dict (dict_pop req obj) = Inl ConfigError"
proof
  have "f \<in> set bench_fields \<Longrightarrow> original_name f \<noteq> k" for f using assms(1) by auto
  then show "BenchParameters_from_dict (dict_set k v obj) = BenchParameters_from_dict obj"
    unfolding BenchParameters_from_dict_def by (intro bp.from_dict_cong) auto
  have "list_all (\<lambda>r. \<exists>f \<in> set bench_fields. original_name f = r \<and> field_default f = None)
      [''nodes'', ''clients'', ''warmup_duration'', ''rate'', ''tx_size'',
       ''genesis_hours_in_the_past'', ''target_block_time'', ''duration'']"
    by (simp add: bench_fields_def bench_field_results_def field_inits)
  then obtain f where "f \<in> set bench_fields" "original_name f = req" "field_default f = None"
    using assms(2) by (auto simp: list_all_iff)
  then show "BenchParameters_from_dict (dict_pop req obj) = Inl ConfigError"
    unfolding BenchParameters_from_dict_def by (intro bp.from_dict_missing) auto
qed

theorem bench_parameters_keys_witness:
  "BenchParameters_from_dict (dict_set ''comment'' (VStr ''x'') single_fault_example) =
     Inr single_fault_params \<and>
   BenchParameters_from_dict (dict_pop ''rate'' single_fault_example) = Inl ConfigError"
proof -
  have h: "''comment'' \<notin> set (map original_name bench_fields)" by (simp add: bench_field_names)
  show ?thesis
    using bench_parameters_keys [OF h, of "''rate''" "VStr ''x''" single_fault_example]
    by (simp add: single_fault_loads)
qed

end
