(* ===== verification/Run_Result.thy ===== *)
theory Run_Result
  imports Node_Logs Bench_Config
begin

text \<open>
  The results of one run (\<open>RunResult\<close> of \<open>logs.py\<close>): throughput, latencies, block sizes, and
  the rows appended to the two CSV files.
\<close>

section \<open>Statistics and rounding\<close>

text \<open>\<open>round\<close> rounds to the nearest integer, ties to the even one.\<close>

definition py_round :: "'a::floor_ceiling \<Rightarrow> int" where
  "py_round x =
     (let f = \<lfloor>x\<rfloor>; r = x - of_int f
      in if 2 * r < 1 then f else if 2 * r > 1 then f + 1 else if even f then f else f + 1)"

definition py_round_digits :: "nat \<Rightarrow> rat \<Rightarrow> rat" where
  "py_round_digits n x = rat_of_int (py_round (x * 10 ^ n)) / 10 ^ n"

text \<open>\<open>statistics.mean\<close> and \<open>statistics.stdev\<close>.\<close>

definition py_mean :: "rat list \<Rightarrow> rat result" where
  "py_mean xs = (if xs = [] then Inl StatisticsError else Inr (sum_list xs / of_nat (length xs)))"

definition sample_variance :: "rat list \<Rightarrow> rat" where
  "sample_variance xs =
     (let m = sum_list xs / of_nat (length xs)
      in sum_list (map (\<lambda>x. (x - m) ^ 2) xs) / (of_nat (length xs) - 1))"

definition py_stdev :: "rat list \<Rightarrow> real result" where
  "py_stdev xs =
     (if length xs < 2 then Inl StatisticsError else Inr (sqrt (real_of_rat (sample_variance xs))))"

section \<open>Figures of a run\<close>

record run_result =
  bench_parameters :: inst
  node_logs :: "node_log list"

definition time_intervals :: "run_result \<Rightarrow> time_intervals option result" where
  "time_intervals rr =
     rbind (primary_logs (node_logs rr)) (\<lambda>pl.
       case pl of None \<Rightarrow> Inr None | Some nl \<Rightarrow> parse_time_intervals nl)"

text \<open>\<open>self.node_logs.start + self.bench_parameters.warmup_duration\<close>\<close>

definition warm_start :: "run_result \<Rightarrow> rat result" where
  "warm_start rr =
     rbind (run_start (node_logs rr)) (\<lambda>s.
     rbind (bench_num ''warmup_duration'' (bench_parameters rr)) (\<lambda>w. Inr (s + w)))"

definition consensus_block_throughput :: "run_result \<Rightarrow> rat result" where
  "consensus_block_throughput rr =
     rbind (warm_start rr) (\<lambda>nb.
       let executes = get_earliest_executes_by_height (node_logs rr) nb
       in if length executes = 0 then Inr 0
          else rbind (warm_start rr) (\<lambda>start.
               rbind (run_end (node_logs rr)) (\<lambda>fin.
                 let duration = fin - start
                 in if duration = 0 then Inl ZeroDivisionError
                    else Inr (of_nat (length executes) / duration))))"

definition latency_at_fault_height :: "run_result \<Rightarrow> rat result" where
  "latency_at_fault_height rr =
     rbind (bench_attr ''fault_time'' (bench_parameters rr)) (\<lambda>ft.
       if ft = VNone then Inr 0
       else let executes = get_earliest_executes_by_height (node_logs rr) 0;
                requests = get_earliest_requests_by_height (node_logs rr) 0
            in rbind (get_fault_height (node_logs rr)) (\<lambda>fh.
               rbind (dict_index executes (fh + 1)) (\<lambda>e.
               rbind (dict_index requests (fh + 1)) (\<lambda>r.
                 Inr (log_timestamp e - true_request_time r)))))"

text \<open>
  The two latency properties share the comprehension over the executed heights and the two
  assertions that follow it.
\<close>

definition latencies_since ::
  "(log_event \<Rightarrow> rat) \<Rightarrow> (int, log_event) dict \<Rightarrow> (int, log_event) dict \<Rightarrow> (int, rat) dict result" where
  "latencies_since t from_events executes =
     (let lat = dict_of (List.map_filter (\<lambda>(h, e).
            map_option (\<lambda>r. (h, log_timestamp e - t r)) (dict_get from_events h)) executes)
      in rbind (py_assert (list_all (\<lambda>l. l \<ge> 0) (dict_values lat))) (\<lambda>_.
         rbind (py_assert (0 < length lat)) (\<lambda>_. Inr lat)))"

definition consensus_block_latencies_by_height :: "run_result \<Rightarrow> (int, rat) dict result" where
  "consensus_block_latencies_by_height rr =
     rbind (warm_start rr) (\<lambda>nb.
       latencies_since true_request_time (get_earliest_requests_by_height (node_logs rr) nb)
         (get_earliest_executes_by_height (node_logs rr) nb))"

definition consensus_block_latencies_from_preprepare_by_height ::
  "run_result \<Rightarrow> (int, rat) dict result" where
  "consensus_block_latencies_from_preprepare_by_height rr =
     rbind (warm_start rr) (\<lambda>nb.
       latencies_since log_timestamp (get_earliest_preprepare_by_height (node_logs rr) nb)
         (get_earliest_executes_by_height (node_logs rr) nb))"

definition blocksize_by_height :: "run_result \<Rightarrow> (int, int) dict result" where
  "blocksize_by_height rr =
     rbind (warm_start rr) (\<lambda>nb.
       let sizes = map (\<lambda>(h, e). (h, block_size e))
             (get_earliest_start_submit_block_by_height (node_logs rr) nb)
       in rbind (py_assert (list_all (\<lambda>s. s \<ge> 0) (dict_values sizes))) (\<lambda>_.
          rbind (py_assert (0 < length sizes)) (\<lambda>_. Inr sizes)))"

definition consensus_block_latencies :: "run_result \<Rightarrow> rat list result" where
  "consensus_block_latencies rr =
     rbind (consensus_block_latencies_by_height rr) (\<lambda>d. Inr (dict_values d))"

definition consensus_block_latencies_from_preprepare :: "run_result \<Rightarrow> rat list result" where
  "consensus_block_latencies_from_preprepare rr =
     rbind (consensus_block_latencies_from_preprepare_by_height rr) (\<lambda>d. Inr (dict_values d))"

definition true_duration :: "run_result \<Rightarrow> rat result" where
  "true_duration rr =
     rbind (run_end (node_logs rr)) (\<lambda>e. rbind (run_start (node_logs rr)) (\<lambda>s. Inr (e - s)))"

definition mean_latency :: "run_result \<Rightarrow> rat result" where
  "mean_latency rr = rbind (consensus_block_latencies rr) py_mean"

definition std_latency :: "run_result \<Rightarrow> real result" where
  "std_latency rr = rbind (consensus_block_latencies rr) py_stdev"

section \<open>CSV rows\<close>

datatype cell = CStr string | CVal py_val | CInt int | CFloat rat | CNaN

definition RESULT_HEADERS :: "string list" where
  "RESULT_HEADERS =
     [''Nodes'', ''Faults'', ''Target Block Time'', ''Rate'', ''Genesis hours in the past'',
      ''Tx size'', ''Execution time'', ''Warm-up time'', ''Consensus blocks/s'',
      ''Consensus block latency'', ''Consensus block latency std'', ''Latency at fault height'',
      ''Time for FBFT'', ''Time for ROAST'', ''Time for Bitcoin'']"

definition HEIGHT_HEADERS :: "string list" where
  "HEIGHT_HEADERS =
     [''Nodes'', ''Faults'', ''Protocol'', ''Target Block Time'', ''Rate'',
      ''Genesis hours in the past'', ''Tx size'', ''Height'', ''Blocksize'',
      ''Latency (from request)'', ''Latency (from preprepare)'', ''Time spent in FBFT'',
      ''Time spent in ROAST'', ''Time spent in Bitcoin'']"

definition config_cells :: "inst \<Rightarrow> cell list result" where
  "config_cells p =
     rmap (\<lambda>name. rbind (bench_attr name p) (\<lambda>v. Inr (CVal v)))
       [''nodes'', ''faults'', ''target_block_time'', ''rate'', ''genesis_hours_in_the_past'', ''tx_size'']"

definition csv_summary_row :: "run_result \<Rightarrow> cell list result" where
  "csv_summary_row rr =
     rbind (time_intervals rr) (\<lambda>ti.
     rbind (case ti of None \<Rightarrow> Inr (\<lambda>k. CNaN)
            | Some tis \<Rightarrow> rbind (warm_start rr) (\<lambda>nb.
                rbind (get_cumulative_time_by_interval_type tis nb) (\<lambda>sm.
                  Inr (\<lambda>k. CFloat (dget0 sm k))))) (\<lambda>spent.
     rbind (config_cells (bench_parameters rr)) (\<lambda>cfg.
     rbind (true_duration rr) (\<lambda>dur.
     rbind (bench_num ''warmup_duration'' (bench_parameters rr)) (\<lambda>w.
     rbind (consensus_block_throughput rr) (\<lambda>thr.
     rbind (mean_latency rr) (\<lambda>mean.
     rbind (std_latency rr) (\<lambda>std.
     rbind (latency_at_fault_height rr) (\<lambda>lf.
       Inr (cfg @ [CInt (py_round dur), CInt (py_round w), CFloat (py_round_digits 5 thr),
            CInt (py_round (mean * 1000)), CInt (py_round (std * 1000)), CInt (py_round (lf * 1000)),
            spent FBFT, spent ROAST, spent BITCOIN]))))))))))"

text \<open>A file of rows, \<open>None\<close> where it does not exist; it is opened for appending.\<close>

type_synonym csv_file = "cell list list option"

definition csv_append :: "string list \<Rightarrow> cell list list \<Rightarrow> csv_file \<Rightarrow> csv_file" where
  "csv_append headers rows f =
     Some (case f of None \<Rightarrow> map CStr headers # rows | Some old \<Rightarrow> old @ rows)"

definition csv_summary :: "run_result \<Rightarrow> csv_file \<Rightarrow> csv_file result" where
  "csv_summary rr f = rbind (csv_summary_row rr) (\<lambda>row. Inr (csv_append RESULT_HEADERS [row] f))"

text \<open>
  \<open>csv_summary_by_height\<close>: one row per height that has both latencies and a block size. The
  iteration order of the set of heights is the argument \<open>ord\<close>.
\<close>

definition height_row ::
  "run_result \<Rightarrow> time_intervals option \<Rightarrow> (int, rat) dict \<Rightarrow> (int, rat) dict \<Rightarrow> (int, int) dict \<Rightarrow>
   int \<Rightarrow> cell list result" where
  "height_row rr ti req prep sizes h =
     (let d = (case ti of None \<Rightarrow> None | Some tis \<Rightarrow> dict_get tis h)
      in rbind (dict_index req h) (\<lambda>rl.
         rbind (dict_index prep h) (\<lambda>pl.
         rbind (config_cells (bench_parameters rr)) (\<lambda>cfg.
         rbind (case d of None \<Rightarrow> Inr [CNaN, CNaN, CNaN]
                | Some iv \<Rightarrow> rmap (\<lambda>k. rbind (dict_index iv k) (\<lambda>i. Inr (CFloat (interval_diff i))))
                    [FBFT, ROAST, BITCOIN]) (\<lambda>spent.
           Inr (cfg @ [CInt h, (case dict_get sizes h of None \<Rightarrow> CNaN | Some s \<Rightarrow> CInt s),
                CFloat rl, CFloat pl] @ spent))))))"

definition csv_by_height_rows :: "(int set \<Rightarrow> int list) \<Rightarrow> run_result \<Rightarrow> cell list list result" where
  "csv_by_height_rows ord rr =
     rbind (time_intervals rr) (\<lambda>ti.
     rbind (consensus_block_latencies_by_height rr) (\<lambda>req.
     rbind (consensus_block_latencies_from_preprepare_by_height rr) (\<lambda>prep.
     rbind (blocksize_by_height rr) (\<lambda>sizes.
       rmap (height_row rr ti req prep sizes)
         (ord (set (dict_keys prep) \<inter> set (dict_keys req) \<inter> set (dict_keys sizes)))))))"

definition csv_summary_by_height :: "(int set \<Rightarrow> int list) \<Rightarrow> run_result \<Rightarrow> csv_file \<Rightarrow> csv_file result" where
  "csv_summary_by_height ord rr f =
     rbind (csv_by_height_rows ord rr) (\<lambda>rows. Inr (csv_append HEIGHT_HEADERS rows f))"

section \<open>Latencies\<close>

lemma map_filter_keys:
  "map fst (List.map_filter (\<lambda>(h, e). map_option (\<lambda>r. (h, f e r)) (g h)) d) =
     filter (\<lambda>h. g h \<noteq> None) (map fst d)"
  by (induction d) (auto simp: map_filter_simps split: option.splits)

lemma map_of_map_filter:
  "map_of (List.map_filter (\<lambda>(h, e). map_option (\<lambda>r. (h, f e r)) (g h)) d) h =
     (case map_of d h of None \<Rightarrow> None | Some e \<Rightarrow> map_option (f e) (g h))"
  by (induction d) (auto simp: map_filter_simps split: option.splits)

lemma latencies_since_Inr:
  assumes "latencies_since t from_events executes = Inr lat" and "dict_ok executes"
  shows "dict_ok lat" and "lat \<noteq> []" and "\<And>h l. (h, l) \<in> set lat \<Longrightarrow> 0 \<le> l"
    and "\<And>h. dict_get lat h = (case dict_get executes h of None \<Rightarrow> None
           | Some e \<Rightarrow> map_option (\<lambda>r. log_timestamp e - t r) (dict_get from_events h))"
proof -
  let ?mf = "List.map_filter (\<lambda>(h, e).
            map_option (\<lambda>r. (h, log_timestamp e - t r)) (dict_get from_events h)) executes"
  have "distinct (map fst ?mf)"
    using assms(2) by (simp add: map_filter_keys dict_ok_def)
  then have lat: "dict_of ?mf = ?mf" by (rule dict_of_distinct)
  from assms(1) have eq: "lat = ?mf" and all: "list_all (\<lambda>l. l \<ge> 0) (dict_values ?mf)" and "?mf \<noteq> []"
    by (auto simp: latencies_since_def Let_def rbind_eq_Inr lat)
  then show "lat \<noteq> []" by simp
  show "dict_ok lat" unfolding eq dict_ok_def by fact
  show "(h, l) \<in> set lat \<Longrightarrow> 0 \<le> l" for h l
    using all unfolding eq list_all_iff dict_values_def by force
  show "dict_get lat h = (case dict_get executes h of None \<Rightarrow> None
      | Some e \<Rightarrow> map_option (\<lambda>r. log_timestamp e - t r) (dict_get from_events h))" for h
    unfolding eq by (rule map_of_map_filter)
qed

text \<open>Consensus latencies are what they are named after. If the latencies of a run can be
  computed, there is at least one; each height has one entry, which is not negative and is the
  difference between the earliest execution of that height on any replica and the true time of
  the earliest received request of that height; both belong to the measured part of the run (no
  execution or request of that height happened before the end of the warm-up); and a height is
  left out only if one of the two is missing or too early.\<close>

theorem block_latencies_sound:
  assumes "consensus_block_latencies_by_height rr = Inr lat" and "warm_start rr = Inr nb"
  shows "lat \<noteq> [] \<and> dict_ok lat \<and>
     (\<forall>h l. (h, l) \<in> set lat \<longrightarrow> 0 \<le> l \<and>
        (\<exists>e r. (h, e) \<in> set (all_events (node_logs rr) ExecuteActionLog) \<and>
               (h, r) \<in> set (all_events (node_logs rr) ReceiveRequestsLog) \<and>
               l = log_timestamp e - true_request_time r \<and>
               (\<forall>x. (h, x) \<in> set (all_events (node_logs rr) ExecuteActionLog) \<longrightarrow>
                  nb \<le> event_time x \<and> log_timestamp e \<le> log_timestamp x) \<and>
               (\<forall>x. (h, x) \<in> set (all_events (node_logs rr) ReceiveRequestsLog) \<longrightarrow>
                  nb \<le> event_time x \<and> log_timestamp r \<le> log_timestamp x))) \<and>
     (\<forall>h. dict_get lat h = None \<longleftrightarrow>
        dict_get (get_earliest_executes_by_height (node_logs rr) nb) h = None \<or>
        dict_get (get_earliest_requests_by_height (node_logs rr) nb) h = None)"
proof -
  let ?ex = "get_earliest_executes_by_height (node_logs rr) nb"
  let ?rq = "get_earliest_requests_by_height (node_logs rr) nb"
  have run: "latencies_since true_request_time ?rq ?ex = Inr lat"
    using assms by (simp add: consensus_block_latencies_by_height_def)
  have exok: "dict_ok ?ex"
    unfolding get_earliest_executes_by_height_def by (rule get_earliest_eq)
  note ok = latencies_since_Inr(1) [OF run exok] and ne = latencies_since_Inr(2) [OF run exok]
    and nonneg = latencies_since_Inr(3) [OF run exok] and get = latencies_since_Inr(4) [OF run exok]
  have "\<exists>e r. (h, e) \<in> set (all_events (node_logs rr) ExecuteActionLog) \<and>
               (h, r) \<in> set (all_events (node_logs rr) ReceiveRequestsLog) \<and>
               l = log_timestamp e - true_request_time r \<and>
               (\<forall>x. (h, x) \<in> set (all_events (node_logs rr) ExecuteActionLog) \<longrightarrow>
                  nb \<le> event_time x \<and> log_timestamp e \<le> log_timestamp x) \<and>
               (\<forall>x. (h, x) \<in> set (all_events (node_logs rr) ReceiveRequestsLog) \<longrightarrow>
                  nb \<le> event_time x \<and> log_timestamp r \<le> log_timestamp x)"
    if "(h, l) \<in> set lat" for h l
  proof -
    from dict_ok_get [OF ok that] get [of h] obtain e r
      where e: "dict_get ?ex h = Some e" and r: "dict_get ?rq h = Some r"
        and l: "l = log_timestamp e - true_request_time r"
      by (auto split: option.splits)
    from get_earliest_SomeD [OF e [unfolded get_earliest_executes_by_height_def]]
      get_earliest_SomeD [OF r [unfolded get_earliest_requests_by_height_def]] l
    show ?thesis by blast
  qed
  moreover have "dict_get lat h = None \<longleftrightarrow> dict_get ?ex h = None \<or> dict_get ?rq h = None" for h
    by (simp add: get split: option.splits)
  ultimately show ?thesis using ok ne nonneg by blast
qed

definition example_node :: node_log where
  "example_node =
     \<lparr>raw_log = ''R0 applying <EXECUTE, Request'',
      events_by_type_by_height =
        [(ReceiveRequestsLog, [(7, ReceiveRequests 10 0 9 7), (8, ReceiveRequests 20 0 19 8)]),
         (ExecuteActionLog, [(7, ExecuteAction 12 0 9 7 0 7), (8, ExecuteAction 25 0 19 8 0 8)]),
         (SendPrePrepareLog, [(7, ExecuteAction 11 0 9 7 0 7)]),
         (StartSubmitBlock, [(7, StartSubmit 13 0 7 250 ''ab'')])],
      fault_height = 0, node_config = []\<rparr>"

definition no_fault_params :: inst where
  "no_fault_params =
     [(''nodes'', VInt 4), (''clients'', VInt 1), (''warmup_duration'', VInt 0), (''rate'', VFloat 0),
      (''tx_size'', VInt 4096), (''genesis_hours_in_the_past'', VFloat 0),
      (''target_block_time'', VInt 60), (''duration'', VInt 180), (''runs'', VInt 1),
      (''faults'', VInt 0), (''fault_time'', VNone)]"

definition example_run :: run_result where
  "example_run = \<lparr>bench_parameters = no_fault_params, node_logs = [example_node]\<rparr>"

lemma example_warm_start: "warm_start example_run = Inr 10"
  by (simp add: warm_start_def example_run_def example_node_def run_start_def requests_by_height_def
      dict_index_def dict_values_def py_min_def bench_num_def bench_attr_def bench_fields_def
      bench_field_results_def field_inits field_get_def no_fault_params_def)

lemma example_earliest:
  "get_earliest_executes_by_height (node_logs example_run) 10 =
     [(7, ExecuteAction 12 0 9 7 0 7), (8, ExecuteAction 25 0 19 8 0 8)]"
  "get_earliest_requests_by_height (node_logs example_run) 10 =
     [(7, ReceiveRequests 10 0 9 7), (8, ReceiveRequests 20 0 19 8)]"
  by (simp_all add: example_run_def example_node_def get_earliest_executes_by_height_def
      get_earliest_requests_by_height_def get_earliest_log_event_by_height_def events_of_def
      earliest_step_def event_time_def true_request_time_def dict_set_def)

lemma example_latencies: "consensus_block_latencies_by_height example_run = Inr [(7, 2), (8, 5)]"
  by (simp add: consensus_block_latencies_by_height_def example_warm_start example_earliest
      latencies_since_def map_filter_simps dict_of_def dict_set_def true_request_time_def dict_values_def)

theorem block_latencies_sound_witness:
  "consensus_block_latencies_by_height example_run = Inr [(7, 2), (8, 5)] \<and>
   warm_start example_run = Inr 10 \<and> dict_ok [(7::int, 2::rat), (8, 5)]"
  using block_latencies_sound [OF example_latencies example_warm_start] example_latencies
    example_warm_start by blast

section \<open>Throughput\<close>

text \<open>All logs of the run came out of the parser (see \<open>node_log_well_formed\<close>).\<close>

definition run_wf :: "run_result \<Rightarrow> bool" where
  "run_wf rr = list_all (\<lambda>nl. events_wf (events_by_type_by_height nl)) (node_logs rr)"

lemma all_events_wf:
  assumes "run_wf rr" and "(h, e) \<in> set (all_events (node_logs rr) cls)"
  shows "event_wf cls e" and "block_height e = h"
  using assms unfolding run_wf_def list_all_iff all_events_def events_wf_def
  by (auto dest!: dict_ok_get [rotated])

lemma execute_event_time:
  assumes "run_wf rr" and "(h, e) \<in> set (all_events (node_logs rr) ExecuteActionLog)"
  shows "event_time e = log_timestamp e"
  using all_events_wf [OF assms] by (auto simp: event_wf_def event_time_def)

lemma executes_after_warm_start:
  assumes "run_wf rr" and "run_end (node_logs rr) = Inr fin"
    and "get_earliest_executes_by_height (node_logs rr) nb \<noteq> []"
  shows "nb \<le> fin"
proof -
  let ?ex = "get_earliest_log_event_by_height (node_logs rr) ExecuteActionLog nb"
  obtain h e where "(h, e) \<in> set ?ex"
    using assms(3) unfolding get_earliest_executes_by_height_def by (cases ?ex) auto
  then have "dict_get ?ex h = Some e" by (rule dict_ok_get [OF get_earliest_eq(1)])
  note D = get_earliest_SomeD [OF this]
  show ?thesis
    using D(2) [OF D(1)] run_end_ge [OF assms(2) D(1)] execute_event_time [OF assms(1) D(1)] by simp
qed

text \<open>Throughput. For logs that came out of the parser, the throughput of a run is 0 when no
  height was executed in the measured part, and otherwise it is positive and equals the number of
  measured heights divided by the time between the end of the warm-up and the last execution; the
  division fails only if those two instants coincide.\<close>

theorem throughput_exact:
  assumes "run_wf rr" and "warm_start rr = Inr nb" and "run_end (node_logs rr) = Inr fin"
  shows "consensus_block_throughput rr =
       (let n = length (get_earliest_executes_by_height (node_logs rr) nb)
        in if n = 0 then Inr 0
           else if fin = nb then Inl ZeroDivisionError else Inr (of_nat n / (fin - nb))) \<and>
     (\<forall>x. consensus_block_throughput rr = Inr x \<longrightarrow> 0 \<le> x \<and>
        (x = 0 \<longleftrightarrow> get_earliest_executes_by_height (node_logs rr) nb = []))"
proof -
  have eq: "consensus_block_throughput rr =
       (let n = length (get_earliest_executes_by_height (node_logs rr) nb)
        in if n = 0 then Inr 0
           else if fin = nb then Inl ZeroDivisionError else Inr (of_nat n / (fin - nb)))"
    by (simp add: consensus_block_throughput_def assms Let_def)
  have "0 \<le> x \<and> (x = 0 \<longleftrightarrow> get_earliest_executes_by_height (node_logs rr) nb = [])"
    if "consensus_block_throughput rr = Inr x" for x
    using that executes_after_warm_start [OF assms(1,3), of nb]
    by (auto simp: eq Let_def split: if_splits)
  with eq show ?thesis by blast
qed

lemma example_run_wf: "run_wf example_run"
proof -
  have "events_of (events_by_type_by_height example_node) cls =
      (case cls of ReceiveRequestsLog \<Rightarrow> [(7, ReceiveRequests 10 0 9 7), (8, ReceiveRequests 20 0 19 8)]
        | ExecuteActionLog \<Rightarrow> [(7, ExecuteAction 12 0 9 7 0 7), (8, ExecuteAction 25 0 19 8 0 8)]
        | SendPrePrepareLog \<Rightarrow> [(7, ExecuteAction 11 0 9 7 0 7)]
        | StartSubmitBlock \<Rightarrow> [(7, StartSubmit 13 0 7 250 ''ab'')]
        | _ \<Rightarrow> [])" for cls
    by (cases cls) (simp_all add: example_node_def events_of_def)
  then show ?thesis
    by (auto simp: run_wf_def example_run_def events_wf_def event_wf_def dict_ok_def example_node_def
        split: event_cls.splits if_splits)
qed

lemma example_run_end: "run_end (node_logs example_run) = Inr 25"
  by (simp add: run_end_def example_run_def example_node_def executes_by_height_def events_of_def
      dict_values_def py_max_def)

theorem throughput_exact_witness:
  "run_wf example_run \<and> warm_start example_run = Inr 10 \<and>
   run_end (node_logs example_run) = Inr 25 \<and> consensus_block_throughput example_run = Inr (2 / 15)"
  using throughput_exact [OF example_run_wf example_warm_start example_run_end]
    example_run_wf example_warm_start example_run_end
  by (simp add: example_earliest)

section \<open>The CSV files\<close>

lemma config_cells_length: "config_cells p = Inr cs \<Longrightarrow> length cs = 6"
  unfolding config_cells_def by (drule rmap_length) simp

lemma csv_summary_Inr:
  "csv_summary rr f = Inr f' \<longleftrightarrow>
     (\<exists>row. csv_summary_row rr = Inr row \<and> f' = csv_append RESULT_HEADERS [row] f)"
  by (auto simp: csv_summary_def rbind_eq_Inr)

lemma csv_summary_row_length: "csv_summary_row rr = Inr row \<Longrightarrow> length row = length RESULT_HEADERS"
  by (auto simp: csv_summary_row_def rbind_eq_Inr RESULT_HEADERS_def dest!: config_cells_length)

lemma height_row_length: "height_row rr ti req prep sizes h = Inr row \<Longrightarrow> length row = 13"
  unfolding height_row_def Let_def rbind_eq_Inr
  by (auto dest!: config_cells_length simp: rbind_eq_Inr split: option.splits)

lemma rfold_csv_summary:
  "rfold csv_summary rrs (Some old) = Inr f \<Longrightarrow>
     \<exists>rows. f = Some (old @ rows) \<and> length rows = length rrs \<and>
       (\<forall>row \<in> set rows. length row = length RESULT_HEADERS)"
proof (induction rrs arbitrary: old)
  case (Cons rr rrs)
  then obtain row where row: "csv_summary_row rr = Inr row"
    and "rfold csv_summary rrs (Some (old @ [row])) = Inr f"
    by (auto simp: rbind_eq_Inr csv_summary_Inr csv_append_def)
  from Cons.IH [OF this(2)] obtain rows where "f = Some ((old @ [row]) @ rows)"
    "length rows = length rrs" "\<forall>row \<in> set rows. length row = length RESULT_HEADERS" by blast
  with csv_summary_row_length [OF row] show ?case by (intro exI [of _ "row # rows"]) auto
qed simp

text \<open>The results file is a table. Writing the summaries of any sequence of runs to a file
  that did not exist yields the header once, at the top, followed by one row per run, and every
  row has exactly as many cells as the header has columns.\<close>

theorem csv_summary_table:
  assumes "rfold csv_summary rrs None = Inr f" and "rrs \<noteq> []"
  shows "\<exists>rows. f = Some (map CStr RESULT_HEADERS # rows) \<and> length rows = length rrs \<and>
     (\<forall>row \<in> set rows. length row = length RESULT_HEADERS)"
proof -
  obtain rr rest where rrs: "rrs = rr # rest" using assms(2) by (cases rrs) auto
  with assms(1) obtain row where row: "csv_summary_row rr = Inr row"
    and "rfold csv_summary rest (Some [map CStr RESULT_HEADERS, row]) = Inr f"
    by (auto simp: rbind_eq_Inr csv_summary_Inr csv_append_def)
  from rfold_csv_summary [OF this(2)] csv_summary_row_length [OF row] rrs show ?thesis
    by auto
qed

lemma example_bench_attrs:
  "bench_attr ''nodes'' no_fault_params = Inr (VInt 4)"
  "bench_attr ''faults'' no_fault_params = Inr (VInt 0)"
  "bench_attr ''target_block_time'' no_fault_params = Inr (VInt 60)"
  "bench_attr ''rate'' no_fault_params = Inr (VFloat 0)"
  "bench_attr ''genesis_hours_in_the_past'' no_fault_params = Inr (VFloat 0)"
  "bench_attr ''tx_size'' no_fault_params = Inr (VInt 4096)"
  "bench_attr ''warmup_duration'' no_fault_params = Inr (VInt 0)"
  "bench_attr ''fault_time'' no_fault_params = Inr VNone"
  by (simp_all add: bench_attr_def bench_fields_def bench_field_results_def field_inits
      field_get_def no_fault_params_def)

lemma example_time_intervals: "time_intervals example_run = Inr None"
  by (simp add: time_intervals_def example_run_def primary_logs_def no_view_change_def primaries_def
      example_node_def is_primary_def parse_time_intervals_def interval_event_types_def)

lemma example_csv_row: "\<exists>row. csv_summary_row example_run = Inr row"
proof -
  have "true_duration example_run = Inr 15"
    by (simp add: true_duration_def example_run_end) (simp add: example_run_def example_node_def
        run_start_def requests_by_height_def dict_index_def dict_values_def py_min_def)
  moreover have "consensus_block_latencies example_run = Inr [2, 5]"
    by (simp add: consensus_block_latencies_def example_latencies dict_values_def)
  moreover have "consensus_block_throughput example_run = Inr (2 / 15)"
    by (simp add: consensus_block_throughput_def example_warm_start example_earliest example_run_end)
  moreover have "bench_parameters example_run = no_fault_params" by (simp add: example_run_def)
  ultimately show ?thesis
    by (simp add: csv_summary_row_def example_time_intervals config_cells_def example_bench_attrs
        bench_num_def mean_latency_def std_latency_def py_mean_def py_stdev_def
        latency_at_fault_height_def)
qed

theorem csv_summary_table_witness:
  "\<exists>row rows. rfold csv_summary [example_run, example_run] None = Inr (Some (map CStr RESULT_HEADERS # rows)) \<and>
     rows = [row, row] \<and> length row = 15"
proof -
  obtain row where row: "csv_summary_row example_run = Inr row" using example_csv_row ..
  then have run: "rfold csv_summary [example_run, example_run] None =
      Inr (Some [map CStr RESULT_HEADERS, row, row])"
    by (simp add: csv_summary_def csv_append_def)
  from csv_summary_table [OF this] have "length row = length RESULT_HEADERS" by simp
  with run show ?thesis by (auto simp: RESULT_HEADERS_def)
qed

text \<open>The file of results by height is misaligned. Its header has a column \<open>Protocol\<close> for
  which no row has a cell: every data row is exactly one cell shorter than the header, so all
  columns from the third on are shifted.\<close>

theorem csv_by_height_misaligned:
  assumes "csv_by_height_rows ord rr = Inr rows" and "row \<in> set rows"
  shows "Suc (length row) = length HEIGHT_HEADERS"
proof -
  from assms obtain ti req prep sizes h where "height_row rr ti req prep sizes h = Inr row"
    by (auto simp: csv_by_height_rows_def rbind_eq_Inr rmap_Inr_iff dest: list_all2_in_right)
  then show ?thesis using height_row_length by (simp add: HEIGHT_HEADERS_def)
qed

lemma example_height_rows:
  "csv_by_height_rows (\<lambda>S. if 7 \<in> S then [7] else []) example_run =
     Inr [[CVal (VInt 4), CVal (VInt 0), CVal (VInt 60), CVal (VFloat 0), CVal (VFloat 0),
           CVal (VInt 4096), CInt 7, CInt 250, CFloat 2, CFloat 1, CNaN, CNaN, CNaN]]"
proof -
  have prep: "consensus_block_latencies_from_preprepare_by_height example_run = Inr [(7, 1)]"
    by (simp add: consensus_block_latencies_from_preprepare_by_height_def example_warm_start
        example_earliest latencies_since_def get_earliest_preprepare_by_height_def
        get_earliest_log_event_by_height_def)
      (simp add: example_run_def example_node_def events_of_def earliest_step_def event_time_def
        dict_set_def map_filter_simps dict_of_def dict_values_def)
  have "blocksize_by_height example_run = Inr [(7, 250)]"
    by (simp add: blocksize_by_height_def example_warm_start
        get_earliest_start_submit_block_by_height_def get_earliest_log_event_by_height_def)
      (simp add: example_run_def example_node_def events_of_def earliest_step_def event_time_def
        dict_set_def dict_values_def)
  moreover have "bench_parameters example_run = no_fault_params" by (simp add: example_run_def)
  ultimately show ?thesis
    by (simp add: csv_by_height_rows_def example_time_intervals example_latencies prep dict_keys_def
        height_row_def config_cells_def example_bench_attrs dict_index_def)
qed

theorem csv_by_height_misaligned_witness:
  "\<exists>row. csv_by_height_rows (\<lambda>S. if 7 \<in> S then [7] else []) example_run = Inr [row] \<and>
     length row = 13 \<and> length HEIGHT_HEADERS = 14"
  using csv_by_height_misaligned [OF example_height_rows] example_height_rows
  by (simp add: HEIGHT_HEADERS_def)

end
