(* ===== verification/Log_Parser.thy ===== *)
theory Log_Parser
  imports Run_Result
begin

text \<open>
  The client logs, \<open>LogParser\<close> and \<open>ExperimentResult\<close> of \<open>logs.py\<close>: from the directory of a
  run to its result.
\<close>

section \<open>Client logs\<close>

record tx_log =
  submitted_timestamp :: rat
  mempool_timestamp :: rat
  finalized_timestamp :: rat
  tx_number :: int
  tx_hash :: string
  tx_size :: int

record client_log =
  tx_logs :: "tx_log list"
  client_start :: rat
  client_size :: int
  client_rate :: rat

definition UNDEFINED_TIMESTAMP :: rat where
  "UNDEFINED_TIMESTAMP = -1"

definition tx_sizes :: "client_log list \<Rightarrow> int list" where
  "tx_sizes logs = map client_size logs"

definition size_re :: regex where
  "size_re = [Lit ''Transactions size: '', digits_cap]"

definition rate_re :: regex where
  "rate_re = [Lit ''Transactions rate: '', digits_cap]"

definition start_re :: regex where
  "start_re = [Lit ''['', dot_lazy_cap, Lit '']'', dot_star, Lit ''Start sending transactions'']"

definition sending_re :: regex where
  "sending_re = [Lit ''['', dot_lazy_cap, Lit ''] '', dot_star, Lit ''Sending transaction number '',
     digits_cap, Lit '' with hash '', dot_star_cap, Lit '' of size '', dot_star_cap]"

definition seen_re :: regex where
  "seen_re = [Lit ''['', dot_lazy_cap, Lit ''] '', dot_star, Lit ''seqnumber: '', dot_star,
     Lit '', tx hash='', dot_star_cap]"

definition new_tx_log :: "string list \<Rightarrow> (int \<times> tx_log) result" where
  "new_tx_log g =
     rbind (py_int (g ! 1)) (\<lambda>k.
     rbind (to_posix (g ! 0)) (\<lambda>t.
     rbind (py_int (g ! 1)) (\<lambda>n.
     rbind (py_int (g ! 3)) (\<lambda>sz.
       Inr (k, \<lparr>submitted_timestamp = t, mempool_timestamp = UNDEFINED_TIMESTAMP,
                finalized_timestamp = UNDEFINED_TIMESTAMP, tx_number = n, tx_hash = g ! 2,
                tx_size = sz\<rparr>)))))"

text \<open>
  One notification: the first one of a transaction is its entry into the mempool, the second its
  inclusion in a block.
\<close>

definition seen_step ::
  "(string, int) dict \<Rightarrow> string \<times> string \<Rightarrow> (int, tx_log) dict \<Rightarrow> (int, tx_log) dict result" where
  "seen_step numbers th txs =
     (case dict_get numbers (snd th) of
        None \<Rightarrow> Inr txs
      | Some n \<Rightarrow>
          rbind (dict_index txs n) (\<lambda>t.
          rbind (py_assert (tx_hash t = snd th)) (\<lambda>_.
            if mempool_timestamp t = UNDEFINED_TIMESTAMP
            then rbind (to_posix (fst th)) (\<lambda>x. Inr (dict_set n (t\<lparr>mempool_timestamp := x\<rparr>) txs))
            else rbind (py_assert (finalized_timestamp t = UNDEFINED_TIMESTAMP)) (\<lambda>_.
                 rbind (to_posix (fst th)) (\<lambda>x.
                   Inr (dict_set n (t\<lparr>finalized_timestamp := x\<rparr>) txs))))))"

definition hash_numbers :: "(int, tx_log) dict \<Rightarrow> (string, int) dict" where
  "hash_numbers txs = dict_of (map (\<lambda>t. (tx_hash t, tx_number t)) (dict_values txs))"

definition seen_rows :: "string \<Rightarrow> (string \<times> string) list" where
  "seen_rows raw = sort_key fst (map (\<lambda>g. (g ! 0, g ! 1)) (re_findall seen_re raw))"

definition parse_clients :: "string \<Rightarrow> client_log result" where
  "parse_clients raw =
     (if contains ''Error'' raw then Inl ParseError
      else
        rbind (groups size_re raw) (\<lambda>g. rbind (py_int (g ! 0)) (\<lambda>size.
        rbind (groups rate_re raw) (\<lambda>g. rbind (py_int (g ! 0)) (\<lambda>rate.
        rbind (groups start_re raw) (\<lambda>g. rbind (to_posix (g ! 0)) (\<lambda>start.
        rbind (rmap new_tx_log (re_findall sending_re raw)) (\<lambda>ps.
          let txs = dict_of ps
          in rbind (rfold (seen_step (hash_numbers txs)) (seen_rows raw) txs) (\<lambda>txs'.
             Inr \<lparr>tx_logs = sort_key tx_number (dict_values txs'), client_start = start,
                  client_size = size, client_rate = rat_of_int rate\<rparr>)))))))))"

section \<open>The parser of a run\<close>

definition parse_nodes :: "string \<Rightarrow> node_log result" where
  "parse_nodes raw = (if contains ''panic'' raw then Inl ParseError else NodeLog_init raw [])"

definition catch_parse :: "'a result \<Rightarrow> 'a result" where
  "catch_parse r = (if r = Inl ValueError \<or> r = Inl IndexError then Inl ParseError else r)"

record log_parser =
  parser_parameters :: inst
  parser_clients :: "client_log list"
  parser_rate :: rat
  parser_nodes :: "node_log list"

definition LogParser_init :: "string list \<Rightarrow> string list \<Rightarrow> inst \<Rightarrow> log_parser result" where
  "LogParser_init clients nodes params =
     rbind (py_assert (clients \<noteq> [] \<and> nodes \<noteq> [])) (\<lambda>_.
     rbind (bench_attr ''clients'' params) (\<lambda>v.
     rbind (py_assert (as_int v = Some (int (length clients)))) (\<lambda>_.
     rbind (catch_parse (rmap parse_clients clients)) (\<lambda>cls.
     rbind (catch_parse (rmap parse_nodes nodes)) (\<lambda>nls.
       Inr \<lparr>parser_parameters = params, parser_clients = cls,
            parser_rate = sum_list (map client_rate cls), parser_nodes = nls\<rparr>)))))"

text \<open>
  A run directory: text files by sub-directory and name, and the decoded content of
  \<open>bench_parameters.json\<close>. Text files are read with universal newlines.
\<close>

record run_directory =
  text_files :: "((string \<times> string) \<times> string) list"
  bench_file :: "(string, py_val) dict option"

definition glob_files :: "string \<Rightarrow> string \<Rightarrow> run_directory \<Rightarrow> (string \<times> string) list" where
  "glob_files start name rd =
     map (\<lambda>((d, f), c). (d @ ''/'' @ f, c))
       (filter (\<lambda>((d, f), c). prefix start d \<and> f = name) (text_files rd))"

definition read_sorted :: "string \<Rightarrow> string \<Rightarrow> run_directory \<Rightarrow> string list" where
  "read_sorted start name rd = map (universal_newlines \<circ> snd) (sort_key fst (glob_files start name rd))"

definition process :: "run_directory \<Rightarrow> log_parser result" where
  "process rd =
     (let clients = read_sorted ''client'' ''client_logs.txt'' rd;
          nodes = read_sorted ''node'' ''miner_logs.txt'' rd
      in case bench_file rd of
           None \<Rightarrow> Inl FileNotFoundError
         | Some obj \<Rightarrow> rbind (BenchParameters_from_dict obj) (\<lambda>params.
             LogParser_init clients nodes params))"

text \<open>\<open>LogParser.result\<close> appends to the two CSV files of the output directory.\<close>

definition parser_result ::
  "(int set \<Rightarrow> int list) \<Rightarrow> log_parser \<Rightarrow> csv_file \<times> csv_file \<Rightarrow> (run_result \<times> csv_file \<times> csv_file) result" where
  "parser_result ord lp files =
     (let rr = \<lparr>bench_parameters = parser_parameters lp, node_logs = parser_nodes lp\<rparr>
      in rbind (csv_summary rr (fst files)) (\<lambda>f.
         rbind (csv_summary_by_height ord rr (snd files)) (\<lambda>g. Inr (rr, f, g))))"

section \<open>Experiments\<close>

text \<open>\<open>ExperimentResult.from_directory\<close>: the runs in the order of their directory names.\<close>

definition run_step ::
  "(int set \<Rightarrow> int list) \<Rightarrow> string \<times> run_directory \<Rightarrow> run_result list \<times> csv_file \<times> csv_file \<Rightarrow>
   (run_result list \<times> csv_file \<times> csv_file) result" where
  "run_step ord nd st =
     rbind (process (snd nd)) (\<lambda>lp. rbind (parser_result ord lp (snd st)) (\<lambda>(rr, files).
       Inr (fst st @ [rr], files)))"

definition from_directory ::
  "(int set \<Rightarrow> int list) \<Rightarrow> (string \<times> run_directory) list \<Rightarrow> csv_file \<times> csv_file \<Rightarrow>
   (run_result list \<times> csv_file \<times> csv_file) result" where
  "from_directory ord runs files =
     rbind (rfold (run_step ord) (sort_key fst runs) ([], files)) (\<lambda>st.
     rbind (py_assert (list_all (\<lambda>rr. bench_parameters rr = bench_parameters (fst st ! 0)) (fst st))) (\<lambda>_.
       Inr st))"

definition experiment_parameters :: "run_result list \<Rightarrow> inst result" where
  "experiment_parameters rrs = (if rrs = [] then Inl IndexError else Inr (bench_parameters (rrs ! 0)))"

definition mean_latencies :: "run_result list \<Rightarrow> rat list result" where
  "mean_latencies rrs = rmap mean_latency rrs"

definition throughputs :: "run_result list \<Rightarrow> rat list result" where
  "throughputs rrs = rmap consensus_block_throughput rrs"

definition mean_mean_latency :: "run_result list \<Rightarrow> rat result" where
  "mean_mean_latency rrs = rbind (mean_latencies rrs) py_mean"

definition mean_std_latency :: "run_result list \<Rightarrow> real result" where
  "mean_std_latency rrs = rbind (mean_latencies rrs) py_stdev"

definition mean_mean_throughputs :: "run_result list \<Rightarrow> rat result" where
  "mean_mean_throughputs rrs = rbind (throughputs rrs) py_mean"

definition mean_std_throughputs :: "run_result list \<Rightarrow> real result" where
  "mean_std_throughputs rrs = rbind (throughputs rrs) py_stdev"

section \<open>Notifications\<close>

text \<open>The time stamps of the notifications of one transaction, in the order they are processed.\<close>

definition stamps_of :: "string \<Rightarrow> (string \<times> string) list \<Rightarrow> string list" where
  "stamps_of h rows = map fst (filter (\<lambda>p. snd p = h) rows)"

definition posix_or :: "string list \<Rightarrow> nat \<Rightarrow> rat" where
  "posix_or ss i = (if i < length ss then projr (to_posix (ss ! i)) else UNDEFINED_TIMESTAMP)"

definition seen_update :: "tx_log \<Rightarrow> string list \<Rightarrow> tx_log" where
  "seen_update t ss = t\<lparr>mempool_timestamp := posix_or ss 0, finalized_timestamp := posix_or ss 1\<rparr>"

lemma seen_update_simps [simp]:
  "tx_hash (seen_update t ss) = tx_hash t" "tx_number (seen_update t ss) = tx_number t"
  "mempool_timestamp (seen_update t ss) = posix_or ss 0"
  "finalized_timestamp (seen_update t ss) = posix_or ss 1"
  by (simp_all add: seen_update_def)

lemma tx_update_swap:
  "t\<lparr>finalized_timestamp := a, mempool_timestamp := b\<rparr> = t\<lparr>mempool_timestamp := b, finalized_timestamp := a\<rparr>"
  by (cases t) simp

definition fresh_txs :: "(int, tx_log) dict \<Rightarrow> bool" where
  "fresh_txs txs \<longleftrightarrow> dict_ok txs \<and> (\<forall>n t. dict_get txs n = Some t \<longrightarrow> tx_number t = n \<and>
     mempool_timestamp t = UNDEFINED_TIMESTAMP \<and> finalized_timestamp t = UNDEFINED_TIMESTAMP)"

lemma hash_numbers_get:
  assumes "dict_ok txs" and "distinct (map tx_hash (dict_values txs))"
    and "\<And>n t. dict_get txs n = Some t \<Longrightarrow> tx_number t = n"
  shows "dict_get (hash_numbers txs) h = Some n \<longleftrightarrow> (\<exists>t. dict_get txs n = Some t \<and> tx_hash t = h)"
proof -
  let ?ps = "map (\<lambda>t. (tx_hash t, tx_number t)) (dict_values txs)"
  have d: "distinct (map fst ?ps)" using assms(2) by (simp add: comp_def)
  have "dict_get (hash_numbers txs) h = Some n \<longleftrightarrow> (h, n) \<in> set ?ps"
    unfolding hash_numbers_def dict_of_distinct [OF d] using d by (rule map_of_eq_Some_iff)
  also have "\<dots> \<longleftrightarrow> (\<exists>k t. (k, t) \<in> set txs \<and> tx_hash t = h \<and> tx_number t = n)"
    by (force simp: dict_values_def)
  also have "\<dots> \<longleftrightarrow> (\<exists>t. dict_get txs n = Some t \<and> tx_hash t = h)"
  proof
    assume "\<exists>k t. (k, t) \<in> set txs \<and> tx_hash t = h \<and> tx_number t = n"
    then obtain k t where "dict_get txs k = Some t" "tx_hash t = h" "tx_number t = n"
      using dict_ok_get [OF assms(1)] by blast
    with assms(3) [of k t] show "\<exists>t. dict_get txs n = Some t \<and> tx_hash t = h" by auto
  next
    assume "\<exists>t. dict_get txs n = Some t \<and> tx_hash t = h"
    then obtain t where "dict_get txs n = Some t" "tx_hash t = h" by blast
    with assms(3) [of n t] show "\<exists>k t. (k, t) \<in> set txs \<and> tx_hash t = h \<and> tx_number t = n"
      using dict_get_Some_in [of txs n t] by blast
  qed
  finally show ?thesis .
qed

lemma stamps_of_snoc: "stamps_of h (rows @ [p]) = stamps_of h rows @ (if snd p = h then [fst p] else [])"
  by (simp add: stamps_of_def)

lemma seen_step_inv:
  assumes nums: "\<And>h n. dict_get numbers h = Some n \<longleftrightarrow> (\<exists>t. dict_get txs n = Some t \<and> tx_hash t = h)"
    and inv: "\<And>n. dict_get cur n = map_option (\<lambda>t. seen_update t (stamps_of (tx_hash t) rows)) (dict_get txs n)"
    and two: "\<And>n t. dict_get txs n = Some t \<Longrightarrow> length (stamps_of (tx_hash t) rows) \<le> 2"
    and step: "seen_step numbers p cur = Inr cur'"
    and real_time: "\<And>q. q \<in> set (rows @ [p]) \<Longrightarrow> to_posix (fst q) \<noteq> Inr UNDEFINED_TIMESTAMP"
    and posix: "\<And>q. q \<in> set rows \<Longrightarrow> dict_get numbers (snd q) \<noteq> None \<Longrightarrow> \<exists>x. to_posix (fst q) = Inr x"
    and uniq: "\<And>n m t u. dict_get txs n = Some t \<Longrightarrow> dict_get txs m = Some u \<Longrightarrow> tx_hash t = tx_hash u \<Longrightarrow> n = m"
  shows "(\<forall>n. dict_get cur' n = map_option (\<lambda>t. seen_update t (stamps_of (tx_hash t) (rows @ [p]))) (dict_get txs n)) \<and>
     (\<forall>n t. dict_get txs n = Some t \<longrightarrow> length (stamps_of (tx_hash t) (rows @ [p])) \<le> 2) \<and>
     (dict_get numbers (snd p) \<noteq> None \<longrightarrow> (\<exists>x. to_posix (fst p) = Inr x))"
proof (cases "dict_get numbers (snd p)")
  case None
  then have "tx_hash t \<noteq> snd p" if "dict_get txs n = Some t" for n t
    using nums [of "snd p" n] that by auto
  then have same: "stamps_of (tx_hash t) (rows @ [p]) = stamps_of (tx_hash t) rows"
    if "dict_get txs n = Some t" for n t using that by (fastforce simp: stamps_of_snoc)
  have "cur' = cur" using step None by (simp add: seen_step_def)
  then show ?thesis using inv two None by (auto simp: same intro!: map_option_cong)
next
  case (Some n)
  then obtain t where t: "dict_get txs n = Some t" and h: "tx_hash t = snd p" using nums by blast
  let ?ss = "stamps_of (snd p) rows"
  have cur: "dict_get cur n = Some (seen_update t ?ss)" using inv [of n] t h by simp
  have other: "tx_hash u \<noteq> snd p" if "dict_get txs m = Some u" "m \<noteq> n" for m u
    using uniq [OF t that(1)] h that(2) by auto
  have defd: "posix_or ?ss i \<noteq> UNDEFINED_TIMESTAMP" if i: "i < length ?ss" for i
  proof -
    obtain q where q: "q \<in> set rows" "snd q = snd p" "?ss ! i = fst q"
      using nth_mem [OF i] by (auto simp: stamps_of_def)
    with posix [of q] real_time [of q] Some show ?thesis using i by (auto simp: posix_or_def)
  qed
  have dflt: "posix_or ?ss i = UNDEFINED_TIMESTAMP" if "\<not> i < length ?ss" for i
    using that by (simp add: posix_or_def)
  have step': "(if posix_or ?ss 0 = UNDEFINED_TIMESTAMP
       then rbind (to_posix (fst p)) (\<lambda>x. Inr (dict_set n ((seen_update t ?ss)\<lparr>mempool_timestamp := x\<rparr>) cur))
       else rbind (py_assert (posix_or ?ss 1 = UNDEFINED_TIMESTAMP)) (\<lambda>_.
            rbind (to_posix (fst p)) (\<lambda>x. Inr (dict_set n ((seen_update t ?ss)\<lparr>finalized_timestamp := x\<rparr>) cur))))
     = Inr cur'"
    using step unfolding seen_step_def Some option.case
    by (simp add: dict_index_def cur h cong: if_cong)
  have "length ?ss < 2 \<and> (\<exists>x. to_posix (fst p) = Inr x) \<and> cur' = dict_set n (seen_update t (?ss @ [fst p])) cur"
  proof (cases ?ss)
    case Nil
    with step' dflt [of 0] show ?thesis
      by (auto simp: rbind_eq_Inr seen_update_def posix_or_def tx_update_swap)
  next
    case (Cons a as)
    with defd [of 0] defd [of 1] step' have "as = []"
      by (cases as) (auto simp: rbind_eq_Inr)
    with Cons defd [of 0] dflt [of 1] step' show ?thesis
      by (auto simp: rbind_eq_Inr seen_update_def posix_or_def)
  qed
  then show ?thesis using inv two t h other
    by (fastforce simp: stamps_of_snoc fun_upd_apply intro!: map_option_cong)
qed

lemma seen_fold_inv:
  assumes fresh: "fresh_txs txs" and dist: "distinct (map tx_hash (dict_values txs))"
    and run: "rfold (seen_step (hash_numbers txs)) rows txs = Inr txs'"
    and real_time: "\<And>q. q \<in> set rows \<Longrightarrow> to_posix (fst q) \<noteq> Inr UNDEFINED_TIMESTAMP"
  shows "(\<forall>n. dict_get txs' n = map_option (\<lambda>t. seen_update t (stamps_of (tx_hash t) rows)) (dict_get txs n)) \<and>
     (\<forall>n t. dict_get txs n = Some t \<longrightarrow> length (stamps_of (tx_hash t) rows) \<le> 2) \<and>
     (\<forall>q \<in> set rows. dict_get (hash_numbers txs) (snd q) \<noteq> None \<longrightarrow> (\<exists>x. to_posix (fst q) = Inr x))"
  using run real_time
proof (induction rows arbitrary: txs' rule: rev_induct)
  case Nil
  have "seen_update t [] = t" if "dict_get txs n = Some t" for n t
    using fresh that by (simp add: fresh_txs_def seen_update_def posix_or_def)
  with Nil show ?case
    by (auto simp: stamps_of_def map_option_case split: option.split)
next
  case (snoc p rows)
  then obtain cur where cur: "rfold (seen_step (hash_numbers txs)) rows txs = Inr cur"
    and step: "seen_step (hash_numbers txs) p cur = Inr txs'"
    by (auto simp: rfold_append rbind_eq_Inr)
  note IH = snoc.IH [OF cur]
  have nums: "dict_get (hash_numbers txs) h = Some n \<longleftrightarrow> (\<exists>t. dict_get txs n = Some t \<and> tx_hash t = h)" for h n
    using fresh dist by (intro hash_numbers_get) (auto simp: fresh_txs_def)
  have uniq: "n = m" if "dict_get txs n = Some t" "dict_get txs m = Some u" "tx_hash t = tx_hash u" for n m t u
    using nums [of "tx_hash t" n] nums [of "tx_hash t" m] that by auto
  show ?case
    using seen_step_inv [OF nums _ _ step snoc.prems(2) _ uniq, of rows] IH snoc.prems(2) by simp
qed

lemma new_tx_logs_fresh: "rmap new_tx_log gs = Inr ps \<Longrightarrow> fresh_txs (dict_of ps)"
proof -
  assume "rmap new_tx_log gs = Inr ps"
  then have "fst q = tx_number (snd q) \<and> mempool_timestamp (snd q) = UNDEFINED_TIMESTAMP \<and>
      finalized_timestamp (snd q) = UNDEFINED_TIMESTAMP" if "q \<in> set ps" for q
    using that by (auto simp: rmap_Inr_iff new_tx_log_def rbind_eq_Inr dest!: list_all2_in_right)
  then show ?thesis
    unfolding fresh_txs_def by (auto simp: dict_get_of dest!: map_of_SomeD)
qed

text \<open>Where the parsed transactions of a client log come from.\<close>

lemma parse_clients_Inr:
  assumes "parse_clients raw = Inr cl"
  obtains ps txs' where "rmap new_tx_log (re_findall sending_re raw) = Inr ps"
    and "rfold (seen_step (hash_numbers (dict_of ps))) (seen_rows raw) (dict_of ps) = Inr txs'"
    and "tx_logs cl = sort_key tx_number (dict_values txs')"
  using assms by (auto simp: parse_clients_def rbind_eq_Inr Let_def split: if_splits)

lemma dict_of_values_distinct:
  assumes "distinct (map (f \<circ> snd) ps)"
  shows "distinct (map f (dict_values (dict_of ps)))"
proof -
  have mem: "q \<in> set (dict_of ps) \<Longrightarrow> q \<in> set ps" for q
    using dict_ok_get [OF dict_ok_of, of "fst q" "snd q" ps] by (auto simp: dict_get_of dest: map_of_SomeD)
  have "inj_on (f \<circ> snd) (set (dict_of ps))"
    by (rule inj_on_subset [of _ "set ps"]) (use assms mem in \<open>auto simp: distinct_map\<close>)
  moreover have "distinct (dict_of ps)"
    using dict_ok_of [of ps] by (simp add: dict_ok_def distinct_map)
  ultimately have "distinct (map (f \<circ> snd) (dict_of ps))" by (simp only: distinct_map)
  then show ?thesis by (simp add: dict_values_def)
qed

lemma seen_fold_ok:
  "rfold (seen_step numbers) rows txs = Inr txs' \<Longrightarrow> dict_ok txs \<Longrightarrow> dict_ok txs'"
  by (erule rfold_invariant)
    (auto simp: seen_step_def rbind_eq_Inr pd.ok_set split: option.splits if_splits)

text \<open>Transaction times of a client log. If a client log is parsed, each transaction number
  occurs once and the transactions come in the order of their numbers; a transaction is notified
  at most twice; the first notification, in the textual order of the time stamps, is its mempool
  time, the second its finalisation, and a missing one is marked by -1. This holds if no two
  transactions were sent with the same hash and no notification bears the time stamp that stands
  for \<open>undefined\<close>.\<close>

theorem client_notifications:
  assumes "parse_clients raw = Inr cl"
    and "distinct (map (\<lambda>g. g ! 2) (re_findall sending_re raw))"
    and "list_all (\<lambda>q. to_posix (fst q) \<noteq> Inr UNDEFINED_TIMESTAMP) (seen_rows raw)"
  shows "sorted_wrt (<) (map tx_number (tx_logs cl)) \<and>
     (\<forall>t \<in> set (tx_logs cl).
        length (stamps_of (tx_hash t) (seen_rows raw)) \<le> 2 \<and>
        mempool_timestamp t = posix_or (stamps_of (tx_hash t) (seen_rows raw)) 0 \<and>
        finalized_timestamp t = posix_or (stamps_of (tx_hash t) (seen_rows raw)) 1)"
proof -
  obtain ps txs' where ps: "rmap new_tx_log (re_findall sending_re raw) = Inr ps"
    and run: "rfold (seen_step (hash_numbers (dict_of ps))) (seen_rows raw) (dict_of ps) = Inr txs'"
    and cl: "tx_logs cl = sort_key tx_number (dict_values txs')"
    using assms(1) by (rule parse_clients_Inr)
  have "list_all2 (\<lambda>g p. tx_hash (snd p) = g ! 2) (re_findall sending_re raw) ps"
    using ps unfolding rmap_Inr_iff by (rule list_all2_mono) (auto simp: new_tx_log_def rbind_eq_Inr)
  then have "map (\<lambda>g. g ! 2) (re_findall sending_re raw) = map (tx_hash \<circ> snd) ps"
    by (induction rule: list_all2_induct) auto
  then have dist: "distinct (map tx_hash (dict_values (dict_of ps)))"
    using assms(2) by (intro dict_of_values_distinct) simp
  have fresh: "fresh_txs (dict_of ps)" by (rule new_tx_logs_fresh [OF ps])
  have "\<And>q. q \<in> set (seen_rows raw) \<Longrightarrow> to_posix (fst q) \<noteq> Inr UNDEFINED_TIMESTAMP"
    using assms(3) by (auto simp: list_all_iff)
  note inv = seen_fold_inv [OF fresh dist run this]
  have ok: "dict_ok txs'" by (rule seen_fold_ok [OF run]) simp
  have tx: "\<exists>t0. t = seen_update t0 (stamps_of (tx_hash t0) (seen_rows raw)) \<and> tx_number t = n \<and>
      length (stamps_of (tx_hash t0) (seen_rows raw)) \<le> 2" if "(n, t) \<in> set txs'" for n t
    using dict_ok_get [OF ok that] inv fresh by (auto simp: fresh_txs_def)
  then have "map tx_number (dict_values txs') = dict_keys txs'"
    by (force simp: dict_values_def dict_keys_def)
  then have "distinct (map tx_number (dict_values txs'))" using ok by (simp add: dict_ok_def dict_keys_def)
  then have "distinct (map tx_number (tx_logs cl))" unfolding cl by (simp add: distinct_map)
  moreover have "sorted (map tx_number (tx_logs cl))" unfolding cl by simp
  ultimately have "sorted_wrt (<) (map tx_number (tx_logs cl))" by (simp add: strict_sorted_iff)
  moreover have "length (stamps_of (tx_hash t) (seen_rows raw)) \<le> 2 \<and>
        mempool_timestamp t = posix_or (stamps_of (tx_hash t) (seen_rows raw)) 0 \<and>
        finalized_timestamp t = posix_or (stamps_of (tx_hash t) (seen_rows raw)) 1"
    if "t \<in> set (tx_logs cl)" for t
    using that tx unfolding cl by (auto simp: dict_values_def dest!: tx)
  ultimately show ?thesis by blast
qed

definition example_client_log :: string where
  "example_client_log =
     ''Transactions size: 9'' @ [LF] @ ''Transactions rate: 1'' @ [LF] @
     ''[2023-May-16 10:11:12]Start sending transactions'' @ [LF] @
     ''[2023-May-16 10:11:13] Sending transaction number 1 with hash ab of size 9'' @ [LF] @
     ''[2023-May-16 10:11:14] seqnumber: 1, tx hash=ab'' @ [LF] @
     ''[2023-May-16 10:11:15] seqnumber: 2, tx hash=ab'' @ [LF]"

definition example_client :: client_log where
  "example_client =
     \<lparr>tx_logs = [\<lparr>submitted_timestamp = 1684231873, mempool_timestamp = 1684231874,
        finalized_timestamp = 1684231875, tx_number = 1, tx_hash = ''ab'', tx_size = 9\<rparr>],
      client_start = 1684231872, client_size = 9, client_rate = 1\<rparr>"

lemma example_sending:
  "re_findall sending_re example_client_log = [[''2023-May-16 10:11:13'', ''1'', ''ab'', ''9'']]"
  by code_simp

lemma example_seen:
  "seen_rows example_client_log =
     [(''2023-May-16 10:11:14'', ''ab''), (''2023-May-16 10:11:15'', ''ab'')]"
  by code_simp

lemma example_posix:
  "to_posix ''2023-May-16 10:11:12'' = Inr 1684231872" "to_posix ''2023-May-16 10:11:13'' = Inr 1684231873"
  "to_posix ''2023-May-16 10:11:14'' = Inr 1684231874" "to_posix ''2023-May-16 10:11:15'' = Inr 1684231875"
  by code_simp+

lemma example_groups:
  "\<not> contains ''Error'' example_client_log" "groups size_re example_client_log = Inr [''9'']"
  "groups rate_re example_client_log = Inr [''1'']"
  "groups start_re example_client_log = Inr [''2023-May-16 10:11:12'']"
  "py_int ''9'' = Inr 9" "py_int ''1'' = Inr 1"
  by code_simp+

lemma example_client_parsed: "parse_clients example_client_log = Inr example_client"
  by (simp add: parse_clients_def example_groups example_posix example_sending example_seen
      new_tx_log_def dict_of_def dict_set_def hash_numbers_def dict_values_def seen_step_def
      dict_index_def UNDEFINED_TIMESTAMP_def example_client_def)

theorem client_notifications_witness:
  "parse_clients example_client_log = Inr example_client \<and>
   list_all (\<lambda>t. mempool_timestamp t = 1684231874 \<and> finalized_timestamp t = 1684231875) (tx_logs example_client)"
  using client_notifications [OF example_client_parsed] example_client_parsed
  by (simp add: example_sending example_seen example_posix UNDEFINED_TIMESTAMP_def stamps_of_def
      posix_or_def example_client_def)

section \<open>Where the client parser goes wrong\<close>

lemma re_findall_Lit_absent:
  assumes "Lit l \<in> set r" and "\<not> contains l s"
  shows "re_findall r s = []"
  using assms(2)
proof (induction s)
  case Nil
  then have "rx r [] = None" using rx_Lit_contained [of r "[]" _ l] assms(1) by (cases "rx r []") auto
  then show ?case by (subst re_findall.simps) simp
next
  case (Cons c s)
  then have "rx r (c # s) = None"
    using rx_Lit_contained [of r "c # s" _ l] assms(1) by (cases "rx r (c # s)") auto
  moreover have "re_findall r s = []" using Cons by simp
  ultimately show ?case by (subst re_findall.simps) simp
qed

text \<open>The client program announces a transaction with the words \<open>Sent transaction number\<close>,
  the parser looks for \<open>Sending transaction number\<close>. From a log that has no row of the second kind
  no transaction at all is parsed, whatever rows of the first kind it has.\<close>

theorem client_transactions_missed:
  assumes "parse_clients raw = Inr cl" and "\<not> contains ''Sending transaction number '' raw"
  shows "tx_logs cl = []"
proof -
  obtain ps txs' where ps: "rmap new_tx_log (re_findall sending_re raw) = Inr ps"
    and run: "rfold (seen_step (hash_numbers (dict_of ps))) (seen_rows raw) (dict_of ps) = Inr txs'"
    and cl: "tx_logs cl = sort_key tx_number (dict_values txs')"
    using assms(1) by (rule parse_clients_Inr)
  have "re_findall sending_re raw = []"
    by (rule re_findall_Lit_absent [OF _ assms(2)]) (simp add: sending_re_def)
  with ps have "dict_of ps = []" by (simp add: dict_of_def)
  moreover have "rfold (seen_step []) rows [] = Inr []" for rows
    by (induction rows) (simp_all add: seen_step_def)
  ultimately have "txs' = []" using run by (simp add: hash_numbers_def dict_values_def dict_of_def)
  with cl show ?thesis by (simp add: dict_values_def)
qed

definition sent_client_log :: string where
  "sent_client_log =
     ''Transactions size: 9'' @ [LF] @ ''Transactions rate: 1'' @ [LF] @
     ''[2023-May-16 10:11:12]Start sending transactions'' @ [LF] @
     ''[2023-May-16 10:11:13] Sent transaction number 1 with hash ab of size 9'' @ [LF]"

theorem client_transactions_missed_witness:
  "\<exists>cl. parse_clients sent_client_log = Inr cl \<and> tx_logs cl = []"
proof -
  have absent: "\<not> contains ''Sending transaction number '' sent_client_log" by code_simp
  have "\<not> contains ''Error'' sent_client_log" "groups size_re sent_client_log = Inr [''9'']"
    "groups rate_re sent_client_log = Inr [''1'']"
    "groups start_re sent_client_log = Inr [''2023-May-16 10:11:12'']"
    by code_simp+
  moreover have "re_findall sending_re sent_client_log = []"
    by (rule re_findall_Lit_absent [OF _ absent]) (simp add: sending_re_def)
  moreover have "seen_rows sent_client_log = []"
  proof -
    have "\<not> contains ''seqnumber: '' sent_client_log" by code_simp
    then have "re_findall seen_re sent_client_log = []"
      by (rule re_findall_Lit_absent [rotated]) (simp add: seen_re_def)
    then show ?thesis by (simp add: seen_rows_def)
  qed
  ultimately obtain cl where cl: "parse_clients sent_client_log = Inr cl"
    by (simp add: parse_clients_def example_posix example_groups(5,6) dict_of_def)
  from cl client_transactions_missed [OF cl absent] show ?thesis by blast
qed

text \<open>Notifications are ordered by the text of their time stamps, in which months are names:
  an entry into the mempool at the end of March and the inclusion in a block in April are
  processed in the wrong order, and the transaction is finalised before it enters the mempool.\<close>

theorem notifications_swapped_across_months:
  "rfold (seen_step [(''ab'', 1)])
     (sort_key fst [(''2023-Mar-31 23:59:59'', ''ab''), (''2023-Apr-01 00:00:01'', ''ab'')])
     [(1, \<lparr>submitted_timestamp = 1680307198, mempool_timestamp = UNDEFINED_TIMESTAMP,
       finalized_timestamp = UNDEFINED_TIMESTAMP, tx_number = 1, tx_hash = ''ab'', tx_size = 9\<rparr>)] =
   Inr [(1, \<lparr>submitted_timestamp = 1680307198, mempool_timestamp = 1680307201,
       finalized_timestamp = 1680307199, tx_number = 1, tx_hash = ''ab'', tx_size = 9\<rparr>)]"
proof -
  have "to_posix ''2023-Mar-31 23:59:59'' = Inr 1680307199"
    "to_posix ''2023-Apr-01 00:00:01'' = Inr 1680307201"
    "sort_key fst [(''2023-Mar-31 23:59:59'', ''ab''), (''2023-Apr-01 00:00:01'', ''ab'')] =
       [(''2023-Apr-01 00:00:01'', ''ab''), (''2023-Mar-31 23:59:59'', ''ab'')]"
    by code_simp+
  then show ?thesis by (simp add: seen_step_def dict_index_def dict_set_def UNDEFINED_TIMESTAMP_def)
qed

section \<open>The order of the log files\<close>

lemma append_less_same_length:
  "length a = length b \<Longrightarrow> a @ x < b @ x \<longleftrightarrow> a < (b :: 'a :: linorder list)"
proof (induction a b rule: list_induct2)
  case Nil
  then show ?case by simp
next
  case (Cons y ys z zs)
  then show ?case by (simp add: Cons_less_Cons)
qed

lemma node_dirname_length:
  "0 \<le> i \<Longrightarrow> i < n \<Longrightarrow> 0 \<le> j \<Longrightarrow> j < n \<Longrightarrow>
   length (get_node_dirname i t n) = length (get_node_dirname j t n)"
  by (simp add: get_node_dirname_def add_zeros_prefix_length)

text \<open>The files of \<open>n\<close> nodes, in whatever order the listing gives them, are read by node number.\<close>

lemma read_sorted_nodes:
  assumes "mset (glob_files start name rd) =
    mset (map (\<lambda>k. (get_node_dirname (int k) t (int n) @ ''/'' @ name, content k)) [0..<n])"
  shows "read_sorted start name rd = map (universal_newlines \<circ> content) [0..<n]"
proof -
  let ?ys = "map (\<lambda>k. (get_node_dirname (int k) t (int n) @ ''/'' @ name, content k)) [0..<n]"
  have less: "get_node_dirname (int i) t (int n) @ ''/'' @ name < get_node_dirname (int j) t (int n) @ ''/'' @ name"
    if "i < j" "j < n" for i j
    using that append_less_same_length [OF node_dirname_length, of "int i" "int n" "int j"]
    by (simp add: get_node_dirname_less_iff)
  then have s: "sorted_wrt (<) (map fst ?ys)"
    by (simp add: sorted_wrt_map sorted_wrt_iff_nth_less)
  then have "distinct (map fst ?ys)" by (simp add: strict_sorted_iff)
  then have "inj_on fst (set ?ys)" by (simp only: distinct_map)
  then have "inj_on fst (set (glob_files start name rd))" using mset_eq_setD [OF assms] by simp
  then have "sort_key fst (glob_files start name rd) = ?ys"
    using s by (intro sort_key_inj_key_eq [OF assms] strict_sorted_imp_sorted)
  then show ?thesis by (simp add: read_sorted_def)
qed

text \<open>The parser works on the logs in the order of the node numbers. If a run directory holds one
  log for each of \<open>n\<close> validators and \<open>c\<close> clients, then, in whatever order the files are listed, the
  node logs and the client logs are parsed in numeric order, also from ten nodes on.\<close>

theorem process_reads_in_order:
  assumes "mset (glob_files ''node'' ''miner_logs.txt'' rd) =
      mset (map (\<lambda>k. (get_node_dirname (int k) VALIDATOR (int n) @ ''/miner_logs.txt'', node_text k)) [0..<n])"
    and "mset (glob_files ''client'' ''client_logs.txt'' rd) =
      mset (map (\<lambda>k. (get_node_dirname (int k) CLIENT (int c) @ ''/client_logs.txt'', client_text k)) [0..<c])"
    and "bench_file rd = Some obj"
  shows "process rd = rbind (BenchParameters_from_dict obj) (\<lambda>params.
    LogParser_init (map (universal_newlines \<circ> client_text) [0..<c])
      (map (universal_newlines \<circ> node_text) [0..<n]) params)"
  using read_sorted_nodes [of "''node''" "''miner_logs.txt''" rd VALIDATOR n node_text]
    read_sorted_nodes [of "''client''" "''client_logs.txt''" rd CLIENT c client_text] assms
  by (simp add: process_def)

text \<open>A directory whose listing has the logs of eleven nodes backwards.\<close>

definition example_listing :: run_directory where
  "example_listing = \<lparr>text_files = ((''client-0'', ''client_logs.txt''), ''c'') #
     map (\<lambda>k. ((get_node_dirname (int k) VALIDATOR 11, ''miner_logs.txt''), nat_str k)) (rev [0..<11]),
   bench_file = Some []\<rparr>"

lemma glob_nodes:
  "glob_files ''node'' ''miner_logs.txt'' \<lparr>text_files = ((''client-0'', ''client_logs.txt''), ''c'') #
      map (\<lambda>k. ((get_node_dirname (int k) VALIDATOR m, ''miner_logs.txt''), nat_str k)) ks, bench_file = b\<rparr> =
    map (\<lambda>k. (get_node_dirname (int k) VALIDATOR m @ ''/miner_logs.txt'', nat_str k)) ks"
  "glob_files ''client'' ''client_logs.txt'' \<lparr>text_files = ((''client-0'', ''client_logs.txt''), ''c'') #
      map (\<lambda>k. ((get_node_dirname (int k) VALIDATOR m, ''miner_logs.txt''), nat_str k)) ks, bench_file = b\<rparr> =
    [(''client-0/client_logs.txt'', ''c'')]"
  by (induction ks) (simp_all add: glob_files_def get_node_dirname_def get_dirname_def)

theorem process_reads_in_order_witness:
  "process example_listing = rbind (BenchParameters_from_dict []) (\<lambda>params.
     LogParser_init [''c''] (map nat_str [0..<11]) params)"
proof -
  have un: "universal_newlines (nat_str k) = nat_str k" for k
  proof (rule universal_newlines_no_CR)
    have "\<not> is_digit CR" by code_simp
    then show "CR \<notin> set (nat_str k)" using nat_str_digits [of k] unfolding list_all_iff by blast
  qed
  have client: "get_node_dirname 0 CLIENT 1 = ''client-0''" by code_simp
  have "mset (glob_files ''node'' ''miner_logs.txt'' example_listing) =
      mset (map (\<lambda>k. (get_node_dirname (int k) VALIDATOR (int 11) @ ''/miner_logs.txt'', nat_str k)) [0..<11])"
    unfolding example_listing_def glob_nodes by (simp only: rev_map [symmetric] mset_rev of_nat_numeral)
  moreover have "mset (glob_files ''client'' ''client_logs.txt'' example_listing) =
      mset (map (\<lambda>k. (get_node_dirname (int k) CLIENT (int 1) @ ''/client_logs.txt'', ''c'')) [0..<1])"
    unfolding example_listing_def glob_nodes by (simp add: client)
  moreover have "bench_file example_listing = Some []" by (simp only: example_listing_def run_directory.simps)
  ultimately have "process example_listing = rbind (BenchParameters_from_dict []) (\<lambda>params.
      LogParser_init (map (universal_newlines \<circ> (\<lambda>_. ''c'')) [0..<1])
        (map (universal_newlines \<circ> nat_str) [0..<11]) params)"
    by (rule process_reads_in_order)
  moreover have "map (universal_newlines \<circ> (\<lambda>_. ''c'')) [0..<1] = [''c'']" by simp
  moreover have "map (universal_newlines \<circ> nat_str) [0..<11] = map nat_str [0..<11]" by (simp only: comp_def un)
  ultimately show ?thesis by (simp only:)
qed

end
