(* ===== verification/Json_Minify.thy ===== *)
theory Json_Minify
  imports Py_Strings
begin

text \<open>
  \<^verbatim>\<open>infra/json_minify.py\<close>: removal of comments and white space from JSON with comments. The
  routine walks over the tokens of the text with an index and three flags; it is compared with a
  reference machine that reads the text once from left to right and has no index.
\<close>

section \<open>The routine\<close>

abbreviation "QUOTE \<equiv> CHR 0x22"
abbreviation "BACKSLASH \<equiv> CHR 0x5C"
abbreviation "TAB \<equiv> CHR 0x09"

text \<open>The alternatives of the tokenizer at the head of the text, in their order.\<close>

fun token_at :: "string \<Rightarrow> string option" where
  "token_at [] = None"
| "token_at (c # cs) =
     (if c = QUOTE then Some [QUOTE]
      else if c = CHR ''/'' \<and> prefix ''*'' cs then Some ''/*''
      else if c = CHR ''*'' \<and> prefix ''/'' cs then Some ''*/''
      else if c = CHR ''/'' \<and> prefix ''/'' cs then Some ''//''
      else if c = LF \<or> c = CR then Some [c]
      else None)"

text \<open>\<open>re.finditer\<close>: the matches with their start, from left to right and without overlap.\<close>

fun finditer :: "nat \<Rightarrow> string \<Rightarrow> (nat \<times> string) list" where
  "finditer i [] = []"
| "finditer i (c # cs) =
     (case token_at (c # cs) of
        None \<Rightarrow> finditer (Suc i) cs
      | Some v \<Rightarrow> (i, v) # finditer (i + length v) (drop (length v - 1) cs))"

definition slice :: "string \<Rightarrow> nat \<Rightarrow> nat \<Rightarrow> string" where
  "slice s a b = take (b - a) (drop a s)"

text \<open>
  The match of \<open>(\\)*$\<close> in a stretch of text without line breaks: the backslashes at its end.
\<close>

definition end_slashes :: "string \<Rightarrow> nat" where
  "end_slashes s = length (takeWhile (\<lambda>c. c = BACKSLASH) (rev s))"

definition is_ws :: "char \<Rightarrow> bool" where
  "is_ws c = (c = CHR '' '' \<or> c = TAB \<or> c = LF \<or> c = CR)"

definition is_newline :: "string \<Rightarrow> bool" where
  "is_newline v = (v = [LF] \<or> v = [CR])"

definition blanks :: "nat \<Rightarrow> string" where
  "blanks n = replicate n (CHR '' '')"

record minify_state =
  in_string :: bool
  in_multi :: bool
  in_single :: bool
  new_str :: "string list"
  index :: nat

definition emit :: "string \<Rightarrow> minify_state \<Rightarrow> minify_state" where
  "emit x st = st\<lparr>new_str := new_str st @ [x]\<rparr>"

text \<open>The four parts of the loop body, in the order of the source.\<close>

definition flush_pending :: "string \<Rightarrow> bool \<Rightarrow> nat \<Rightarrow> minify_state \<Rightarrow> minify_state" where
  "flush_pending s strip_space start st =
     (if \<not> (in_multi st \<or> in_single st)
      then let tmp = slice s (index st) start
           in emit (if \<not> in_string st \<and> strip_space then filter (\<lambda>c. \<not> is_ws c) tmp else tmp) st
      else if \<not> strip_space then emit (blanks (start - index st)) st
      else st)"

definition handle_token :: "string \<Rightarrow> bool \<Rightarrow> nat \<Rightarrow> string \<Rightarrow> nat \<Rightarrow> minify_state \<Rightarrow> minify_state" where
  "handle_token s strip_space start val last_index st =
     (if val = [QUOTE] \<and> \<not> (in_multi st \<or> in_single st)
      then let escaped = end_slashes (slice s last_index start)
           in st\<lparr>in_string := (if \<not> in_string st \<or> escaped mod 2 = 0 then \<not> in_string st else in_string st),
                 index := index st - 1\<rparr>
      else if \<not> (in_string st \<or> in_multi st \<or> in_single st)
      then (if val = ''/*'' then st\<lparr>in_multi := True\<rparr>
            else if val = ''//'' then st\<lparr>in_single := True\<rparr> else st)
      else if val = ''*/'' \<and> in_multi st \<and> \<not> (in_string st \<or> in_single st)
      then (if \<not> strip_space then emit (blanks (length val)) (st\<lparr>in_multi := False\<rparr>)
            else st\<lparr>in_multi := False\<rparr>)
      else if is_newline val \<and> \<not> (in_multi st \<or> in_string st) \<and> in_single st
      then st\<lparr>in_single := False\<rparr>
      else if \<not> ((in_multi st \<or> in_single st) \<or> (is_newline val \<and> strip_space)) then emit val st
      else st)"

definition keep_columns :: "bool \<Rightarrow> string \<Rightarrow> minify_state \<Rightarrow> minify_state" where
  "keep_columns strip_space val st =
     (if \<not> strip_space
      then if is_newline val then emit val st
           else if in_multi st \<or> in_single st then emit (blanks (length val)) st
           else st
      else st)"

definition minify_step :: "string \<Rightarrow> bool \<Rightarrow> nat \<times> string \<Rightarrow> minify_state \<Rightarrow> minify_state" where
  "minify_step s strip_space m st =
     (let start = fst m; val = snd m;
          st1 = flush_pending s strip_space start st;
          st2 = st1\<lparr>index := start + length val\<rparr>
      in keep_columns strip_space val (handle_token s strip_space start val (index st) st2))"

definition minify_init :: minify_state where
  "minify_init = \<lparr>in_string = False, in_multi = False, in_single = False, new_str = [], index = 0\<rparr>"

definition json_minify :: "string \<Rightarrow> bool \<Rightarrow> string" where
  "json_minify s strip_space =
     (let st = fold (minify_step s strip_space) (finditer 0 s) minify_init
      in concat (new_str st @ [drop (index st) s]))"

section \<open>The reference machine\<close>

text \<open>Modes: code, inside a string (after an odd number of backslashes or not), in a comment.\<close>

datatype mode = Code | Str bool | Multi | Single

text \<open>What a token or another character becomes, and the mode that follows.\<close>

fun ref_token :: "bool \<Rightarrow> mode \<Rightarrow> string \<Rightarrow> string \<times> mode" where
  "ref_token sp Code v =
     (if v = [QUOTE] then (v, Str False)
      else if v = ''/*'' then (if sp then [] else blanks 2, Multi)
      else if v = ''//'' then (if sp then [] else blanks 2, Single)
      else (if \<not> sp \<and> is_newline v then v else [], Code))"
| "ref_token sp (Str od) v =
     (if v = [QUOTE] then (v, if od then Str False else Code)
      else if is_newline v then (if sp then [] else v @ v, Str False)
      else (v, Str False))"
| "ref_token sp Multi v =
     (if sp then [] else if is_newline v then v else blanks (length v),
      if v = ''*/'' then Code else Multi)"
| "ref_token sp Single v =
     (if sp then [] else if is_newline v then v else blanks (length v),
      if is_newline v then Code else Single)"

fun ref_char :: "bool \<Rightarrow> mode \<Rightarrow> char \<Rightarrow> string \<times> mode" where
  "ref_char sp Code c = (if sp \<and> is_ws c then [] else [c], Code)"
| "ref_char sp (Str od) c = ([c], Str (c = BACKSLASH \<and> \<not> od))"
| "ref_char sp m c = (if sp then [] else blanks 1, m)"

fun minify_ref :: "bool \<Rightarrow> mode \<Rightarrow> string \<Rightarrow> string" where
  "minify_ref sp m [] = []"
| "minify_ref sp m (c # cs) =
     (case token_at (c # cs) of
        None \<Rightarrow> fst (ref_char sp m c) @ minify_ref sp (snd (ref_char sp m c)) cs
      | Some v \<Rightarrow> fst (ref_token sp m v) @
          minify_ref sp (snd (ref_token sp m v)) (drop (length v - 1) cs))"

section \<open>Equivalence\<close>

lemma token_at_cases:
  assumes "token_at s = Some v"
  obtains "v = [QUOTE]" | "v = ''/*''" | "v = ''*/''" | "v = ''//''" | "v = [LF]" | "v = [CR]"
proof -
  from assms have "v = [QUOTE] \<or> v = ''/*'' \<or> v = ''*/'' \<or> v = ''//'' \<or> v = [LF] \<or> v = [CR]"
    by (cases s) (simp_all split: if_splits, blast+)
  then show ?thesis using that by blast
qed

lemma token_at_prefix: "token_at s = Some v \<Longrightarrow> \<exists>r. s = v @ r"
  by (cases s) (auto split: if_splits simp: prefix_def)

lemma token_at_rest:
  assumes "token_at (c # cs) = Some v"
  shows "c # cs = v @ drop (length v - 1) cs"
proof -
  obtain r where r: "c # cs = v @ r" using token_at_prefix [OF assms] by blast
  moreover obtain v' where "v = c # v'" using r assms by (cases v) (auto split: if_splits)
  ultimately show ?thesis by simp
qed

lemma token_at_NoneD: "token_at (c # cs) = None \<Longrightarrow> c \<noteq> QUOTE \<and> c \<noteq> LF \<and> c \<noteq> CR"
  by (auto split: if_splits)

text \<open>
  The mode that the flags of a state stand for, the parity of the backslashes at the end of the
  pending stretch included, and what the pending stretch will contribute.
\<close>

definition mode_of :: "minify_state \<Rightarrow> string \<Rightarrow> mode" where
  "mode_of st seg = (if in_string st then Str (end_slashes seg mod 2 = 1)
     else if in_multi st then Multi else if in_single st then Single else Code)"

fun pending :: "bool \<Rightarrow> mode \<Rightarrow> string \<Rightarrow> string" where
  "pending sp Code seg = (if sp then filter (\<lambda>c. \<not> is_ws c) seg else seg)"
| "pending sp (Str od) seg = seg"
| "pending sp m seg = (if sp then [] else blanks (length seg))"

definition flags_ok :: "minify_state \<Rightarrow> bool" where
  "flags_ok st \<longleftrightarrow> \<not> (in_string st \<and> in_multi st) \<and> \<not> (in_string st \<and> in_single st) \<and>
     \<not> (in_multi st \<and> in_single st)"

lemma end_slashes_snoc:
  "end_slashes (seg @ [c]) = (if c = BACKSLASH then Suc (end_slashes seg) else 0)"
  by (simp add: end_slashes_def)

lemma end_slashes_simps [simp]: "end_slashes [] = 0" "end_slashes [QUOTE] = 0"
  by (simp_all add: end_slashes_def)

lemma slice_pending: "s = p @ seg @ r \<Longrightarrow> slice s (length p) (length p + length seg) = seg"
  by (simp add: slice_def)

text \<open>A character that starts no token only lengthens the pending stretch.\<close>

lemma pending_char:
  assumes "c \<noteq> LF" and "c \<noteq> CR"
  shows "pending sp (mode_of st seg) seg @ fst (ref_char sp (mode_of st seg) c) =
      pending sp (mode_of st (seg @ [c])) (seg @ [c]) \<and>
    snd (ref_char sp (mode_of st seg) c) = mode_of st (seg @ [c])"
  by (auto simp: mode_of_def end_slashes_snoc blanks_def replicate_append_same mod_Suc)

text \<open>A token ends the pending stretch; a quote outside comments starts the next one.\<close>

definition next_pending :: "minify_state \<Rightarrow> string \<Rightarrow> string" where
  "next_pending st v = (if v = [QUOTE] \<and> \<not> (in_multi st \<or> in_single st) then v else [])"

lemma minify_step_flags:
  assumes "flags_ok st" and "token_at t = Some v"
  shows "flags_ok (minify_step s sp (k, v) st) \<and>
     index (minify_step s sp (k, v) st) + length (next_pending st v) = k + length v"
  using token_at_cases [OF assms(2)] assms(1)
  by cases (auto simp: minify_step_def flush_pending_def handle_token_def keep_columns_def emit_def
      flags_ok_def next_pending_def is_newline_def Let_def)

lemma flush_pending_eq:
  assumes s: "s = p @ seg @ r" and "index st = length p" and "flags_ok st"
  obtains ns where "flush_pending s sp (length p + length seg) st = st\<lparr>new_str := ns\<rparr>"
    and "concat ns = concat (new_str st) @ pending sp (mode_of st seg) seg"
proof -
  have "\<exists>ns. st = st\<lparr>new_str := ns\<rparr> \<and> concat ns = concat (new_str st)"
    by (intro exI [of _ "new_str st"]) simp
  then have "\<exists>ns. flush_pending s sp (length p + length seg) st = st\<lparr>new_str := ns\<rparr> \<and>
      concat ns = concat (new_str st) @ pending sp (mode_of st seg) seg"
    using assms(2,3) slice_pending [OF s]
    by (auto simp: flush_pending_def emit_def mode_of_def flags_ok_def Let_def)
  then show ?thesis using that by blast
qed

lemma handle_token_out:
  assumes "flags_ok st" and "token_at t = Some v" and "end_slashes (slice s l k) = end_slashes seg"
  shows "concat (new_str (keep_columns sp v (handle_token s sp k v l st))) @
      pending sp (mode_of (keep_columns sp v (handle_token s sp k v l st)) (next_pending st v))
        (next_pending st v) =
      concat (new_str st) @ fst (ref_token sp (mode_of st seg) v) \<and>
    mode_of (keep_columns sp v (handle_token s sp k v l st)) (next_pending st v) =
      snd (ref_token sp (mode_of st seg) v)"
proof -
  note defs = handle_token_def keep_columns_def emit_def next_pending_def is_newline_def Let_def
    mode_of_def assms(3) blanks_def is_ws_def
  consider "\<not> in_string st" "\<not> in_multi st" "\<not> in_single st"
    | "in_string st" "\<not> in_multi st" "\<not> in_single st"
    | "\<not> in_string st" "in_multi st" "\<not> in_single st"
    | "\<not> in_string st" "\<not> in_multi st" "in_single st"
    using assms(1) by (auto simp: flags_ok_def)
  then show ?thesis
  proof cases
    case 1
    with token_at_cases [OF assms(2)] show ?thesis by cases (simp_all add: defs numeral_2_eq_2)
  next
    case 2
    with token_at_cases [OF assms(2)] show ?thesis by cases (auto simp: defs)
  next
    case 3
    with token_at_cases [OF assms(2)] show ?thesis by cases (simp_all add: defs)
  next
    case 4
    with token_at_cases [OF assms(2)] show ?thesis by cases (simp_all add: defs)
  qed
qed

lemma minify_step_token:
  assumes "flags_ok st" and "token_at t = Some v" and s: "s = p @ seg @ r" and "index st = length p"
  shows "concat (new_str (minify_step s sp (length p + length seg, v) st)) @
      pending sp (mode_of (minify_step s sp (length p + length seg, v) st) (next_pending st v))
        (next_pending st v) =
      concat (new_str st) @ pending sp (mode_of st seg) seg @ fst (ref_token sp (mode_of st seg) v) \<and>
    mode_of (minify_step s sp (length p + length seg, v) st) (next_pending st v) =
      snd (ref_token sp (mode_of st seg) v)"
proof -
  let ?k = "length p + length seg"
  obtain ns where flush: "flush_pending s sp ?k st = st\<lparr>new_str := ns\<rparr>"
    and out: "concat ns = concat (new_str st) @ pending sp (mode_of st seg) seg"
    using flush_pending_eq [OF s assms(4,1)] by blast
  let ?st1 = "st\<lparr>new_str := ns, index := ?k + length v\<rparr>"
  have st1: "mode_of ?st1 seg = mode_of st seg" "next_pending ?st1 v = next_pending st v"
    and ok: "flags_ok ?st1"
    using assms(1) by (simp_all add: mode_of_def next_pending_def flags_ok_def)
  have step: "minify_step s sp (?k, v) st = keep_columns sp v (handle_token s sp ?k v (length p) ?st1)"
    by (simp add: minify_step_def flush assms(4) Let_def)
  have "end_slashes (slice s (length p) ?k) = end_slashes seg" by (simp add: slice_pending [OF s])
  note h = handle_token_out [OF ok assms(2) this, of sp, unfolded st1]
  show ?thesis unfolding step using h [THEN conjunct1] h [THEN conjunct2] by (simp add: out)
qed

definition ends_line :: "string \<Rightarrow> bool" where
  "ends_line s \<longleftrightarrow> s \<noteq> [] \<and> (last s = LF \<or> last s = CR)"

lemma ends_line_rest: "ends_line (v @ r) \<Longrightarrow> r \<noteq> [] \<Longrightarrow> ends_line r"
  by (simp add: ends_line_def)

lemma fold_minify:
  assumes "flags_ok st" and "s = p @ seg @ r" and "index st = length p"
    and "ends_line r \<or> r = [] \<and> seg = []"
  shows "(let st' = fold (minify_step s sp) (finditer (length p + length seg) r) st
          in concat (new_str st' @ [drop (index st') s])) =
     concat (new_str st) @ pending sp (mode_of st seg) seg @ minify_ref sp (mode_of st seg) r"
  using assms
proof (induction r arbitrary: st p seg rule: length_induct)
  case (1 r)
  note IH = 1(1)[rule_format] and ok = 1(2) and s = 1(3) and idx = 1(4) and fin = 1(5)
  show ?case
  proof (cases r)
    case Nil
    then have "seg = []" using fin by (simp add: ends_line_def)
    then show ?thesis using Nil s idx by (cases "mode_of st []") (simp_all add: blanks_def)
  next
    case (Cons c cs)
    show ?thesis
    proof (cases "token_at (c # cs)")
      case None
      then have c: "c \<noteq> LF" "c \<noteq> CR" using token_at_NoneD by blast+
      then have "ends_line cs" using fin Cons by (cases cs) (auto simp: ends_line_def)
      then have "(let st' = fold (minify_step s sp) (finditer (length p + length (seg @ [c])) cs) st
          in concat (new_str st' @ [drop (index st') s])) =
          concat (new_str st) @ pending sp (mode_of st (seg @ [c])) (seg @ [c]) @
          minify_ref sp (mode_of st (seg @ [c])) cs"
        by (intro IH) (use ok s idx Cons in simp_all)
      moreover note pending_char [OF c, of sp st seg]
      ultimately show ?thesis using None Cons by (simp del: token_at.simps flip: append_assoc)
    next
      case (Some v)
      let ?k = "length p + length seg" and ?rest = "drop (length v - 1) cs" and ?np = "next_pending st v"
      let ?st = "minify_step s sp (?k, v) st"
      have r: "r = v @ ?rest" using token_at_rest [OF Some] Cons by simp
      have v: "v \<noteq> []" using token_at_cases [OF Some] by cases auto
      note flags = minify_step_flags [OF ok Some, of s sp ?k]
      obtain p' where s': "s = p' @ ?np @ ?rest" and p': "index ?st = length p'"
        using s r flags by (cases "?np = []") (fastforce simp: next_pending_def split: if_splits)+
      have k: "length p' + length ?np = ?k + length v" using flags p' by simp
      have "ends_line ?rest \<or> ?rest = [] \<and> ?np = []"
      proof (cases "?rest = []")
        case True
        then have "ends_line v" using fin r v by simp
        then have "v \<noteq> [QUOTE]" by (auto simp: ends_line_def)
        then show ?thesis using True by (simp add: next_pending_def)
      next
        case False
        then show ?thesis using fin r ends_line_rest [of v ?rest] by auto
      qed
      then have "(let st' = fold (minify_step s sp) (finditer (length p' + length ?np) ?rest) ?st
          in concat (new_str st' @ [drop (index st') s])) =
          concat (new_str ?st) @ pending sp (mode_of ?st ?np) ?np @ minify_ref sp (mode_of ?st ?np) ?rest"
        by (intro IH) (use flags s' p' r v in \<open>simp_all add: Cons\<close>)
      moreover note tok = minify_step_token [OF ok Some s idx, of sp]
      moreover note tok [THEN conjunct1, unfolded tok [THEN conjunct2]]
      ultimately show ?thesis using Some Cons k by (simp del: token_at.simps flip: append_assoc)
    qed
  qed
qed

lemma json_minify_eq_ref:
  assumes "ends_line s \<or> s = []"
  shows "json_minify s sp = minify_ref sp Code s"
proof -
  have "flags_ok minify_init" "mode_of minify_init [] = Code" "new_str minify_init = []" "index minify_init = 0"
    by (simp_all add: minify_init_def flags_ok_def mode_of_def)
  with fold_minify [of minify_init s "[]" "[]" s sp] assms show ?thesis
    by (simp add: json_minify_def)
qed

text \<open>C3: The index-based minifier computes the same text as the one-pass reference machine, with and
  without removal of white space, on every text that is empty or ends with a line break.\<close>

theorem json_minify_equiv:
  assumes "ends_line s \<or> s = []"
  shows "json_minify s strip_space = minify_ref strip_space Code s"
  using assms by (rule json_minify_eq_ref)

theorem json_minify_equiv_witness:
  "json_minify (''{ /* a */ '' @ [QUOTE] @ ''// b'' @ [QUOTE] @ '' } // c'' @ [LF]) True =
     ''{'' @ [QUOTE] @ ''// b'' @ [QUOTE] @ ''}''"
proof -
  have "ends_line (''{ /* a */ '' @ [QUOTE] @ ''// b'' @ [QUOTE] @ '' } // c'' @ [LF])"
    by (simp add: ends_line_def)
  moreover have "minify_ref True Code (''{ /* a */ '' @ [QUOTE] @ ''// b'' @ [QUOTE] @ '' } // c'' @ [LF]) =
      ''{'' @ [QUOTE] @ ''// b'' @ [QUOTE] @ ''}''" by code_simp
  ultimately show ?thesis using json_minify_equiv by simp
qed

section \<open>Columns and lines are kept\<close>

text \<open>
  Texts without a line break inside a string and without a stray end of comment: what a JSON text
  with comments may contain.
\<close>

fun clean :: "mode \<Rightarrow> string \<Rightarrow> bool" where
  "clean m [] = True"
| "clean m (c # cs) =
     (case token_at (c # cs) of
        None \<Rightarrow> clean (snd (ref_char False m c)) cs
      | Some v \<Rightarrow> \<not> (m = Code \<and> v = ''*/'') \<and> \<not> (m = Str True \<and> is_newline v) \<and>
          \<not> (m = Str False \<and> is_newline v) \<and>
          clean (snd (ref_token False m v)) (drop (length v - 1) cs))"

definition blanked :: "string \<Rightarrow> string \<Rightarrow> bool" where
  "blanked s t = list_all2 (\<lambda>a b. b = a \<or> b = CHR '' '' \<and> a \<noteq> LF \<and> a \<noteq> CR) s t"

lemma blanked_append: "blanked a x \<Longrightarrow> blanked b y \<Longrightarrow> blanked (a @ b) (x @ y)"
  by (simp add: blanked_def list_all2_appendI)

lemma blanked_refl: "blanked s s"
  by (simp add: blanked_def list_all2_refl)

lemma blanked_blanks: "LF \<notin> set s \<Longrightarrow> CR \<notin> set s \<Longrightarrow> blanked s (blanks (length s))"
  by (induction s) (auto simp: blanked_def blanks_def)

lemma ref_char_blanked: "c \<noteq> LF \<Longrightarrow> c \<noteq> CR \<Longrightarrow> blanked [c] (fst (ref_char False m c))"
  by (cases m) (auto simp: blanked_def blanks_def)

lemma ref_token_blanked:
  assumes "token_at t = Some v" and "\<not> (m = Code \<and> v = ''*/'')"
    and "\<not> (m = Str True \<and> is_newline v)" and "\<not> (m = Str False \<and> is_newline v)"
  shows "blanked v (fst (ref_token False m v))"
proof (cases m)
  case Code
  from token_at_cases [OF assms(1)] show ?thesis
    by cases (use Code assms(2) in \<open>simp_all add: blanked_def blanks_def is_newline_def numeral_2_eq_2\<close>)
next
  case (Str od)
  with assms show ?thesis by (cases od) (auto simp: blanked_refl)
next
  case Multi
  with token_at_cases [OF assms(1)] show ?thesis
    by cases (simp_all add: blanked_def blanks_def is_newline_def)
next
  case Single
  with token_at_cases [OF assms(1)] show ?thesis
    by cases (simp_all add: blanked_def blanks_def is_newline_def)
qed

lemma minify_ref_blanked: "clean m s \<Longrightarrow> blanked s (minify_ref False m s)"
proof (induction s arbitrary: m rule: length_induct)
  case (1 s)
  show ?case
  proof (cases s)
    case Nil
    then show ?thesis by (simp add: blanked_def)
  next
    case (Cons c cs)
    show ?thesis
    proof (cases "token_at (c # cs)")
      case None
      with 1 Cons have "blanked cs (minify_ref False (snd (ref_char False m c)) cs)"
        by (simp del: token_at.simps)
      then have "blanked ([c] @ cs) (fst (ref_char False m c) @ minify_ref False (snd (ref_char False m c)) cs)"
        using token_at_NoneD [OF None] by (intro blanked_append ref_char_blanked) auto
      with None Cons show ?thesis by (simp del: token_at.simps)
    next
      case (Some v)
      let ?rest = "drop (length v - 1) cs"
      have "blanked ?rest (minify_ref False (snd (ref_token False m v)) ?rest)"
        using 1 Cons Some by (simp del: token_at.simps)
      moreover have "blanked v (fst (ref_token False m v))"
        using 1(2) Cons Some by (intro ref_token_blanked [OF Some]) (auto simp del: token_at.simps)
      ultimately have "blanked (v @ ?rest) (fst (ref_token False m v) @ minify_ref False (snd (ref_token False m v)) ?rest)"
        by (intro blanked_append)
      moreover have "minify_ref False m s =
          fst (ref_token False m v) @ minify_ref False (snd (ref_token False m v)) ?rest"
        using Some Cons by (simp del: token_at.simps)
      ultimately show ?thesis using Cons token_at_rest [OF Some] by (simp only:)
    qed
  qed
qed



text \<open>Without the final line break the end of the text is copied as it is: the text of a line
  comment that ends the file becomes part of the result, and white space there is kept.\<close>

theorem json_minify_leaks_last_comment:
  "json_minify ''1 // 2'' True = ''1 2'' \<and> json_minify ''1 '' True = ''1 '' \<and>
   minify_ref True Code ''1 // 2'' = ''1''"
  by code_simp

section \<open>Nothing is added\<close>

text \<open>A step emits part of the stretch before the token, and the token itself only if it is consumed.\<close>

lemma minify_step_emits:
  assumes s: "s = a @ b @ r" and i: "index st = length a"
  obtains x y where "concat (new_str (minify_step s True (length a + length b, v) st)) = concat (new_str st) @ x @ y"
    and "subseq x b"
    and "index (minify_step s True (length a + length b, v) st) = length a + length b \<and> v = [QUOTE] \<and> y = [] \<or>
      index (minify_step s True (length a + length b, v) st) = length a + length b + length v \<and> subseq y v"
proof -
  let ?x = "if in_multi st \<or> in_single st then [] else if in_string st then b else filter (\<lambda>c. \<not> is_ws c) b"
  have x: "subseq ?x b" by (simp add: subseq_filter_left)
  have sl: "slice s (index st) (length a + length b) = b" using slice_pending [OF s] i by simp
  have "concat (new_str (minify_step s True (length a + length b, v) st)) = concat (new_str st) @ ?x @ [] \<or>
      concat (new_str (minify_step s True (length a + length b, v) st)) = concat (new_str st) @ ?x @ v \<and>
      index (minify_step s True (length a + length b, v) st) = length a + length b + length v"
    and "index (minify_step s True (length a + length b, v) st) = length a + length b \<and> v = [QUOTE] \<and>
        concat (new_str (minify_step s True (length a + length b, v) st)) = concat (new_str st) @ ?x @ [] \<or>
      index (minify_step s True (length a + length b, v) st) = length a + length b + length v"
    by (simp_all add: minify_step_def flush_pending_def handle_token_def keep_columns_def emit_def Let_def sl)
  then show ?thesis using x that [of ?x "[]"] that [of ?x v] by blast
qed

lemma fold_subseq:
  assumes "s = a @ b @ t" and "i = length a + length b" and "index st = length a"
    and "subseq (concat (new_str st)) a"
  shows "subseq (concat (new_str (fold (minify_step s True) (finditer i t) st)) @
      drop (index (fold (minify_step s True) (finditer i t) st)) s) s"
  using assms
proof (induction i t arbitrary: a b st rule: finditer.induct)
  case (1 i)
  then show ?case by (simp add: list_emb_append_mono)
next
  case (2 i c cs)
  show ?case
  proof (cases "token_at (c # cs)")
    case None
    then show ?thesis using 2(1) [OF None, of a "b @ [c]" st] 2(3-6) by simp
  next
    case (Some v)
    let ?r = "drop (length v - 1) cs" and ?st = "minify_step s True (i, v) st"
    have rest: "c # cs = v @ ?r" by (rule token_at_rest [OF Some])
    then have s: "s = a @ b @ v @ ?r" using 2(3) by simp
    obtain x y where out: "concat (new_str ?st) = concat (new_str st) @ x @ y" and x: "subseq x b"
      and cases: "index ?st = i \<and> v = [QUOTE] \<and> y = [] \<or> index ?st = i + length v \<and> subseq y v"
      using minify_step_emits [OF s 2(5), of v] 2(4) by metis
    have step: "fold (minify_step s True) (finditer i (c # cs)) st =
        fold (minify_step s True) (finditer (i + length v) ?r) ?st"
      using Some by simp
    from cases show ?thesis
    proof
      assume y: "index ?st = i \<and> v = [QUOTE] \<and> y = []"
      show ?thesis unfolding step
      proof (rule 2(2) [OF Some])
        show "s = (a @ b) @ v @ ?r" using s by simp
        show "i + length v = length (a @ b) + length v" using 2(4) by simp
        show "index ?st = length (a @ b)" unfolding y [THEN conjunct1] by (simp add: 2(4))
        show "subseq (concat (new_str ?st)) (a @ b)"
          using 2(6) x y unfolding out by (simp add: list_emb_append_mono)
      qed
    next
      assume y: "index ?st = i + length v \<and> subseq y v"
      show ?thesis unfolding step
      proof (rule 2(2) [OF Some])
        show "s = (a @ b @ v) @ [] @ ?r" using s by simp
        show "i + length v = length (a @ b @ v) + length ([] :: string)" using 2(4) by simp
        show "index ?st = length (a @ b @ v)" unfolding y [THEN conjunct1] by (simp add: 2(4))
        show "subseq (concat (new_str ?st)) (a @ b @ v)"
          using 2(6) x y unfolding out by (simp add: list_emb_append_mono)
      qed
    qed
  qed
qed

text \<open>Minifying only deletes. On every text, well formed or not, the result with removal of white
  space is a subsequence of the text, so it is never longer and no character is added or moved.\<close>

theorem json_minify_subseq:
  "subseq (json_minify s True) s \<and> length (json_minify s True) \<le> length s"
proof -
  have "subseq (json_minify s True) s"
    using fold_subseq [of s "[]" "[]" s 0 minify_init] by (simp add: json_minify_def Let_def minify_init_def)
  then show ?thesis by (simp add: list_emb_length)
qed

end
