(* ===== verification/Json_Pieces.thy ===== *)
theory Json_Pieces
  imports Json_Minify
begin

text \<open>
  What \<^verbatim>\<open>infra/json_minify.py\<close> means for a JSON text with comments, written as a sequence of pieces.
\<close>

section \<open>Pieces\<close>

datatype piece =
    Plain string        \<comment> \<open>brackets, commas, colons, numbers and names\<close>
  | Quoted string       \<comment> \<open>a string, without its quotes\<close>
  | Blank string
  | Block string        \<comment> \<open>a comment between marks\<close>
  | Line string char    \<comment> \<open>a comment up to a line break\<close>

fun piece_text :: "piece \<Rightarrow> string" where
  "piece_text (Plain s) = s"
| "piece_text (Quoted s) = [QUOTE] @ s @ [QUOTE]"
| "piece_text (Blank s) = s"
| "piece_text (Block s) = ''/*'' @ s @ ''*/''"
| "piece_text (Line s c) = ''//'' @ s @ [c]"

text \<open>Inside a string every backslash escapes the next character, and quotes are escaped.\<close>

fun string_body :: "string \<Rightarrow> bool" where
  "string_body [] = True"
| "string_body (c # cs) =
     (if c = BACKSLASH then (case cs of [] \<Rightarrow> False | d # ds \<Rightarrow> d \<noteq> LF \<and> d \<noteq> CR \<and> string_body ds)
      else c \<noteq> QUOTE \<and> c \<noteq> LF \<and> c \<noteq> CR \<and> string_body cs)"

fun piece_ok :: "piece \<Rightarrow> bool" where
  "piece_ok (Plain s) = (\<forall>c \<in> set s. \<not> is_ws c \<and> c \<notin> {QUOTE, CHR ''/'', CHR ''*''})"
| "piece_ok (Quoted s) = string_body s"
| "piece_ok (Blank s) = (\<forall>c \<in> set s. is_ws c)"
| "piece_ok (Block s) = (\<not> contains ''*/'' s \<and> (s = [] \<or> last s \<noteq> CHR ''/''))"
| "piece_ok (Line s c) = (LF \<notin> set s \<and> CR \<notin> set s \<and> (c = LF \<or> c = CR))"

text \<open>What is left of a piece: comments vanish, or become blanks of the same length with their line breaks.\<close>

definition erased :: "bool \<Rightarrow> string \<Rightarrow> string" where
  "erased strip_space s =
     (if strip_space then [] else map (\<lambda>c. if c = LF \<or> c = CR then c else CHR '' '') s)"

fun piece_left :: "bool \<Rightarrow> piece \<Rightarrow> string" where
  "piece_left sp (Plain s) = s"
| "piece_left sp (Quoted s) = piece_text (Quoted s)"
| "piece_left sp (Blank s) = (if sp then [] else s)"
| "piece_left sp p = erased sp (piece_text p)"

section \<open>The reference machine on pieces\<close>

lemma erased_simps [simp]:
  "erased sp [] = []" "erased sp (s @ t) = erased sp s @ erased sp t"
  by (simp_all add: erased_def)

lemma erased_Cons: "erased sp (c # s) = erased sp [c] @ erased sp s"
  by (simp add: erased_def)

lemma token_chars: "token_at s = Some v \<Longrightarrow> set v \<subseteq> {QUOTE, CHR ''/'', CHR ''*'', LF, CR} \<and> (\<exists>a. v = [a] \<or> (\<exists>b. v = [a, b]))"
  by (elim token_at_cases) simp_all

text \<open>One step of the machine.\<close>

lemma minify_token:
  assumes "token_at (v @ r) = Some v"
  shows "minify_ref sp m (v @ r) = fst (ref_token sp m v) @ minify_ref sp (snd (ref_token sp m v)) r"
proof -
  obtain c cs where "v = c # cs" using token_chars [OF assms] by blast
  then show ?thesis using assms by (simp del: token_at.simps)
qed

lemma minify_char:
  "token_at (c # r) = None \<Longrightarrow> minify_ref sp m (c # r) = fst (ref_char sp m c) @ minify_ref sp (snd (ref_char sp m c)) r"
  by (simp del: token_at.simps)

text \<open>A token at the start of a stretch of text lies inside it, if none goes beyond its end.\<close>

definition separate :: "string \<Rightarrow> string \<Rightarrow> bool" where
  "separate u w \<longleftrightarrow> (u \<noteq> [] \<longrightarrow> (\<forall>v. token_at (last u # w) = Some v \<longrightarrow> length v = 1))"

lemma separate_tl: "separate (u @ u') w \<Longrightarrow> separate u' w"
  by (auto simp: separate_def)

lemma token_inside:
  assumes tok: "token_at (u @ w) = Some v" and u: "u \<noteq> []" and sep: "separate u w"
  shows "\<exists>u'. u = v @ u'"
proof -
  have "prefix v (u @ w)" using token_at_prefix [OF tok] by (auto intro: prefixI)
  moreover have "length v \<le> length u"
  proof (cases "length u = 1")
    case True
    then have "u = [last u]" by (cases u) simp_all
    then have "token_at (last u # w) = Some v" using tok by (metis append_Cons append_Nil)
    then show ?thesis using sep u True by (simp add: separate_def del: token_at.simps)
  next
    case False
    then have "2 \<le> length u" using u by (cases u; cases "tl u") auto
    moreover have "length v \<le> 2" using token_chars [OF tok] by auto
    ultimately show ?thesis by simp
  qed
  ultimately have "prefix v u" by (metis prefixI prefix_length_prefix)
  then show ?thesis by (auto simp: prefix_def)
qed

text \<open>
  Reading a stretch of text, in any context: \<open>may m u\<close> says what may still come in mode \<open>m\<close>, and \<open>out\<close> what
  is left of a stretch.
\<close>

lemma minify_stretch:
  assumes chr: "\<And>m c u. may m (c # u) \<Longrightarrow> c \<noteq> QUOTE \<and> c \<noteq> LF \<and> c \<noteq> CR \<Longrightarrow> fst (ref_char sp m c) = out [c] \<and> may (snd (ref_char sp m c)) u"
    and tok: "\<And>m v u r. may m (v @ u) \<Longrightarrow> token_at (v @ r) = Some v \<Longrightarrow> fst (ref_token sp m v) = out v \<and> may (snd (ref_token sp m v)) u"
    and out: "out [] = []" "\<And>u u'. out (u @ u') = out u @ out u'"
    and "may m u" and "separate u w"
  shows "\<exists>m'. may m' [] \<and> minify_ref sp m (u @ w) = out u @ minify_ref sp m' w"
  using assms(5,6)
proof (induction u arbitrary: m rule: length_induct)
  case (1 u)
  note IH = 1(1)[rule_format] and ok = 1(2) and sep = 1(3)
  show ?case
  proof (cases u)
    case Nil
    then show ?thesis using ok out by auto
  next
    case (Cons c cs)
    show ?thesis
    proof (cases "token_at (u @ w)")
      case None
      have step: "fst (ref_char sp m c) = out [c]" "may (snd (ref_char sp m c)) cs" using chr ok Cons token_at_NoneD [of c "cs @ w"] None by (simp_all del: token_at.simps)
      moreover have "separate cs w" using separate_tl [of "[c]"] sep Cons by simp
      ultimately obtain m' where "may m' []" "minify_ref sp (snd (ref_char sp m c)) (cs @ w) = out cs @ minify_ref sp m' w"
        using IH [of cs] Cons by auto
      then show ?thesis using None Cons minify_char [of c "cs @ w"] step out(2) [of "[c]" cs] by auto
    next
      case (Some v)
      obtain u' where u': "u = v @ u'" using token_inside [OF Some _ sep] Cons by auto
      have "v \<noteq> []" using token_chars [OF Some] by auto
      moreover have step: "fst (ref_token sp m v) = out v" "may (snd (ref_token sp m v)) u'"
        using tok [of m v u' "u' @ w"] ok u' Some by simp_all
      moreover have "separate u' w" using separate_tl sep u' by blast
      ultimately obtain m' where "may m' []" "minify_ref sp (snd (ref_token sp m v)) (u' @ w) = out u' @ minify_ref sp m' w"
        using IH [of u'] u' by auto
      then show ?thesis using Some u' minify_token [of v "u' @ w"] step out(2) [of v u'] by auto
    qed
  qed
qed

lemma plain_char:
  "\<not> is_ws c \<Longrightarrow> c \<notin> {QUOTE, CHR ''/'', CHR ''*''} \<Longrightarrow> minify_ref sp Code (c # r) = c # minify_ref sp Code r"
  by (auto simp: is_ws_def)

text \<open>The pieces.\<close>

lemma token_single: "c \<notin> {CHR ''/'', CHR ''*''} \<Longrightarrow> token_at (c # w) = Some v \<Longrightarrow> length v = 1"
  by (auto split: if_splits)

lemma separate_chars:
  assumes "\<forall>c \<in> set u. c \<notin> {CHR ''/'', CHR ''*''}"
  shows "separate u w"
  unfolding separate_def
proof (intro impI allI)
  fix v
  assume "u \<noteq> []" and v: "token_at (last u # w) = Some v"
  then have "last u \<notin> {CHR ''/'', CHR ''*''}" using assms last_in_set by blast
  then show "length v = 1" using token_single v by blast
qed

lemma separateI: "(u \<noteq> [] \<Longrightarrow> \<forall>v. token_at (last u # w) = Some v \<longrightarrow> length v = 1) \<Longrightarrow> separate u w"
  by (simp add: separate_def)

lemma minify_plain:
  assumes "piece_ok (Plain s)"
  shows "minify_ref sp Code (s @ r) = s @ minify_ref sp Code r"
proof -
  define may where "may m u \<longleftrightarrow> m = Code \<and> piece_ok (Plain u)" for m u
  have "\<exists>m'. may m' [] \<and> minify_ref sp Code (s @ r) = id s @ minify_ref sp m' r"
  proof (rule minify_stretch)
    show "separate s r" using assms by (intro separate_chars) simp
    show "fst (ref_token sp m v) = id v \<and> may (snd (ref_token sp m v)) u"
      if "may m (v @ u)" "token_at (v @ r') = Some v" for m v u r'
      using that(1) by (cases rule: token_at_cases [OF that(2)]) (simp_all add: may_def is_ws_def)
  qed (use assms in \<open>auto simp: may_def\<close>)
  then show ?thesis by (auto simp: may_def)
qed

lemma ws_not: "is_ws c \<Longrightarrow> c \<notin> {CHR ''/'', CHR ''*''}"
  by (auto simp: is_ws_def)

lemma minify_blank:
  assumes "piece_ok (Blank s)"
  shows "minify_ref sp Code (s @ r) = (if sp then [] else s) @ minify_ref sp Code r"
proof -
  define may where "may m u \<longleftrightarrow> m = Code \<and> piece_ok (Blank u)" for m u
  have "\<exists>m'. may m' [] \<and> minify_ref sp Code (s @ r) = (\<lambda>u. if sp then [] else u) s @ minify_ref sp m' r"
  proof (rule minify_stretch)
    show "separate s r" using assms by (intro separate_chars ballI ws_not) simp
    show "fst (ref_token sp m v) = (\<lambda>u. if sp then [] else u) v \<and> may (snd (ref_token sp m v)) u"
      if "may m (v @ u)" "token_at (v @ r') = Some v" for m v u r'
      using that(1) by (cases rule: token_at_cases [OF that(2)]) (auto simp: may_def is_ws_def is_newline_def)
  qed (use assms in \<open>auto simp: may_def\<close>)
  then show ?thesis by (auto simp: may_def)
qed

text \<open>Inside a string, with the parity of the backslashes read so far.\<close>

fun string_rest :: "bool \<Rightarrow> string \<Rightarrow> bool" where
  "string_rest od [] = (\<not> od)"
| "string_rest od (c # cs) =
     (c \<noteq> LF \<and> c \<noteq> CR \<and> (c = QUOTE \<longrightarrow> od) \<and> string_rest (c = BACKSLASH \<and> \<not> od) cs)"

lemma string_body_rest: "string_body s \<Longrightarrow> string_rest False s"
  by (induction s rule: string_body.induct) (auto split: list.splits if_splits)

lemma minify_string:
  assumes "string_body s"
  shows "minify_ref sp (Str False) (s @ QUOTE # r) = s @ QUOTE # minify_ref sp Code r"
proof -
  define may where "may m u \<longleftrightarrow> (\<exists>od. m = Str od \<and> string_rest od u)" for m u
  have "\<exists>m'. may m' [] \<and> minify_ref sp (Str False) (s @ QUOTE # r) = id s @ minify_ref sp m' (QUOTE # r)"
  proof (rule minify_stretch)
    show "separate s (QUOTE # r)" by (intro separateI) auto
    show "fst (ref_token sp m v) = id v \<and> may (snd (ref_token sp m v)) u"
      if "may m (v @ u)" "token_at (v @ r') = Some v" for m v u r'
      using that(1) by (cases rule: token_at_cases [OF that(2)]) (auto simp: may_def is_newline_def)
  qed (use assms string_body_rest in \<open>auto simp: may_def\<close>)
  then show ?thesis by (auto simp: may_def)
qed

lemma minify_block:
  assumes "piece_ok (Block s)"
  shows "minify_ref sp Multi (s @ ''*/'' @ r) = erased sp (s @ ''*/'') @ minify_ref sp Code r"
proof -
  define may where "may m u \<longleftrightarrow> m = Multi \<and> \<not> contains ''*/'' u" for m u
  have "\<exists>m'. may m' [] \<and> minify_ref sp Multi (s @ ''*/'' @ r) = erased sp s @ minify_ref sp m' (''*/'' @ r)"
  proof (rule minify_stretch)
    show "separate s (''*/'' @ r)" using assms by (intro separateI) auto
    show "fst (ref_token sp m v) = erased sp v \<and> may (snd (ref_token sp m v)) u"
      if "may m (v @ u)" "token_at (v @ r') = Some v" for m v u r'
      using that(1) by (cases rule: token_at_cases [OF that(2)])
        (auto simp: may_def is_newline_def erased_def blanks_def numeral_2_eq_2)
  qed (use assms in \<open>auto simp: may_def erased_def blanks_def\<close>)
  then show ?thesis by (auto simp: may_def erased_def blanks_def is_newline_def numeral_2_eq_2)
qed

lemma minify_line:
  assumes "piece_ok (Line s c)"
  shows "minify_ref sp Single (s @ c # r) = erased sp (s @ [c]) @ minify_ref sp Code r"
proof -
  define may where "may m u \<longleftrightarrow> m = Single \<and> LF \<notin> set u \<and> CR \<notin> set u" for m u
  have "\<exists>m'. may m' [] \<and> minify_ref sp Single (s @ c # r) = erased sp s @ minify_ref sp m' (c # r)"
  proof (rule minify_stretch)
    show "separate s (c # r)" using assms by (intro separateI) auto
    show "fst (ref_token sp m v) = erased sp v \<and> may (snd (ref_token sp m v)) u"
      if "may m (v @ u)" "token_at (v @ r') = Some v" for m v u r'
      using that(1) by (cases rule: token_at_cases [OF that(2)])
        (auto simp: may_def is_newline_def erased_def blanks_def numeral_2_eq_2)
  qed (use assms in \<open>auto simp: may_def erased_def blanks_def\<close>)
  then show ?thesis using assms by (auto simp: may_def erased_def is_newline_def)
qed

lemma minify_piece:
  assumes "piece_ok p"
  shows "minify_ref sp Code (piece_text p @ r) = piece_left sp p @ minify_ref sp Code r"
proof (cases p)
  case (Block s)
  then show ?thesis using minify_block [of s sp r] assms
    by (simp add: minify_token [of "''/*''", simplified] erased_def blanks_def numeral_2_eq_2)
next
  case (Line s c)
  then show ?thesis using minify_line [of s c sp r] assms
    by (simp add: minify_token [of "''//''", simplified] erased_def blanks_def numeral_2_eq_2)
qed (use assms minify_plain minify_blank minify_string in simp_all)

definition text_of :: "piece list \<Rightarrow> string" where
  "text_of ps = concat (map piece_text ps)"

lemma minify_pieces:
  "list_all piece_ok ps \<Longrightarrow> minify_ref sp Code (text_of ps @ r) = concat (map (piece_left sp) ps) @ minify_ref sp Code r"
  by (induction ps) (simp_all add: text_of_def minify_piece)

section \<open>What minifying does\<close>

text \<open>C4: Minifying removes the comments and nothing else. Take any text that ends with a line break and is made of
  strings, with whatever is in them, of other symbols, of white space, and of comments of both kinds (a
  comment between marks must not end with a third mark, see below). The result has the strings and the
  symbols in their order, unchanged; with \<open>strip_space\<close> it has nothing else, and without it white
  space is kept and every comment becomes blanks of the same length, with its line breaks.\<close>

theorem json_minify_pieces:
  assumes "list_all piece_ok ps" and "ends_line (text_of ps)"
  shows "json_minify (text_of ps) strip_space = concat (map (piece_left strip_space) ps)"
  using minify_pieces [OF assms(1), of strip_space "[]"] json_minify_eq_ref [of "text_of ps" strip_space] assms(2) by simp

text \<open>The result is minified already.\<close>

fun kept :: "piece \<Rightarrow> bool" where
  "kept (Plain s) = True"
| "kept (Quoted s) = True"
| "kept p = False"

lemma pieces_kept: "concat (map (piece_left True) ps) = text_of (filter kept ps)"
proof (induction ps)
  case (Cons p ps)
  then show ?case by (cases p) (simp_all add: text_of_def erased_def)
qed (simp add: text_of_def)

theorem json_minify_idempotent:
  assumes "list_all piece_ok ps" and "ends_line (text_of ps)"
  shows "json_minify (json_minify (text_of ps) True @ [LF]) True = json_minify (text_of ps) True"
proof -
  let ?qs = "filter kept ps"
  have once: "json_minify (text_of ps) True = text_of ?qs"
    using minify_pieces [OF assms(1), of True "[]"] json_minify_eq_ref [of "text_of ps" True] assms(2) by (simp add: pieces_kept)
  have "list_all piece_ok ?qs" using assms(1) by (auto simp: list_all_iff)
  then have "minify_ref True Code (text_of ?qs @ [LF]) = text_of (filter kept ?qs) @ minify_ref True Code [LF]"
    by (simp add: minify_pieces pieces_kept del: filter_filter minify_ref.simps)
  moreover have "minify_ref True Code [LF] = []" by (simp add: is_newline_def)
  ultimately show ?thesis
    unfolding once using json_minify_eq_ref [of "text_of ?qs @ [LF]" True] by (simp add: ends_line_def)
qed

text \<open>
  A comment whose text ends with a slash is not closed: the tokenizer takes the slash and the star of
  the end mark for a start mark, and everything after it is lost.
\<close>

theorem comment_not_closed:
  "json_minify (''{} /* all of conf.d/*/ [1]'' @ [LF]) True = ''{}''"
  by code_simp

definition example_pieces :: "piece list" where
  "example_pieces = [Plain ''{'', Block '' a '', Quoted ''// b'', Plain '':'', Blank '' '', Plain ''1}'', Line '' c'' LF]"

theorem json_minify_pieces_witness:
  "json_minify (text_of example_pieces) True = ''{'' @ [QUOTE] @ ''// b'' @ [QUOTE] @ '':1}''"
proof -
  have "list_all piece_ok example_pieces" "ends_line (text_of example_pieces)"
    by (simp_all add: example_pieces_def text_of_def ends_line_def is_ws_def)
  from json_minify_pieces [OF this] show ?thesis by (simp add: example_pieces_def erased_def)
qed

end
