(* ===== verification/Py_Utf8.thy ===== *)
theory Py_Utf8
  imports Py_Strings
begin

text \<open>
  Decoding with the strict UTF-8 codec. A text is kept as its UTF-8 bytes, so that decoding only
  rejects what is not well formed, and encoding a text is the identity.
\<close>

section \<open>Well-formed byte sequences\<close>

text \<open>
  Of the first byte of a character: how many bytes follow, and the range of the first of them
  (overlong forms, surrogates and code points above U+10FFFF are excluded).
\<close>

definition lead_byte :: "nat \<Rightarrow> (nat \<times> nat \<times> nat) option" where
  "lead_byte b =
     (if b < 0x80 then Some (0, 0x80, 0xBF)
      else if 0xC2 \<le> b \<and> b \<le> 0xDF then Some (1, 0x80, 0xBF)
      else if b = 0xE0 then Some (2, 0xA0, 0xBF)
      else if b = 0xED then Some (2, 0x80, 0x9F)
      else if 0xE1 \<le> b \<and> b \<le> 0xEF then Some (2, 0x80, 0xBF)
      else if b = 0xF0 then Some (3, 0x90, 0xBF)
      else if 0xF1 \<le> b \<and> b \<le> 0xF3 then Some (3, 0x80, 0xBF)
      else if b = 0xF4 then Some (3, 0x80, 0x8F)
      else None)"

text \<open>\<open>k\<close> bytes of the current character are missing, the next of them between \<open>lo\<close> and \<open>hi\<close>.\<close>

fun utf8_from :: "nat \<Rightarrow> nat \<Rightarrow> nat \<Rightarrow> string \<Rightarrow> bool" where
  "utf8_from 0 lo hi [] = True"
| "utf8_from (Suc k) lo hi [] = False"
| "utf8_from 0 lo hi (c # cs) =
     (case lead_byte (of_char c) of None \<Rightarrow> False | Some (k, lo', hi') \<Rightarrow> utf8_from k lo' hi' cs)"
| "utf8_from (Suc k) lo hi (c # cs) =
     (lo \<le> of_char c \<and> of_char c \<le> hi \<and> utf8_from k 0x80 0xBF cs)"

definition utf8_ok :: "string \<Rightarrow> bool" where
  "utf8_ok s = utf8_from 0 0x80 0xBF s"

definition ascii :: "string \<Rightarrow> bool" where
  "ascii s = list_all (\<lambda>c. (of_char c :: nat) < 0x80) s"

definition decode_utf8 :: "string \<Rightarrow> string result" where
  "decode_utf8 b = (if utf8_ok b then Inr b else Inl UnicodeDecodeError)"

text \<open>Reading text decodes and translates line ends.\<close>

definition decode_text :: "string \<Rightarrow> string result" where
  "decode_text b = rbind (decode_utf8 b) (\<lambda>t. Inr (universal_newlines t))"

section \<open>Laws\<close>

lemma lead_byte_range: "lead_byte b = Some (k, lo, hi) \<Longrightarrow> 0x80 \<le> lo"
  by (auto simp: lead_byte_def split: if_splits)

lemma lead_byte_ascii: "b < 0x80 \<Longrightarrow> lead_byte b = Some (0, 0x80, 0xBF)"
  by (simp add: lead_byte_def)

lemma utf8_from_ascii [simp]: "ascii a \<Longrightarrow> utf8_from 0 lo hi (a @ s) = (if a = [] then utf8_from 0 lo hi s else utf8_ok s)"
proof (induction a arbitrary: lo hi)
  case (Cons c a)
  then show ?case by (cases a) (simp_all add: ascii_def lead_byte_ascii utf8_ok_def)
qed simp

lemma utf8_from_0: "utf8_from 0 lo hi s = utf8_ok s"
  by (cases s) (simp_all add: utf8_ok_def)

lemma utf8_ok_ascii_append [simp]: "ascii a \<Longrightarrow> utf8_ok (a @ s) = utf8_ok s"
  unfolding utf8_ok_def by (simp add: utf8_ok_def)

lemma utf8_ok_Cons_ascii: "(of_char c :: nat) < 0x80 \<Longrightarrow> utf8_ok (c # s) = utf8_ok s"
  using utf8_ok_ascii_append [of "[c]" s] by (simp add: ascii_def)

lemma utf8_ok_Nil [simp]: "utf8_ok []"
  by (simp add: utf8_ok_def)

lemma utf8_ok_ascii: "ascii a \<Longrightarrow> utf8_ok a"
  using utf8_ok_ascii_append [of a "[]"] by simp

text \<open>Inside a character there is no ASCII byte.\<close>

lemma utf8_from_not_ascii:
  assumes "utf8_from (Suc k) lo hi (c # s)" and "0x80 \<le> lo"
  shows "0x80 \<le> (of_char c :: nat)"
  using assms by simp

lemma utf8_from_append:
  "utf8_from k lo hi a \<Longrightarrow> utf8_from k lo hi (a @ s) = utf8_ok s"
proof (induction k lo hi a rule: utf8_from.induct)
  case (1 lo hi)
  then show ?case by (simp add: utf8_from_0)
qed (auto split: option.splits prod.splits)

lemma utf8_ok_append: "utf8_ok a \<Longrightarrow> utf8_ok (a @ s) = utf8_ok s"
  unfolding utf8_ok_def by (simp add: utf8_from_append utf8_ok_def)

lemma utf8_from_universal_newlines:
  "utf8_from k lo hi s \<Longrightarrow> 0x80 \<le> lo \<Longrightarrow> utf8_from k lo hi (universal_newlines s)"
proof (induction s arbitrary: k lo hi rule: universal_newlines.induct)
  case (2 c cs)
  show ?case
  proof (cases k)
    case 0
    show ?thesis
    proof (cases "c = CR")
      case True
      have ok: "utf8_ok cs" using 2(4) True 0 by (simp add: utf8_from_0 utf8_ok_Cons_ascii)
      then have IH: "utf8_ok (universal_newlines cs)" if "cs \<noteq> [] \<longrightarrow> hd cs \<noteq> LF"
        using 2(2) [of _ _ 0 "0x80" "0xBF"] True that by (cases cs) (auto simp: utf8_ok_def)
      show ?thesis
      proof (cases cs)
        case Nil
        then show ?thesis using 0 True by (simp add: lead_byte_def)
      next
        case (Cons c' cs')
        show ?thesis
        proof (cases "c' = LF")
          case lf: True
          then have "utf8_ok cs'" using ok Cons lf by (simp add: utf8_ok_Cons_ascii)
          then have "utf8_ok (universal_newlines cs')"
            using 2(1) [OF True Cons lf, of 0 "0x80" "0xBF"] by (simp add: utf8_ok_def)
          then show ?thesis using 0 True Cons lf by (simp add: utf8_from_0 utf8_ok_Cons_ascii)
        next
          case False
          then have "universal_newlines (c # cs) = LF # universal_newlines cs" using True Cons by simp
          then show ?thesis using 0 IH Cons False by (simp add: utf8_from_0 utf8_ok_Cons_ascii)
        qed
      qed
    next
      case False
      then show ?thesis using 2 0 by (auto split: option.splits prod.splits dest: lead_byte_range)
    qed
  next
    case (Suc j)
    then have "0x80 \<le> (of_char c :: nat)" using 2(4,5) by simp
    then have "c \<noteq> CR" by auto
    then show ?thesis using 2 Suc by simp
  qed
qed simp

lemma utf8_ok_universal_newlines: "utf8_ok s \<Longrightarrow> utf8_ok (universal_newlines s)"
  unfolding utf8_ok_def by (rule utf8_from_universal_newlines) simp_all

lemma decode_text_Inr: "decode_text b = Inr t \<longleftrightarrow> utf8_ok b \<and> t = universal_newlines b"
  by (auto simp: decode_text_def decode_utf8_def)

lemma decode_text_idem: "decode_text b = Inr t \<Longrightarrow> decode_text t = Inr t"
  by (auto simp: decode_text_Inr utf8_ok_universal_newlines)

lemma decode_text_Nil [simp]: "decode_text [] = Inr []"
  by (simp add: decode_text_Inr)

lemma decode_text_Inl: "decode_text b = Inl e \<longleftrightarrow> \<not> utf8_ok b \<and> e = UnicodeDecodeError"
  by (auto simp: decode_text_def decode_utf8_def)

lemma decode_text_eq:
  "decode_text b = (if utf8_ok b then Inr (universal_newlines b) else Inl UnicodeDecodeError)"
  by (simp add: decode_text_def decode_utf8_def)

text \<open>ASCII text around a single byte: the byte is a character of its own.\<close>

lemma utf8_ok_between:
  assumes "utf8_ok (x # b @ s)" and "ascii b" and "b \<noteq> []"
  shows "utf8_ok s"
proof -
  from assms(1) obtain k lo hi where l: "lead_byte (of_char x) = Some (k, lo, hi)"
    and r: "utf8_from k lo hi (b @ s)"
    by (auto simp: utf8_ok_def split: option.splits)
  obtain y b' where b: "b = y # b'" using assms(3) by (cases b) auto
  then have y: "(of_char y :: nat) < 0x80" using assms(2) by (simp add: ascii_def)
  have "k = 0"
  proof (rule ccontr)
    assume "k \<noteq> 0"
    then obtain j where "k = Suc j" by (cases k) auto
    then show False using r b y lead_byte_range [OF l] by simp
  qed
  with r assms(2) show ?thesis by (simp add: utf8_from_0)
qed

end
