(* ===== verification/Py_State.thy ===== *)
theory Py_State
  imports Py_Prelude
begin

text \<open>
  Programs that change a state: an action maps a state to a result and the state it leaves behind,
  also when it raises. Besides sequencing there are the loops over lists and the two questions that
  are asked of every program: which properties of the state it keeps, and which exceptions it raises.
\<close>

type_synonym ('s, 'a) act = "'s \<Rightarrow> 'a result \<times> 's"

definition io_return :: "'a \<Rightarrow> ('s, 'a) act" where
  "io_return x s = (Inr x, s)"

definition io_raise :: "py_error \<Rightarrow> ('s, 'a) act" where
  "io_raise e s = (Inl e, s)"

definition io_lift :: "'a result \<Rightarrow> ('s, 'a) act" where
  "io_lift r s = (r, s)"

definition io_bind :: "('s, 'a) act \<Rightarrow> ('a \<Rightarrow> ('s, 'b) act) \<Rightarrow> ('s, 'b) act" where
  "io_bind m k s = (case m s of (Inl e, s') \<Rightarrow> (Inl e, s') | (Inr x, s') \<Rightarrow> k x s')"

text \<open>A loop whose body returns nothing.\<close>

fun io_for :: "('a \<Rightarrow> ('s, unit) act) \<Rightarrow> 'a list \<Rightarrow> ('s, unit) act" where
  "io_for f [] = io_return ()"
| "io_for f (x # xs) = io_bind (f x) (\<lambda>_. io_for f xs)"

lemma io_simps [simp]:
  "io_return x s = (Inr x, s)" "io_raise e s = (Inl e, s)" "io_lift r s = (r, s)"
  by (simp_all add: io_return_def io_raise_def io_lift_def)

lemma io_bind_Inr: "io_bind m k s = (Inr y, s') \<longleftrightarrow> (\<exists>x t. m s = (Inr x, t) \<and> k x t = (Inr y, s'))"
  by (auto simp: io_bind_def split: prod.splits sum.splits)

lemma io_bind_Inl: "io_bind m k s = (Inl e, s') \<longleftrightarrow>
    m s = (Inl e, s') \<or> (\<exists>x t. m s = (Inr x, t) \<and> k x t = (Inl e, s'))"
  by (auto simp: io_bind_def split: prod.splits sum.splits)

lemma io_bind_pure [simp]: "m s = (Inr x, s') \<Longrightarrow> io_bind m k s = k x s'"
  by (simp add: io_bind_def)

lemma io_bind_raises [simp]: "m s = (Inl e, s') \<Longrightarrow> io_bind m k s = (Inl e, s')"
  by (simp add: io_bind_def)

section \<open>Invariants\<close>

text \<open>An action keeps a property of the state whether it returns or raises.\<close>

definition io_keeps :: "('s \<Rightarrow> bool) \<Rightarrow> ('s, 'a) act \<Rightarrow> bool" where
  "io_keeps P m \<longleftrightarrow> (\<forall>fs. P fs \<longrightarrow> P (snd (m fs)))"

named_theorems io_keeps_intros

lemma io_keepsD: "io_keeps P m \<Longrightarrow> P fs \<Longrightarrow> m fs = (r, fs') \<Longrightarrow> P fs'"
  unfolding io_keeps_def by (metis snd_conv)

lemma io_keeps_bind [io_keeps_intros]: "io_keeps P m \<Longrightarrow> (\<And>x. io_keeps P (k x)) \<Longrightarrow> io_keeps P (io_bind m k)"
  unfolding io_keeps_def io_bind_def by (fastforce split: prod.splits sum.splits)

lemma io_keeps_pure [io_keeps_intros]:
  "io_keeps P (io_return x)" "io_keeps P (io_raise e)" "io_keeps P (io_lift r)"
  by (simp_all add: io_keeps_def)

lemma io_keeps_for [io_keeps_intros]: "(\<And>x. x \<in> set xs \<Longrightarrow> io_keeps P (f x)) \<Longrightarrow> io_keeps P (io_for f xs)"
  by (induction xs) (auto intro: io_keeps_intros)

section \<open>Exceptions\<close>

text \<open>The exceptions that an action can raise.\<close>

definition raises_in :: "py_error set \<Rightarrow> 'a result \<Rightarrow> bool" where
  "raises_in E r \<longleftrightarrow> (\<forall>e. r = Inl e \<longrightarrow> e \<in> E)"

definition io_raises_in :: "py_error set \<Rightarrow> ('s, 'a) act \<Rightarrow> bool" where
  "io_raises_in E m \<longleftrightarrow> (\<forall>fs. raises_in E (fst (m fs)))"

named_theorems raises_intros

lemma raises_in_rbind [raises_intros]:
  "raises_in E r \<Longrightarrow> (\<And>x. raises_in E (f x)) \<Longrightarrow> raises_in E (rbind r f)"
  by (auto simp: raises_in_def rbind_eq_Inl)

lemma raises_in_Inr [raises_intros]: "raises_in E (Inr x)"
  by (simp add: raises_in_def)

lemma raises_in_Inl [raises_intros]: "e \<in> E \<Longrightarrow> raises_in E (Inl e)"
  by (simp add: raises_in_def)

lemma raises_in_if [raises_intros]:
  "raises_in E r \<Longrightarrow> raises_in E r' \<Longrightarrow> raises_in E (if b then r else r')"
  by simp

lemma raises_in_assert: "AssertionError \<in> E \<Longrightarrow> raises_in E (py_assert b)"
  by (simp add: raises_in_def py_assert_def)

lemma io_raises_bind [raises_intros]:
  assumes "io_raises_in E m" and "\<And>x. io_raises_in E (k x)"
  shows "io_raises_in E (io_bind m k)"
  unfolding io_raises_in_def raises_in_def
proof (intro allI impI)
  fix fs e
  assume e: "fst (io_bind m k fs) = Inl e"
  obtain r f where m: "m fs = (r, f)" by (rule prod.exhaust)
  show "e \<in> E"
  proof (cases r)
    case (Inl e')
    then have "fst (m fs) = Inl e" using e m by (simp add: io_bind_def)
    then show ?thesis using assms(1) unfolding io_raises_in_def raises_in_def by blast
  next
    case (Inr x)
    then have "fst (k x f) = Inl e" using e m by (simp add: io_bind_def)
    then show ?thesis using assms(2) unfolding io_raises_in_def raises_in_def by blast
  qed
qed

lemma io_raises_basic [raises_intros]:
  "io_raises_in E (io_return x)" "e \<in> E \<Longrightarrow> io_raises_in E (io_raise e)"
  "raises_in E r \<Longrightarrow> io_raises_in E (io_lift r)"
  by (simp_all add: io_raises_in_def raises_in_def)

lemma io_raises_if [raises_intros]:
  "io_raises_in E m \<Longrightarrow> io_raises_in E m' \<Longrightarrow> io_raises_in E (if b then m else m')"
  by simp

lemma io_raises_for [raises_intros]:
  "(\<And>x. x \<in> set xs \<Longrightarrow> io_raises_in E (f x)) \<Longrightarrow> io_raises_in E (io_for f xs)"
  by (induction xs) (auto intro: raises_intros)

section \<open>Handlers and collected results\<close>

text \<open>\<open>try ... except\<close>: the handler sees the exception and the state at which it was raised.\<close>

definition io_catch :: "('s, 'a) act \<Rightarrow> (py_error \<Rightarrow> ('s, 'a) act) \<Rightarrow> ('s, 'a) act" where
  "io_catch m h s = (case m s of (Inl e, s') \<Rightarrow> h e s' | (Inr x, s') \<Rightarrow> (Inr x, s'))"

fun io_collect :: "('a \<Rightarrow> ('s, 'b) act) \<Rightarrow> 'a list \<Rightarrow> ('s, 'b list) act" where
  "io_collect f [] = io_return []"
| "io_collect f (x # xs) = io_bind (f x) (\<lambda>y. io_bind (io_collect f xs) (\<lambda>ys. io_return (y # ys)))"

lemma io_catch_Inr: "io_catch m h s = (Inr x, s') \<longleftrightarrow>
    m s = (Inr x, s') \<or> (\<exists>e t. m s = (Inl e, t) \<and> h e t = (Inr x, s'))"
  by (auto simp: io_catch_def split: prod.splits sum.splits)

lemma io_catch_Inl: "io_catch m h s = (Inl e, s') \<longleftrightarrow> (\<exists>e' t. m s = (Inl e', t) \<and> h e' t = (Inl e, s'))"
  by (auto simp: io_catch_def split: prod.splits sum.splits)

lemma io_keeps_catch [io_keeps_intros]:
  "io_keeps P m \<Longrightarrow> (\<And>e. io_keeps P (h e)) \<Longrightarrow> io_keeps P (io_catch m h)"
  unfolding io_keeps_def io_catch_def by (fastforce split: prod.splits sum.splits)

lemma io_keeps_if [io_keeps_intros]:
  "io_keeps P m \<Longrightarrow> io_keeps P m' \<Longrightarrow> io_keeps P (if b then m else m')"
  by simp

lemma io_keeps_collect [io_keeps_intros]:
  "(\<And>x. x \<in> set xs \<Longrightarrow> io_keeps P (f x)) \<Longrightarrow> io_keeps P (io_collect f xs)"
  by (induction xs) (auto intro!: io_keeps_intros)

section \<open>Actions that succeed\<close>

text \<open>From every state with the first property the action returns, in a state with the second.\<close>

definition io_total :: "('s \<Rightarrow> bool) \<Rightarrow> ('s, 'a) act \<Rightarrow> ('s \<Rightarrow> bool) \<Rightarrow> bool" where
  "io_total P m Q \<longleftrightarrow> (\<forall>s. P s \<longrightarrow> (\<exists>x s'. m s = (Inr x, s') \<and> Q s'))"

named_theorems total_intros

lemma io_totalD: "io_total P m Q \<Longrightarrow> P s \<Longrightarrow> \<exists>x s'. m s = (Inr x, s') \<and> Q s'"
  by (simp add: io_total_def)

lemma io_total_bind:
  assumes "io_total P m Q" and "\<And>x. io_total Q (k x) R"
  shows "io_total P (io_bind m k) R"
  unfolding io_total_def
proof (intro allI impI)
  fix s
  assume "P s"
  then obtain x s' where m: "m s = (Inr x, s')" "Q s'" using io_totalD [OF assms(1)] by blast
  then show "\<exists>y t. io_bind m k s = (Inr y, t) \<and> R t" using io_totalD [OF assms(2)] by simp
qed

lemma io_total_keep_bind [total_intros]:
  "io_total P m P \<Longrightarrow> (\<And>x. io_total P (k x) P) \<Longrightarrow> io_total P (io_bind m k) P"
  by (rule io_total_bind)

lemma io_total_pure [total_intros]:
  "io_total P (io_return x) P" "r = Inr x \<Longrightarrow> io_total P (io_lift r) P"
  by (simp_all add: io_total_def)

lemma io_total_if [total_intros]: "io_total P m Q \<Longrightarrow> io_total P m' Q \<Longrightarrow> io_total P (if b then m else m') Q"
  by simp

lemma io_total_for [total_intros]: "(\<And>x. x \<in> set xs \<Longrightarrow> io_total P (f x) P) \<Longrightarrow> io_total P (io_for f xs) P"
  by (induction xs) (auto intro!: total_intros)

lemma io_total_collect [total_intros]:
  "(\<And>x. x \<in> set xs \<Longrightarrow> io_total P (f x) P) \<Longrightarrow> io_total P (io_collect f xs) P"
  by (induction xs) (auto intro!: total_intros)

lemma io_total_catch [total_intros]: "io_total P m Q \<Longrightarrow> io_total P (io_catch m h) Q"
  unfolding io_total_def io_catch_def by fastforce

section \<open>Loops that need not end\<close>

text \<open>A loop whose body either leaves it with a result or goes on from a new state.\<close>

partial_function (option) loop :: "('s \<Rightarrow> 'a + 's) \<Rightarrow> 's \<Rightarrow> 'a option" where
  "loop body s = (case body s of Inl x \<Rightarrow> Some x | Inr s' \<Rightarrow> loop body s')"

fun passes :: "('s \<Rightarrow> 'a + 's) \<Rightarrow> nat \<Rightarrow> 's \<Rightarrow> 's option" where
  "passes body 0 s = Some s"
| "passes body (Suc n) s = (case body s of Inl x \<Rightarrow> None | Inr s' \<Rightarrow> passes body n s')"

text \<open>The loop ends with a result exactly if some number of passes leads to a state that leaves it so.\<close>

lemma loop_Some_iff: "loop body s = Some x \<longleftrightarrow> (\<exists>n t. passes body n s = Some t \<and> body t = Inl x)"
proof
  assume ret: "loop body s = Some x"
  show "\<exists>n t. passes body n s = Some t \<and> body t = Inl x"
  proof (rule loop.raw_induct [where P = "\<lambda>body s x. \<exists>n t. passes body n s = Some t \<and> body t = Inl x", OF _ ret])
    fix f and body :: "'s \<Rightarrow> 'a + 's" and s x
    assume IH: "\<And>body s x. f body s = Some x \<Longrightarrow> \<exists>n t. passes body n s = Some t \<and> body t = Inl x"
      and eq: "(case body s of Inl x \<Rightarrow> Some x | Inr s' \<Rightarrow> f body s') = Some x"
    show "\<exists>n t. passes body n s = Some t \<and> body t = Inl x"
    proof (cases "body s")
      case (Inl y)
      then show ?thesis using eq by (intro exI [of _ 0] exI [of _ s]) simp
    next
      case (Inr s')
      then obtain n t where "passes body n s' = Some t" "body t = Inl x" using IH eq by fastforce
      then show ?thesis using Inr by (intro exI [of _ "Suc n"] exI [of _ t]) simp
    qed
  qed
next
  assume "\<exists>n t. passes body n s = Some t \<and> body t = Inl x"
  then obtain n t where "passes body n s = Some t" "body t = Inl x" by blast
  then show "loop body s = Some x"
  proof (induction n arbitrary: s)
    case 0
    then show ?case by (subst loop.simps) simp
  next
    case (Suc n)
    then show ?case by (subst loop.simps) (auto split: sum.splits)
  qed
qed

lemma passes_Suc_end:
  "passes body (Suc n) s = (case passes body n s of None \<Rightarrow> None
     | Some t \<Rightarrow> (case body t of Inl x \<Rightarrow> None | Inr t' \<Rightarrow> Some t'))"
proof (induction n arbitrary: s)
  case (Suc n)
  show ?case
  proof (cases "body s")
    case (Inr s')
    then have "passes body (Suc (Suc n)) s = passes body (Suc n) s'" "passes body (Suc n) s = passes body n s'" by simp_all
    then show ?thesis by (simp only: Suc.IH)
  qed simp
qed (simp split: sum.splits)

lemma passes_invariant:
  assumes "passes body n s = Some t" and "P s" and "\<And>u u'. P u \<Longrightarrow> body u = Inr u' \<Longrightarrow> P u'"
  shows "P t"
  using assms(1,2) by (induction n arbitrary: s) (auto split: sum.splits intro: assms(3))

text \<open>A loop that keeps a property which never lets it end.\<close>

lemma loop_forever:
  assumes "P s" and "\<And>u. P u \<Longrightarrow> \<exists>u'. body u = Inr u' \<and> P u'"
  shows "loop body s = None"
proof (rule ccontr)
  assume "loop body s \<noteq> None"
  then obtain n t x where t: "passes body n s = Some t" "body t = Inl x" by (auto simp: loop_Some_iff)
  have "P t" by (rule passes_invariant [of body n s t P, OF t(1) assms(1)]) (use assms(2) in fastforce)
  then show False using assms(2) t(2) by fastforce
qed

text \<open>Following a loop along a sequence of states.\<close>

lemma loop_reach:
  assumes "\<And>k. k < n \<Longrightarrow> body (st k) = Inr (st (Suc k))"
  shows "loop body (st 0) = loop body (st n)"
  using assms
proof (induction n)
  case (Suc n)
  then have "loop body (st n) = loop body (st (Suc n))" by (subst loop.simps) simp
  then show ?case using Suc by simp
qed simp

lemma loop_never:
  assumes "\<And>k. body (st k) = Inr (st (Suc k))"
  shows "loop body (st 0) = None"
  by (rule loop_forever [where P = "\<lambda>s. \<exists>k. s = st k"]) (use assms in auto)

lemma loop_ends: "body s = Inl x \<Longrightarrow> loop body s = Some x"
  by (subst loop.simps) simp

end
