(* ===== verification/File_System.thy ===== *)
theory File_System
  imports Py_Utf8 Py_State
begin

text \<open>
  The files that the maintenance scripts read and write. A path is the list of its components from
  the root; a file system maps paths to files and directories. Operations return a result and the
  file system they leave behind, also when they raise. Symbolic links and permissions are not
  modelled; reading text decodes it and translates line ends.
\<close>

type_synonym path = "string list"

datatype fs_node = File string | Dir

type_synonym fs = "(path, fs_node) dict"

type_synonym 'a io = "(fs, 'a) act"

section \<open>Paths\<close>

record ppath =
  is_absolute :: bool
  parts :: path

fun normalise :: "path \<Rightarrow> path \<Rightarrow> path" where
  "normalise acc [] = acc"
| "normalise acc (x # xs) =
     normalise (if x = ''.'' then acc else if x = ''..'' then butlast acc else acc @ [x]) xs"

text \<open>\<open>Path.resolve\<close>, relative to the working directory.\<close>

definition resolve :: "path \<Rightarrow> ppath \<Rightarrow> ppath" where
  "resolve cwd p =
     \<lparr>is_absolute = True, parts = normalise [] ((if is_absolute p then [] else cwd) @ parts p)\<rparr>"

definition plain :: "path \<Rightarrow> bool" where
  "plain p = (''.'' \<notin> set p \<and> ''..'' \<notin> set p)"

lemma normalise_plain: "plain p \<Longrightarrow> normalise acc p = acc @ p"
  by (induction acc p rule: normalise.induct) (auto simp: plain_def)

lemma plain_normalise: "plain acc \<Longrightarrow> plain (normalise acc p)"
proof (induction acc p rule: normalise.induct)
  case (2 acc x xs)
  have "plain (butlast acc)" using "2.prems" in_set_butlastD [of _ acc] unfolding plain_def by blast
  with 2 show ?case by (auto simp: plain_def)
qed simp

lemma resolve_idem: "resolve cwd (resolve cwd' p) = resolve cwd' p"
proof -
  have "plain (normalise [] q)" for q by (rule plain_normalise) (simp add: plain_def)
  then have "normalise [] (normalise [] q) = normalise [] q" for q by (simp add: normalise_plain)
  then show ?thesis by (simp add: resolve_def)
qed

section \<open>Reading\<close>

definition path_exists :: "path \<Rightarrow> fs \<Rightarrow> bool" where
  "path_exists p fs = (dict_get fs p \<noteq> None)"

definition is_dir :: "path \<Rightarrow> fs \<Rightarrow> bool" where
  "is_dir p fs = (p = [] \<or> dict_get fs p = Some Dir)"

definition read_bytes :: "path \<Rightarrow> fs \<Rightarrow> string result" where
  "read_bytes p fs =
     (case dict_get fs p of
        None \<Rightarrow> Inl FileNotFoundError | Some Dir \<Rightarrow> Inl OSErr | Some (File c) \<Rightarrow> Inr c)"

definition read_text :: "path \<Rightarrow> string io" where
  "read_text p fs = (rbind (read_bytes p fs) decode_text, fs)"

text \<open>The file at a path holds a text.\<close>

definition holds_text :: "fs \<Rightarrow> path \<Rightarrow> string \<Rightarrow> bool" where
  "holds_text fs p t \<longleftrightarrow> (case dict_get fs p of Some (File c) \<Rightarrow> decode_text c = Inr t | _ \<Rightarrow> False)"

lemma holds_text_iff: "holds_text fs p t \<longleftrightarrow> (\<exists>c. dict_get fs p = Some (File c) \<and> decode_text c = Inr t)"
  by (auto simp: holds_text_def split: option.splits fs_node.splits)

lemma holds_text_unique: "holds_text fs p t \<Longrightarrow> holds_text fs p u \<Longrightarrow> u = t"
  by (auto simp: holds_text_iff)

lemma holds_textD: "holds_text fs p t \<Longrightarrow> path_exists p fs"
  by (auto simp: holds_text_iff path_exists_def)

lemma holds_text_not_dir: "holds_text fs p t \<Longrightarrow> p \<noteq> [] \<Longrightarrow> \<not> is_dir p fs"
  by (auto simp: holds_text_iff is_dir_def)

lemma read_text_Inr: "read_text p fs = (Inr t, fs') \<longleftrightarrow> fs' = fs \<and> holds_text fs p t"
  by (auto simp: read_text_def read_bytes_def rbind_eq_Inr holds_text_iff split: option.splits fs_node.splits)

lemma read_text_holds: "holds_text fs p t \<Longrightarrow> read_text p fs = (Inr t, fs)"
  by (simp add: read_text_Inr)

section \<open>Writing\<close>

definition write_text :: "path \<Rightarrow> string \<Rightarrow> unit io" where
  "write_text p c fs =
     (if is_dir p fs then (Inl OSErr, fs)
      else if \<not> is_dir (butlast p) fs
           then (Inl (if path_exists (butlast p) fs then OSErr else FileNotFoundError), fs)
      else (Inr (), dict_set p (File c) fs))"

text \<open>\<open>mkdir(parents=True, exist_ok=True)\<close>: every missing ancestor is created.\<close>

definition ancestors :: "path \<Rightarrow> path list" where
  "ancestors p = map (\<lambda>n. take n p) [1..<Suc (length p)]"

definition is_file :: "path \<Rightarrow> fs \<Rightarrow> bool" where
  "is_file p fs = (case dict_get fs p of Some (File c) \<Rightarrow> True | _ \<Rightarrow> False)"

fun mkdirs :: "path list \<Rightarrow> unit io" where
  "mkdirs [] fs = (Inr (), fs)"
| "mkdirs (q # qs) fs =
     (case dict_get fs q of
        Some (File c) \<Rightarrow> (Inl OSErr, fs)
      | Some Dir \<Rightarrow> mkdirs qs fs
      | None \<Rightarrow> mkdirs qs (dict_set q Dir fs))"

definition mkdir_parents :: "path \<Rightarrow> unit io" where
  "mkdir_parents p = mkdirs (ancestors p)"

text \<open>
  A file system is well formed if its keys are distinct, the root is not an entry, and the parent
  of every entry is a directory.
\<close>

definition fs_ok :: "fs \<Rightarrow> bool" where
  "fs_ok fs \<longleftrightarrow> dict_ok fs \<and> (\<forall>p n. dict_get fs p = Some n \<longrightarrow> p \<noteq> [] \<and> is_dir (butlast p) fs)"

lemma fs_okD: "fs_ok fs \<Longrightarrow> dict_get fs p = Some n \<Longrightarrow> p \<noteq> [] \<and> is_dir (butlast p) fs"
  unfolding fs_ok_def by blast

lemma write_text_Inr:
  "write_text p c fs = (Inr u, fs') \<longleftrightarrow>
     \<not> is_dir p fs \<and> is_dir (butlast p) fs \<and> fs' = dict_set p (File c) fs"
  by (auto simp: write_text_def)

lemma is_dir_set: "is_dir p fs \<Longrightarrow> \<not> is_dir q fs \<or> n = Dir \<Longrightarrow> is_dir p (dict_set q n fs)"
  by (auto simp: is_dir_def)

lemma fs_ok_set:
  assumes ok: "fs_ok fs" and q: "q \<noteq> []" "is_dir (butlast q) fs" "\<not> is_dir q fs \<or> n = Dir"
  shows "fs_ok (dict_set q n fs)"
  unfolding fs_ok_def
proof (intro conjI allI impI)
  show "dict_ok (dict_set q n fs)" using ok by (simp add: fs_ok_def pd.ok_set)
  fix p m
  assume "dict_get (dict_set q n fs) p = Some m"
  then have "p = q \<or> dict_get fs p = Some m" by (auto split: if_splits)
  then have "p \<noteq> [] \<and> is_dir (butlast p) fs" using q fs_okD [OF ok] by blast
  then show "p \<noteq> []" "is_dir (butlast p) (dict_set q n fs)" using is_dir_set q(3) by auto
qed

lemma fs_ok_write:
  assumes "fs_ok fs" and "write_text p c fs = (r, fs')"
  shows "fs_ok fs'"
proof (cases r)
  case (Inr u)
  then have w: "\<not> is_dir p fs" "is_dir (butlast p) fs" "fs' = dict_set p (File c) fs"
    using assms(2) by (simp_all add: write_text_Inr)
  then have "p \<noteq> []" by (auto simp: is_dir_def)
  with w assms(1) show ?thesis by (simp add: fs_ok_set)
next
  case (Inl e)
  then show ?thesis using assms by (simp add: write_text_def split: if_splits)
qed

lemma mkdirs_keeps: "mkdirs qs fs = (r, fs') \<Longrightarrow> dict_get fs p = Some n \<Longrightarrow> dict_get fs' p = Some n"
proof (induction qs arbitrary: fs)
  case (Cons q qs)
  show ?case
  proof (cases "dict_get fs q")
    case None
    with Cons.prems have "mkdirs qs (dict_set q Dir fs) = (r, fs')" "dict_get (dict_set q Dir fs) p = Some n"
      by auto
    then show ?thesis by (rule Cons.IH)
  next
    case (Some m)
    with Cons show ?thesis by (cases m) auto
  qed
qed simp

lemma mkdirs_new:
  "mkdirs qs fs = (r, fs') \<Longrightarrow> dict_get fs' p = Some n \<Longrightarrow> dict_get fs p = Some n \<or> p \<in> set qs \<and> n = Dir"
proof (induction qs arbitrary: fs)
  case (Cons q qs)
  then show ?case by (fastforce split: option.splits fs_node.splits if_splits)
qed simp

lemma mkdirs_made: "mkdirs qs fs = (Inr u, fs') \<Longrightarrow> q \<in> set qs \<Longrightarrow> dict_get fs' q = Some Dir"
proof (induction qs arbitrary: fs)
  case (Cons p qs)
  show ?case
  proof (cases "q = p")
    case True
    have keep: "mkdirs qs f = (Inr u, fs') \<Longrightarrow> dict_get f p = Some Dir \<Longrightarrow> dict_get fs' p = Some Dir" for f
      by (rule mkdirs_keeps)
    from Cons.prems(1) show ?thesis
      by (auto simp: True split: option.splits fs_node.splits intro: keep)
  next
    case False
    with Cons show ?thesis by (auto split: option.splits fs_node.splits)
  qed
qed simp

lemma mkdirs_ok:
  assumes "fs_ok fs" and "mkdirs (map (\<lambda>n. take n p) [a..<b]) fs = (r, fs')" and "1 \<le> a"
    and "b \<le> Suc (length p)" and "is_dir (take (a - 1) p) fs"
  shows "fs_ok fs'"
  using assms
proof (induction "b - a" arbitrary: a fs)
  case 0
  then show ?case by simp
next
  case (Suc k)
  then have ab: "a < b" by simp
  let ?q = "take a p"
  have q: "?q \<noteq> []" "butlast ?q = take (a - 1) p" using Suc.prems ab by (auto simp: butlast_take)
  have split: "mkdirs (?q # map (\<lambda>n. take n p) [Suc a..<b]) fs = (r, fs')"
    using Suc.prems(2) ab by (simp add: upt_conv_Cons)
  have IH: "fs_ok f \<Longrightarrow> mkdirs (map (\<lambda>n. take n p) [Suc a..<b]) f = (r, fs') \<Longrightarrow> is_dir ?q f \<Longrightarrow> fs_ok fs'" for f
    using Suc.hyps(1) [of "Suc a" f] Suc.hyps(2) Suc.prems by simp
  show ?case
  proof (cases "dict_get fs ?q")
    case None
    then have "mkdirs (map (\<lambda>n. take n p) [Suc a..<b]) (dict_set ?q Dir fs) = (r, fs')"
      using split by simp
    moreover have "fs_ok (dict_set ?q Dir fs)"
      using fs_ok_set [OF Suc.prems(1) q(1)] q(2) Suc.prems(5) by simp
    ultimately show ?thesis by (intro IH) (auto simp: is_dir_def)
  next
    case (Some n)
    then show ?thesis using split Suc.prems(1)
      by (cases n) (auto intro: IH simp: is_dir_def)
  qed
qed

lemma mkdir_parents_ok: "fs_ok fs \<Longrightarrow> mkdir_parents p fs = (r, fs') \<Longrightarrow> fs_ok fs'"
  unfolding mkdir_parents_def ancestors_def
  using mkdirs_ok [of fs p 1 "Suc (length p)" r fs'] by (simp add: is_dir_def)

lemma mkdir_parents_dir: "mkdir_parents p fs = (Inr u, fs') \<Longrightarrow> is_dir p fs'"
proof -
  assume m: "mkdir_parents p fs = (Inr u, fs')"
  have "p \<noteq> [] \<Longrightarrow> p \<in> set (ancestors p)"
    by (force simp: ancestors_def Suc_le_eq)
  with m show ?thesis
    by (auto simp: is_dir_def mkdir_parents_def intro: mkdirs_made)
qed

section \<open>Invariants of file operations\<close>

lemma io_keeps_read [io_keeps_intros]: "io_keeps P (read_text p)"
  by (simp add: io_keeps_def read_text_def)

text \<open>
  The interface of a program that only works below one directory: creating that directory and
  writing files in it keep the property.
\<close>

locale dir_writes =
  fixes P :: "fs \<Rightarrow> bool" and dir :: path
  assumes keeps_mkdir: "io_keeps P (mkdir_parents dir)"
    and keeps_write: "io_keeps P (write_text (dir @ [n]) c)"
begin

lemmas keeps = keeps_mkdir keeps_write io_keeps_intros

end

interpretation ok: dir_writes fs_ok dir for dir
proof
  show "io_keeps fs_ok (mkdir_parents dir)"
    unfolding io_keeps_def using mkdir_parents_ok [of _ dir] by (metis prod.collapse)
  show "io_keeps fs_ok (write_text (dir @ [n]) c)" for n c
    unfolding io_keeps_def using fs_ok_write [of _ "dir @ [n]" c] by (metis prod.collapse)
qed

text \<open>
  Compared with an earlier file system, everything outside a directory is as it was, apart from
  missing ancestors of the directory that were created.
\<close>

definition changed_under :: "path \<Rightarrow> fs \<Rightarrow> fs \<Rightarrow> bool" where
  "changed_under dir fs0 fs \<longleftrightarrow>
     (\<forall>p. strict_prefix dir p \<or> dict_get fs p = dict_get fs0 p \<or>
          prefix p dir \<and> dict_get fs0 p = None \<and> dict_get fs p = Some Dir)"

lemma set_ancestors: "q \<in> set (ancestors p) \<Longrightarrow> prefix q p"
  by (auto simp: ancestors_def take_is_prefix)

lemma mkdir_parents_get:
  assumes "mkdir_parents dir fs = (r, fs')"
  shows "dict_get fs' p = dict_get fs p \<or> prefix p dir \<and> dict_get fs p = None \<and> dict_get fs' p = Some Dir"
proof (cases "dict_get fs p")
  case None
  with mkdirs_new [OF assms [unfolded mkdir_parents_def], of p] show ?thesis
    by (cases "dict_get fs' p") (auto dest: set_ancestors)
next
  case (Some n)
  with mkdirs_keeps [OF assms [unfolded mkdir_parents_def]] show ?thesis by simp
qed

interpretation under: dir_writes "changed_under dir fs0" dir for dir fs0
proof
  show "io_keeps (changed_under dir fs0) (mkdir_parents dir)"
    unfolding io_keeps_def
  proof (intro allI impI)
    fix fs
    assume "changed_under dir fs0 fs"
    moreover obtain r fs' where m: "mkdir_parents dir fs = (r, fs')" by (rule prod.exhaust)
    ultimately show "changed_under dir fs0 (snd (mkdir_parents dir fs))"
      using mkdir_parents_get [OF m] unfolding changed_under_def m snd_conv by metis
  qed
  show "io_keeps (changed_under dir fs0) (write_text (dir @ [n]) c)" for n c
    by (auto simp: io_keeps_def changed_under_def write_text_def strict_prefix_def)
qed

section \<open>Existing directories\<close>

lemma is_dir_take:
  assumes "fs_ok fs" and "is_dir p fs"
  shows "is_dir (take n p) fs"
proof (cases "n \<le> length p")
  case True
  then show ?thesis
  proof (induction n rule: inc_induct)
    case base
    then show ?case using assms(2) by simp
  next
    case (step n)
    then have "take (Suc n) p \<noteq> []" and b: "butlast (take (Suc n) p) = take n p"
      by (cases p, auto simp: butlast_take)
    with step.IH have "dict_get fs (take (Suc n) p) = Some Dir" by (simp add: is_dir_def)
    from fs_okD [OF assms(1) this] show ?case by (simp add: b)
  qed
qed (simp add: assms(2))

lemma mkdirs_exist: "\<forall>q \<in> set qs. dict_get fs q = Some Dir \<Longrightarrow> mkdirs qs fs = (Inr (), fs)"
  by (induction qs) auto

lemma mkdir_parents_exists:
  assumes "fs_ok fs" and "is_dir p fs"
  shows "mkdir_parents p fs = (Inr (), fs)"
  unfolding mkdir_parents_def
proof (rule mkdirs_exist, rule ballI)
  fix q assume "q \<in> set (ancestors p)"
  then obtain n where q: "q = take n p" "1 \<le> n" "n \<le> length p" by (auto simp: ancestors_def)
  then show "dict_get fs q = Some Dir" using is_dir_take [OF assms, of n] by (cases p) (auto simp: is_dir_def)
qed

section \<open>Exceptions of file operations\<close>

lemma io_raises_read: "{FileNotFoundError, OSErr, UnicodeDecodeError} \<subseteq> E \<Longrightarrow> io_raises_in E (read_text p)"
  by (auto simp: io_raises_in_def raises_in_def read_text_def read_bytes_def decode_text_eq
      split: option.splits fs_node.splits if_splits)

lemma io_raises_write: "{FileNotFoundError, OSErr} \<subseteq> E \<Longrightarrow> io_raises_in E (write_text p c)"
  by (auto simp: io_raises_in_def raises_in_def write_text_def)

lemma mkdirs_Inl: "mkdirs qs fs = (Inl e, fs') \<Longrightarrow> e = OSErr"
  by (induction qs arbitrary: fs) (auto split: option.splits fs_node.splits)

lemma io_raises_mkdir: "OSErr \<in> E \<Longrightarrow> io_raises_in E (mkdir_parents p)"
  unfolding io_raises_in_def raises_in_def mkdir_parents_def using mkdirs_Inl by (metis prod.collapse)

end
