(* ===== verification/Sha1.thy ===== *)
theory Sha1
  imports Py_Strings "HOL-Library.Word"
begin

text \<open>
  The SHA-1 digest of \<open>hashlib\<close>, on strings of bytes (characters): padding to blocks of 64 bytes,
  the schedule of 80 words, the 80 rounds on five 32-bit words, and the hexadecimal rendering.
\<close>

unbundle bit_operations_syntax

type_synonym word32 = "32 word"
type_synonym sha_state = "word32 \<times> word32 \<times> word32 \<times> word32 \<times> word32"

definition rotl32 :: "nat \<Rightarrow> word32 \<Rightarrow> word32" where
  "rotl32 n w = push_bit n w OR drop_bit (32 - n) w"

fun be_bytes :: "nat \<Rightarrow> nat \<Rightarrow> nat list" where
  "be_bytes 0 x = []"
| "be_bytes (Suc k) x = be_bytes k (x div 256) @ [x mod 256]"

definition sha_pad :: "nat list \<Rightarrow> nat list" where
  "sha_pad bs = bs @ [128] @ replicate ((119 - length bs mod 64) mod 64) 0 @ be_bytes 8 (8 * length bs)"

definition be_word :: "nat list \<Rightarrow> word32" where
  "be_word bs = word_of_nat (foldl (\<lambda>n b. 256 * n + b) 0 bs)"

fun chunks :: "nat \<Rightarrow> 'a list \<Rightarrow> 'a list list" where
  "chunks k [] = []"
| "chunks k (x # xs) = (x # take (k - 1) xs) # chunks k (drop (k - 1) xs)"

text \<open>The schedule is built in reverse: the newest word is the head.\<close>

fun schedule :: "nat \<Rightarrow> word32 list \<Rightarrow> word32 list" where
  "schedule 0 ws = ws"
| "schedule (Suc k) ws =
     schedule k (rotl32 1 (ws ! 2 XOR ws ! 7 XOR ws ! 13 XOR ws ! 15) # ws)"

definition sha_f :: "nat \<Rightarrow> word32 \<Rightarrow> word32 \<Rightarrow> word32 \<Rightarrow> word32" where
  "sha_f t b c d =
     (if t < 20 then (b AND c) OR (NOT b AND d)
      else if 40 \<le> t \<and> t < 60 then (b AND c) OR (b AND d) OR (c AND d)
      else b XOR c XOR d)"

definition sha_k :: "nat \<Rightarrow> word32" where
  "sha_k t = (if t < 20 then 0x5A827999 else if t < 40 then 0x6ED9EBA1
     else if t < 60 then 0x8F1BBCDC else 0xCA62C1D6)"

fun sha_rounds :: "nat \<Rightarrow> word32 list \<Rightarrow> sha_state \<Rightarrow> sha_state" where
  "sha_rounds t [] s = s"
| "sha_rounds t (w # ws) (a, b, c, d, e) =
     sha_rounds (Suc t) ws (rotl32 5 a + sha_f t b c d + e + w + sha_k t, a, rotl32 30 b, c, d)"

fun sha_add :: "sha_state \<Rightarrow> sha_state \<Rightarrow> sha_state" where
  "sha_add (a, b, c, d, e) (a', b', c', d', e') = (a + a', b + b', c + c', d + d', e + e')"

definition sha_block :: "nat list \<Rightarrow> sha_state \<Rightarrow> sha_state" where
  "sha_block block s =
     sha_add s (sha_rounds 0 (rev (schedule 64 (rev (map be_word (chunks 4 block))))) s)"

definition sha_init :: sha_state where
  "sha_init = (0x67452301, 0xEFCDAB89, 0x98BADCFE, 0x10325476, 0xC3D2E1F0)"

definition hex_digit :: "nat \<Rightarrow> char" where
  "hex_digit n = ''0123456789abcdef'' ! n"

fun hex_digits :: "nat \<Rightarrow> nat \<Rightarrow> string" where
  "hex_digits 0 x = []"
| "hex_digits (Suc k) x = hex_digits k (x div 16) @ [hex_digit (x mod 16)]"

definition sha1_hexdigest :: "string \<Rightarrow> string" where
  "sha1_hexdigest s =
     (case fold sha_block (chunks 64 (sha_pad (map of_char s))) sha_init of
        (a, b, c, d, e) \<Rightarrow> concat (map (\<lambda>w. hex_digits 8 (unat w)) [a, b, c, d, e]))"

lemma length_hex_digits [simp]: "length (hex_digits k x) = k"
  by (induction k arbitrary: x) auto

definition lower_hex :: "char set" where
  "lower_hex = set ''0123456789abcdef''"

lemma hex_digit_in: "n < 16 \<Longrightarrow> hex_digit n \<in> lower_hex"
  unfolding hex_digit_def lower_hex_def by (intro nth_mem) simp

lemma hex_digits_hex: "set (hex_digits k x) \<subseteq> lower_hex"
  by (induction k arbitrary: x) (auto simp: hex_digit_in)

lemma sha1_hexdigest_hex: "length (sha1_hexdigest s) = 40" "set (sha1_hexdigest s) \<subseteq> lower_hex"
proof -
  obtain a b c d e where "fold sha_block (chunks 64 (sha_pad (map of_char s))) sha_init = (a, b, c, d, e)"
    by (metis prod_cases5)
  then have eq: "sha1_hexdigest s = concat (map (\<lambda>w. hex_digits 8 (unat w)) [a, b, c, d, e])"
    by (simp add: sha1_hexdigest_def)
  show "length (sha1_hexdigest s) = 40" by (simp add: eq)
  show "set (sha1_hexdigest s) \<subseteq> lower_hex"
    unfolding eq using hex_digits_hex by auto
qed

lemma chunks_concat: "0 < k \<Longrightarrow> concat (chunks k xs) = xs"
  by (induction k xs rule: chunks.induct) auto

lemma sha_pad_blocks: "length (sha_pad bs) mod 64 = 0"
proof -
  have "length (be_bytes k x) = k" for k x by (induction k arbitrary: x) auto
  then have "length (sha_pad bs) = length bs + 9 + (119 - length bs mod 64) mod 64"
    by (simp add: sha_pad_def)
  also have "\<dots> mod 64 = 0"
  proof -
    define q r where "q = length bs div 64" and "r = length bs mod 64"
    have n: "length bs = 64 * q + r" and r: "r < 64" by (simp_all add: q_def r_def)
    have "(119 - r) mod 64 = (if r \<le> 55 then 55 - r else 119 - r)"
      using r by (auto simp: le_mod_geq)
    then have "length bs + 9 + (119 - r) mod 64 = 64 * (q + (if r \<le> 55 then 1 else 2))"
      using r n by simp
    then show ?thesis unfolding r_def [symmetric] by simp
  qed
  finally show ?thesis .
qed

end
