(* ===== verification/Repo_Status.thy ===== *)
theory Repo_Status
  imports File_System Sha1
begin

text \<open>
  \<^verbatim>\<open>scripts/check-repo-src-changed.py\<close>: the script keeps the commit and the working-tree status of a
  repository in a status directory, protected by a checksum, and reports by its exit code whether
  they changed. \<open>git\<close>, \<open>hg\<close> and the search path are arguments of the model.
\<close>

section \<open>Arguments\<close>

text \<open>\<open>compose\<close>: \<open>functools.reduce\<close> with the composition of two functions.\<close>

definition compose2 :: "('a \<Rightarrow> 'a io) \<Rightarrow> ('a \<Rightarrow> 'a io) \<Rightarrow> 'a \<Rightarrow> 'a io" where
  "compose2 f g x = io_bind (g x) f"

fun compose :: "('a \<Rightarrow> 'a io) list \<Rightarrow> 'a \<Rightarrow> 'a io" where
  "compose [] = (\<lambda>x. io_raise TypeError)"
| "compose (f # fs) = foldl compose2 f fs"

definition check_path_is_dir :: "path \<Rightarrow> ppath \<Rightarrow> ppath io" where
  "check_path_is_dir cwd p fs =
     (let q = resolve cwd p in if \<not> is_dir (parts q) fs then (Inl ArgumentTypeError, fs) else (Inr q, fs))"

definition check_path_exists :: "path \<Rightarrow> ppath \<Rightarrow> ppath io" where
  "check_path_exists cwd p fs =
     (let q = resolve cwd p
      in if \<not> (parts q = [] \<or> path_exists (parts q) fs) then (Inl ArgumentTypeError, fs) else (Inr q, fs))"

definition is_relative_to :: "ppath \<Rightarrow> ppath \<Rightarrow> bool" where
  "is_relative_to this other = (is_absolute this = is_absolute other \<and> prefix (parts other) (parts this))"

section \<open>Commands\<close>

record completed =
  returncode :: int
  stdout :: string
  stderr :: string

text \<open>What the script sees of the machine: which programs exist, and what a command returns.\<close>

record machine =
  which :: "string \<Rightarrow> bool"
  exec :: "string list \<Rightarrow> path \<Rightarrow> completed result"

definition check_git_installed :: "machine \<Rightarrow> unit result" where
  "check_git_installed m = (if \<not> which m ''git'' then Inl RuntimeError else Inr ())"

text \<open>\<open>text=True\<close> decodes the output and translates its line ends.\<close>

definition run_subprocess :: "machine \<Rightarrow> string list \<Rightarrow> path \<Rightarrow> completed result" where
  "run_subprocess m command cwd =
     rbind (exec m command cwd) (\<lambda>c.
     rbind (decode_text (stdout c)) (\<lambda>out.
     rbind (decode_text (stderr c)) (\<lambda>err.
       Inr (c\<lparr>stdout := out, stderr := err\<rparr>))))"

definition run_git_or_mercurial :: "machine \<Rightarrow> string list \<Rightarrow> string list \<Rightarrow> path \<Rightarrow> string result" where
  "run_git_or_mercurial m git_command hg_command cwd =
     rbind (run_subprocess m git_command cwd) (\<lambda>git_res.
       if returncode git_res = 0 then Inr (stdout git_res)
       else if \<not> which m ''hg'' \<or> returncode git_res \<noteq> 128 then Inl RuntimeError
       else if \<not> contains ''not a git repository'' (stderr git_res) then Inl RuntimeError
       else rbind (run_subprocess m hg_command cwd) (\<lambda>hg_res.
              if returncode hg_res = 0 then Inr (stdout hg_res) else Inl RuntimeError))"

section \<open>Checksums\<close>

definition hexdigits :: string where
  "hexdigits = ''0123456789abcdefABCDEF''"

definition is_hash :: "string \<Rightarrow> bool" where
  "is_hash s = (length s = 40 \<and> list_all (\<lambda>c. c \<in> set hexdigits) s)"

definition HashString :: "string \<Rightarrow> string result" where
  "HashString s = (let t = strip s in if \<not> is_hash t then Inl ValueError else Inr t)"

text \<open>The bytes fed to the digest so far, and the loop that feeds a file in blocks of 4096.\<close>

function update_checksum :: "string \<Rightarrow> string \<Rightarrow> string" where
  "update_checksum fed rest =
     (let buf = take 4096 rest
      in if buf = [] then fed else update_checksum (fed @ buf) (drop 4096 rest))"
  by pat_completeness auto
termination
  by (relation "measure (\<lambda>(fed, rest). length rest)") auto

declare update_checksum.simps [simp del]

definition rglob :: "path \<Rightarrow> fs \<Rightarrow> path list" where
  "rglob p fs = filter (strict_prefix p) (dict_keys fs)"

definition checksum_step :: "path set \<Rightarrow> fs \<Rightarrow> path \<Rightarrow> string \<Rightarrow> string" where
  "checksum_step skip_paths fs child fed =
     (if child \<in> skip_paths then fed
      else case dict_get fs child of Some (File c) \<Rightarrow> update_checksum fed c | _ \<Rightarrow> fed)"

definition path_checksum :: "path \<Rightarrow> path set \<Rightarrow> string io" where
  "path_checksum p skip_paths fs =
     (rbind (py_assert (is_dir p fs \<or> path_exists p fs)) (\<lambda>_.
        HashString (sha1_hexdigest (fold (checksum_step skip_paths fs) (sort (rglob p fs)) []))), fs)"

section \<open>The status directory\<close>

record repo_status =
  repo_dirpath :: ppath
  status_dirpath :: ppath

definition RepoStatus_init :: "ppath \<Rightarrow> ppath \<Rightarrow> repo_status result" where
  "RepoStatus_init repo status =
     rbind (py_assert (is_absolute repo)) (\<lambda>_.
     rbind (py_assert (is_absolute status)) (\<lambda>_.
     rbind (py_assert (\<not> is_relative_to repo status)) (\<lambda>_.
     rbind (py_assert (\<not> is_relative_to status repo)) (\<lambda>_.
       Inr \<lparr>repo_dirpath = repo, status_dirpath = status\<rparr>))))"

definition commit_filepath :: "repo_status \<Rightarrow> path" where
  "commit_filepath rs = parts (status_dirpath rs) @ [''commit-hash.txt'']"

definition diff_filepath :: "repo_status \<Rightarrow> path" where
  "diff_filepath rs = parts (status_dirpath rs) @ [''diff.txt'']"

definition hash_filepath :: "repo_status \<Rightarrow> path" where
  "hash_filepath rs = parts (status_dirpath rs) @ [''hash.txt'']"

definition stored_status_dir_hash :: "repo_status \<Rightarrow> string io" where
  "stored_status_dir_hash rs = io_bind (read_text (hash_filepath rs)) (\<lambda>c. io_lift (HashString c))"

definition stored_commit :: "repo_status \<Rightarrow> string io" where
  "stored_commit rs = io_bind (read_text (commit_filepath rs)) (\<lambda>c. io_lift (HashString c))"

definition stored_git_diff :: "repo_status \<Rightarrow> string io" where
  "stored_git_diff rs = read_text (diff_filepath rs)"

definition compute_hash :: "repo_status \<Rightarrow> string io" where
  "compute_hash rs = path_checksum (parts (status_dirpath rs)) {hash_filepath rs}"

definition is_initialized :: "repo_status \<Rightarrow> bool io" where
  "is_initialized rs fs =
     (if \<not> path_exists (hash_filepath rs) fs then (Inr False, fs)
      else io_bind (read_text (hash_filepath rs))
             (\<lambda>c. io_return (HashString c \<noteq> Inl ValueError)) fs)"

definition is_corrupted :: "repo_status \<Rightarrow> bool io" where
  "is_corrupted rs =
     io_bind (is_initialized rs) (\<lambda>ini.
       if \<not> ini then io_raise ValueError
       else io_bind (compute_hash rs) (\<lambda>actual.
            io_bind (stored_status_dir_hash rs) (\<lambda>expected. io_return (actual \<noteq> expected))))"

definition get_current_commit_hash :: "machine \<Rightarrow> repo_status \<Rightarrow> string result" where
  "get_current_commit_hash m rs =
     rbind (run_git_or_mercurial m [''git'', ''rev-parse'', ''HEAD'']
       [''hg'', ''identify'', ''--rev'', ''.'', ''--template'', ''{id}'' @ [LF]]
       (parts (repo_dirpath rs))) HashString"

definition get_current_git_diff :: "machine \<Rightarrow> repo_status \<Rightarrow> string result" where
  "get_current_git_diff m rs =
     run_git_or_mercurial m [''git'', ''status'', ''-vv''] [''hg'', ''status'', ''--verbose'']
       (parts (repo_dirpath rs))"

definition update_status :: "machine \<Rightarrow> repo_status \<Rightarrow> unit io" where
  "update_status m rs =
     io_bind (mkdir_parents (parts (status_dirpath rs))) (\<lambda>_.
     io_bind (io_lift (get_current_commit_hash m rs)) (\<lambda>commit_hash.
     io_bind (io_lift (get_current_git_diff m rs)) (\<lambda>git_diff.
     io_bind (write_text (commit_filepath rs) (commit_hash @ [LF])) (\<lambda>_.
     io_bind (write_text (diff_filepath rs) git_diff) (\<lambda>_.
     io_bind (compute_hash rs) (\<lambda>new_hash.
       write_text (hash_filepath rs) (new_hash @ [LF])))))))"

definition is_status_the_same :: "machine \<Rightarrow> repo_status \<Rightarrow> bool io" where
  "is_status_the_same m rs =
     io_bind (stored_commit rs) (\<lambda>expected_commit_hash.
     io_bind (io_lift (get_current_commit_hash m rs)) (\<lambda>actual_commit_hash.
       if expected_commit_hash \<noteq> actual_commit_hash then io_return False
       else io_bind (stored_git_diff rs) (\<lambda>expected_diff.
            io_bind (io_lift (get_current_git_diff m rs)) (\<lambda>actual_diff.
              if expected_diff \<noteq> actual_diff then io_return False else io_return True))))"

section \<open>The main program\<close>

text \<open>The two command-line arguments, \<open>None\<close> where an argument is missing.\<close>

record arguments =
  status_arg :: "ppath option"
  repo_arg :: "ppath option"

text \<open>\<open>argparse\<close> reports a missing argument or a failed conversion and exits with code 2.\<close>

definition arg_type :: "(ppath \<Rightarrow> ppath io) \<Rightarrow> ppath option \<Rightarrow> ppath io" where
  "arg_type conv a fs =
     (case a of None \<Rightarrow> (Inl (SystemExit 2), fs)
      | Some p \<Rightarrow> (case conv p fs of (Inl e, fs') \<Rightarrow>
            (Inl (if e \<in> {ArgumentTypeError, TypeError, ValueError} then SystemExit 2 else e), fs')
          | (Inr q, fs') \<Rightarrow> (Inr q, fs')))"

definition parse_args :: "path \<Rightarrow> arguments \<Rightarrow> (ppath \<times> ppath) io" where
  "parse_args cwd args =
     io_bind (arg_type (compose [\<lambda>p. io_return (resolve cwd p), io_return]) (status_arg args)) (\<lambda>status.
     io_bind (arg_type (compose [\<lambda>p. io_return (resolve cwd p), check_path_exists cwd,
         check_path_is_dir cwd, io_return]) (repo_arg args)) (\<lambda>repo.
       io_return (repo, status)))"

text \<open>
  The exit code of the main program; an exception that escapes is an error value. The status is
  brought up to date whenever the code is not 0.
\<close>

definition exit_code :: "machine \<Rightarrow> repo_status \<Rightarrow> int io" where
  "exit_code m rs =
     io_bind (is_initialized rs) (\<lambda>ini.
       if \<not> ini then io_return 47
       else io_bind (is_corrupted rs) (\<lambda>corrupted.
            if corrupted then io_return 47
            else io_bind (is_status_the_same m rs) (\<lambda>same.
                 if \<not> same then io_return 47 else io_return 0)))"

definition main :: "machine \<Rightarrow> path \<Rightarrow> arguments \<Rightarrow> int io" where
  "main m cwd args =
     io_bind (parse_args cwd args) (\<lambda>(repo, status).
     io_bind (io_lift (check_git_installed m)) (\<lambda>_.
     io_bind (io_lift (RepoStatus_init repo status)) (\<lambda>rs.
     io_bind (exit_code m rs) (\<lambda>code.
       if code \<noteq> 0 then io_bind (update_status m rs) (\<lambda>_. io_return code)
       else io_return code))))"

section \<open>Hashes\<close>

lemma update_checksum_eq: "update_checksum fed rest = fed @ rest"
proof (induction fed rest rule: update_checksum.induct)
  case (1 fed rest)
  show ?case
  proof (cases "take 4096 rest = []")
    case True
    then show ?thesis by (subst update_checksum.simps) simp
  next
    case False
    with 1 show ?thesis by (subst update_checksum.simps) (simp add: Let_def)
  qed
qed

definition file_bytes :: "fs \<Rightarrow> path \<Rightarrow> string" where
  "file_bytes fs p = (case dict_get fs p of Some (File c) \<Rightarrow> c | _ \<Rightarrow> [])"

definition dir_bytes :: "path \<Rightarrow> path \<Rightarrow> fs \<Rightarrow> string" where
  "dir_bytes dir skip fs = concat (map (file_bytes fs) (filter (\<lambda>p. p \<noteq> skip) (sort (rglob dir fs))))"

lemma fold_checksum_step:
  "fold (checksum_step {skip} fs) ps fed = fed @ concat (map (file_bytes fs) (filter (\<lambda>p. p \<noteq> skip) ps))"
  by (induction ps arbitrary: fed)
    (auto simp: checksum_step_def file_bytes_def update_checksum_eq split: option.splits fs_node.splits)

lemma hex_not_space: "c \<in> set hexdigits \<Longrightarrow> \<not> is_space c"
proof -
  have "\<forall>c \<in> set hexdigits. \<not> is_space c" by (simp add: hexdigits_def is_space_def)
  then show "c \<in> set hexdigits \<Longrightarrow> \<not> is_space c" by blast
qed

lemma is_hash_no_space: "is_hash h \<Longrightarrow> list_all (\<lambda>c. \<not> is_space c) h"
  by (auto simp: is_hash_def list_all_iff hex_not_space)

lemma HashString_hash: "is_hash h \<Longrightarrow> HashString h = Inr h"
  by (simp add: HashString_def strip_no_space is_hash_no_space)

lemma strip_line:
  assumes "list_all (\<lambda>c. \<not> is_space c) h" and "h \<noteq> []"
  shows "strip (h @ [LF]) = h"
proof -
  have "\<not> is_space (hd h)" using assms by (cases h) auto
  then have "lstrip (h @ [LF]) = h @ [LF]" using assms(2) by (cases h) (simp_all add: lstrip_def)
  moreover have "\<not> is_space (last h)" using assms by (auto simp: list_all_iff)
  then have "rstrip (h @ [LF]) = h"
    using assms(2) by (cases h rule: rev_cases) (simp_all add: rstrip_def is_space_def)
  ultimately show ?thesis by (simp add: strip_def)
qed

lemma HashString_line: "is_hash h \<Longrightarrow> HashString (h @ [LF]) = Inr h"
proof -
  assume h: "is_hash h"
  then have "h \<noteq> []" by (auto simp: is_hash_def)
  then show ?thesis using h by (simp add: HashString_def strip_line is_hash_no_space)
qed

lemma HashString_Inr: "HashString s = Inr h \<Longrightarrow> is_hash h"
  by (auto simp: HashString_def Let_def split: if_splits)

lemma HashString_cases: "HashString s = Inl ValueError \<or> (\<exists>h. HashString s = Inr h)"
  by (simp add: HashString_def Let_def)

lemma is_hash_sha1: "is_hash (sha1_hexdigest b)"
proof -
  have "lower_hex \<subseteq> set hexdigits" by (simp add: lower_hex_def hexdigits_def)
  then show ?thesis using sha1_hexdigest_hex [of b] by (auto simp: is_hash_def list_all_iff)
qed

lemma is_hash_no_CR: "is_hash h \<Longrightarrow> CR \<notin> set (h @ [LF])"
proof -
  have "CR \<notin> set hexdigits" by (simp add: hexdigits_def)
  then show "is_hash h \<Longrightarrow> CR \<notin> set (h @ [LF])" by (auto simp: is_hash_def list_all_iff)
qed

lemma path_checksum_eq:
  "path_checksum p {skip} fs =
     (if is_dir p fs \<or> path_exists p fs then Inr (sha1_hexdigest (dir_bytes p skip fs))
      else Inl AssertionError, fs)"
  by (auto simp: path_checksum_def fold_checksum_step dir_bytes_def HashString_hash is_hash_sha1
      py_assert_def)

text \<open>Writing the skipped file does not change the checksum.\<close>

lemma dir_bytes_set:
  assumes "dict_ok fs"
  shows "dir_bytes dir q (dict_set q n fs) = dir_bytes dir q fs"
proof -
  have "filter (\<lambda>p. p \<noteq> q) (rglob dir (dict_set q n fs)) = filter (\<lambda>p. p \<noteq> q) (rglob dir fs)"
    using pd.keys_set [OF assms, of q n] by (simp add: rglob_def)
  then have "filter (\<lambda>p. p \<noteq> q) (sort (rglob dir (dict_set q n fs))) =
      filter (\<lambda>p. p \<noteq> q) (sort (rglob dir fs))"
    by (simp only: filter_sort)
  moreover have "map (file_bytes (dict_set q n fs)) (filter (\<lambda>p. p \<noteq> q) ps) =
      map (file_bytes fs) (filter (\<lambda>p. p \<noteq> q) ps)" for ps
    by (simp add: file_bytes_def)
  ultimately show ?thesis unfolding dir_bytes_def by (simp only:)
qed

section \<open>Commands\<close>

text \<open>C32: The output of a command comes from \<open>git\<close>, or from mercurial only where \<open>git\<close> failed with
  code 128 because the directory is no git repository and \<open>hg\<close> is installed; any other failure
  is an error, never an empty or partial output.\<close>

theorem run_git_or_mercurial_iff:
  "run_git_or_mercurial m git_command hg_command cwd = Inr out \<longleftrightarrow>
     (\<exists>g. run_subprocess m git_command cwd = Inr g \<and>
        (returncode g = 0 \<and> out = stdout g \<or>
         returncode g = 128 \<and> which m ''hg'' \<and> contains ''not a git repository'' (stderr g) \<and>
         (\<exists>h. run_subprocess m hg_command cwd = Inr h \<and> returncode h = 0 \<and> out = stdout h)))"
proof (cases "run_subprocess m git_command cwd")
  case (Inr g)
  show ?thesis
  proof (cases "returncode g = 0")
    case False
    then show ?thesis unfolding run_git_or_mercurial_def Inr by (simp add: rbind_eq_Inr) blast
  qed (use Inr in \<open>auto simp: run_git_or_mercurial_def\<close>)
qed (simp add: run_git_or_mercurial_def)

lemma get_current_commit_hash_hash: "get_current_commit_hash m rs = Inr c \<Longrightarrow> is_hash c"
  by (auto simp: get_current_commit_hash_def rbind_eq_Inr dest: HashString_Inr)

lemma run_git_or_mercurial_text:
  assumes "run_git_or_mercurial m g h cwd = Inr out"
  shows "decode_text out = Inr out"
proof -
  obtain b where "decode_text b = Inr out"
    using assms unfolding run_git_or_mercurial_iff by (auto simp: run_subprocess_def rbind_eq_Inr)
  then show ?thesis by (rule decode_text_idem)
qed

lemma get_current_git_diff_text: "get_current_git_diff m rs = Inr d \<Longrightarrow> decode_text d = Inr d"
  unfolding get_current_git_diff_def by (rule run_git_or_mercurial_text)

text \<open>A hash on a line of its own is read back.\<close>

lemma decode_hash_line:
  assumes "is_hash h"
  shows "decode_text (h @ [LF]) = Inr (h @ [LF])"
proof -
  have "\<forall>c \<in> set hexdigits. (of_char c :: nat) < 0x80" by (simp add: hexdigits_def)
  then have "ascii (h @ [LF])" using assms by (auto simp: ascii_def is_hash_def list_all_iff)
  then show ?thesis
    by (simp only: decode_text_Inr utf8_ok_ascii universal_newlines_no_CR [OF is_hash_no_CR [OF assms]])
qed

end
