(* ===== verification/Repo_Guard.thy ===== *)
theory Repo_Guard
  imports Repo_Status
begin

text \<open>
  What makes \<^verbatim>\<open>scripts/check-repo-src-changed.py\<close> correct: the meaning of its exit code, the update of
  the status directory, whole runs and sequences of runs, and the refinement of a specification
  without files.
\<close>

section \<open>The exit code\<close>

text \<open>
  The status directory matches the repository: the hash file holds the checksum of the rest of the
  directory, and the two other files hold the current commit and working-tree status.
\<close>

definition status_matches :: "machine \<Rightarrow> repo_status \<Rightarrow> fs \<Rightarrow> bool" where
  "status_matches m rs fs \<longleftrightarrow>
     (is_dir (parts (status_dirpath rs)) fs \<or> path_exists (parts (status_dirpath rs)) fs) \<and>
     (\<exists>h c d ht ct.
        holds_text fs (hash_filepath rs) ht \<and> HashString ht = Inr h \<and>
        h = sha1_hexdigest (dir_bytes (parts (status_dirpath rs)) (hash_filepath rs) fs) \<and>
        holds_text fs (commit_filepath rs) ct \<and> HashString ct = Inr c \<and>
        get_current_commit_hash m rs = Inr c \<and>
        holds_text fs (diff_filepath rs) d \<and> get_current_git_diff m rs = Inr d)"

lemma is_initialized_Inr:
  "is_initialized rs fs = (Inr b, fs') \<longleftrightarrow> fs' = fs \<and>
     (if path_exists (hash_filepath rs) fs
      then \<exists>t. holds_text fs (hash_filepath rs) t \<and> b = (HashString t \<noteq> Inl ValueError)
      else \<not> b)"
  by (auto simp: is_initialized_def io_bind_Inr read_text_Inr)

lemma is_corrupted_Inr:
  "is_corrupted rs fs = (Inr b, fs') \<longleftrightarrow> fs' = fs \<and> is_initialized rs fs = (Inr True, fs) \<and>
     (is_dir (parts (status_dirpath rs)) fs \<or> path_exists (parts (status_dirpath rs)) fs) \<and>
     (\<exists>t h. holds_text fs (hash_filepath rs) t \<and> HashString t = Inr h \<and>
        b = (sha1_hexdigest (dir_bytes (parts (status_dirpath rs)) (hash_filepath rs) fs) \<noteq> h))"
  by (auto simp: is_corrupted_def io_bind_Inr is_initialized_Inr compute_hash_def path_checksum_eq
      stored_status_dir_hash_def read_text_Inr split: if_splits)

lemma is_corrupted_False:
  "is_corrupted rs fs = (Inr False, fs) \<longleftrightarrow>
     (is_dir (parts (status_dirpath rs)) fs \<or> path_exists (parts (status_dirpath rs)) fs) \<and>
     (\<exists>t. holds_text fs (hash_filepath rs) t \<and>
        HashString t = Inr (sha1_hexdigest (dir_bytes (parts (status_dirpath rs)) (hash_filepath rs) fs)))"
  unfolding is_corrupted_Inr is_initialized_Inr
  by (auto dest: holds_textD holds_text_unique split: if_splits)

lemma same_Inr_True:
  "is_status_the_same m rs fs = (Inr True, fs') \<longleftrightarrow> fs' = fs \<and>
     (\<exists>c d ct. holds_text fs (commit_filepath rs) ct \<and> HashString ct = Inr c \<and>
        get_current_commit_hash m rs = Inr c \<and>
        holds_text fs (diff_filepath rs) d \<and> get_current_git_diff m rs = Inr d)"
  by (auto simp: is_status_the_same_def io_bind_Inr stored_commit_def stored_git_diff_def
      read_text_Inr split: if_splits)

lemma is_status_the_same_eq:
  assumes "holds_text fs (commit_filepath rs) ct" "HashString ct = Inr c0" "holds_text fs (diff_filepath rs) d0"
    and "get_current_commit_hash m rs = Inr c" "get_current_git_diff m rs = Inr d"
  shows "is_status_the_same m rs fs = (Inr (c0 = c \<and> d0 = d), fs)"
  using assms by (simp add: is_status_the_same_def stored_commit_def stored_git_diff_def read_text_holds io_bind_def)

lemma exit_code_0_iff: "exit_code m rs fs = (Inr 0, fs') \<longleftrightarrow> fs' = fs \<and> status_matches m rs fs"
proof
  assume "exit_code m rs fs = (Inr 0, fs')"
  then obtain f1 f2 where "is_initialized rs fs = (Inr True, f1)" and "is_corrupted rs f1 = (Inr False, f2)"
    and "is_status_the_same m rs f2 = (Inr True, fs')"
    by (auto simp: exit_code_def io_bind_Inr split: if_splits)
  then show "fs' = fs \<and> status_matches m rs fs"
    unfolding is_initialized_Inr is_corrupted_Inr same_Inr_True status_matches_def by blast
next
  assume a: "fs' = fs \<and> status_matches m rs fs"
  then have "is_initialized rs fs = (Inr True, fs)"
    by (auto simp: is_initialized_Inr status_matches_def intro: holds_textD)
  moreover from this a have "is_corrupted rs fs = (Inr False, fs)"
    unfolding is_corrupted_Inr status_matches_def by blast
  moreover have "is_status_the_same m rs fs = (Inr True, fs)"
    using a unfolding same_Inr_True status_matches_def by blast
  ultimately show "exit_code m rs fs = (Inr 0, fs')" using a by (simp add: exit_code_def io_bind_def)
qed

lemma exit_code_pure: "exit_code m rs fs = (r, fs') \<Longrightarrow> fs' = fs"
  by (auto simp: exit_code_def io_bind_def is_initialized_def is_corrupted_def compute_hash_def
      path_checksum_def is_status_the_same_def stored_commit_def stored_git_diff_def read_text_def
      stored_status_dir_hash_def split: if_splits sum.splits)

section \<open>Updating\<close>

lemma filepaths_distinct:
  "hash_filepath rs \<noteq> commit_filepath rs" "hash_filepath rs \<noteq> diff_filepath rs"
  "commit_filepath rs \<noteq> diff_filepath rs"
  by (simp_all add: hash_filepath_def commit_filepath_def diff_filepath_def)

lemma filepaths_ne: "commit_filepath rs \<noteq> []" "diff_filepath rs \<noteq> []" "hash_filepath rs \<noteq> []"
  by (simp_all add: hash_filepath_def commit_filepath_def diff_filepath_def)

text \<open>What a successful update did, step by step.\<close>

lemma update_status_Inr:
  assumes "update_status m rs fs = (Inr u, fs')"
  obtains f1 c d h where "mkdir_parents (parts (status_dirpath rs)) fs = (Inr (), f1)"
    and "get_current_commit_hash m rs = Inr c" and "get_current_git_diff m rs = Inr d"
    and "\<not> is_dir (hash_filepath rs) f1"
    and "fs' = dict_set (hash_filepath rs) (File (h @ [LF]))
           (dict_set (diff_filepath rs) (File d) (dict_set (commit_filepath rs) (File (c @ [LF])) f1))"
    and "h = sha1_hexdigest (dir_bytes (parts (status_dirpath rs)) (hash_filepath rs)
           (dict_set (diff_filepath rs) (File d) (dict_set (commit_filepath rs) (File (c @ [LF])) f1)))"
proof -
  from assms obtain v f1 c d h where mk: "mkdir_parents (parts (status_dirpath rs)) fs = (Inr v, f1)"
    and cd: "get_current_commit_hash m rs = Inr c" "get_current_git_diff m rs = Inr d"
    and h: "compute_hash rs (dict_set (diff_filepath rs) (File d)
        (dict_set (commit_filepath rs) (File (c @ [LF])) f1)) =
        (Inr h, dict_set (diff_filepath rs) (File d) (dict_set (commit_filepath rs) (File (c @ [LF])) f1))"
    and w: "\<not> is_dir (hash_filepath rs) (dict_set (diff_filepath rs) (File d)
        (dict_set (commit_filepath rs) (File (c @ [LF])) f1))"
      "fs' = dict_set (hash_filepath rs) (File (h @ [LF]))
        (dict_set (diff_filepath rs) (File d) (dict_set (commit_filepath rs) (File (c @ [LF])) f1))"
    unfolding update_status_def
    by (auto simp: io_bind_Inr write_text_Inr compute_hash_def path_checksum_eq split: if_splits)
  have "\<not> is_dir (hash_filepath rs) f1"
    using w(1) filepaths_distinct [of rs] by (auto simp: is_dir_def)
  with mk cd h w(2) show ?thesis
    by (intro that) (auto simp: compute_hash_def path_checksum_eq split: if_splits)
qed

lemma update_status_matches:
  assumes "fs_ok fs" and "update_status m rs fs = (Inr u, fs')"
  shows "status_matches m rs fs'"
proof -
  let ?dir = "parts (status_dirpath rs)"
  from assms(2) obtain f1 c d h where mk: "mkdir_parents ?dir fs = (Inr (), f1)"
    and c: "get_current_commit_hash m rs = Inr c" and d: "get_current_git_diff m rs = Inr d"
    and fs': "fs' = dict_set (hash_filepath rs) (File (h @ [LF]))
           (dict_set (diff_filepath rs) (File d) (dict_set (commit_filepath rs) (File (c @ [LF])) f1))"
    and h: "h = sha1_hexdigest (dir_bytes ?dir (hash_filepath rs)
           (dict_set (diff_filepath rs) (File d) (dict_set (commit_filepath rs) (File (c @ [LF])) f1)))"
    by (rule update_status_Inr)
  have ok: "dict_ok f1" using mkdir_parents_ok [OF assms(1) mk] by (simp add: fs_ok_def)
  have "is_dir ?dir f1" by (rule mkdir_parents_dir [OF mk])
  then have dir: "is_dir ?dir fs'"
    unfolding fs' by (auto simp: is_dir_def hash_filepath_def diff_filepath_def commit_filepath_def)
  have "dir_bytes ?dir (hash_filepath rs) fs' = dir_bytes ?dir (hash_filepath rs)
      (dict_set (diff_filepath rs) (File d) (dict_set (commit_filepath rs) (File (c @ [LF])) f1))"
    unfolding fs' by (rule dir_bytes_set) (simp add: ok pd.ok_set)
  then have h': "h = sha1_hexdigest (dir_bytes ?dir (hash_filepath rs) fs')" using h by simp
  have is_h: "is_hash h" unfolding h by (rule is_hash_sha1)
  have is_c: "is_hash c" by (rule get_current_commit_hash_hash [OF c])
  have "holds_text fs' (hash_filepath rs) (h @ [LF])" "holds_text fs' (commit_filepath rs) (c @ [LF])"
    "holds_text fs' (diff_filepath rs) d"
    using filepaths_distinct [of rs] decode_hash_line [OF is_h] decode_hash_line [OF is_c]
      get_current_git_diff_text [OF d]
    unfolding fs' holds_text_def by simp_all
  moreover have "HashString (h @ [LF]) = Inr h" "HashString (c @ [LF]) = Inr c"
    by (intro HashString_line is_h is_c)+
  ultimately show ?thesis unfolding status_matches_def using dir h' c d by blast
qed

section \<open>The main program\<close>

text \<open>The arguments as resolved paths; the repository is an existing directory.\<close>

lemma parse_args_Inr:
  "parse_args cwd args fs = (Inr (repo, status), fs') \<longleftrightarrow> fs' = fs \<and>
     (\<exists>rp sp. repo_arg args = Some rp \<and> status_arg args = Some sp \<and> status = resolve cwd sp \<and>
        repo = resolve cwd (resolve cwd (resolve cwd rp)) \<and> is_dir (parts (resolve cwd rp)) fs \<and>
        (parts (resolve cwd (resolve cwd rp)) = [] \<or> path_exists (parts (resolve cwd (resolve cwd rp))) fs))"
  by (auto simp: parse_args_def io_bind_Inr arg_type_def compose2_def io_bind_def check_path_is_dir_def
      check_path_exists_def Let_def split: option.splits if_splits)

lemma main_Inr:
  assumes "main m cwd args fs = (Inr code, fs')"
  obtains rp sp rs where "repo_arg args = Some rp" "status_arg args = Some sp"
    "is_dir (parts (resolve cwd rp)) fs" "which m ''git''"
    "RepoStatus_init (resolve cwd rp) (resolve cwd sp) = Inr rs"
    "exit_code m rs fs = (Inr code, fs)"
    "if code \<noteq> 0 then update_status m rs fs = (Inr (), fs') else fs' = fs"
proof -
  from assms obtain repo status f0 rs f1 where
    pa: "parse_args cwd args fs = (Inr (repo, status), f0)" and "which m ''git''"
    and ini: "RepoStatus_init repo status = Inr rs" and ec: "exit_code m rs f0 = (Inr code, f1)"
    and up: "if code \<noteq> 0 then update_status m rs f1 = (Inr (), fs') else fs' = f1"
    by (auto simp: main_def io_bind_Inr check_git_installed_def split: if_splits)
  moreover from pa have "f0 = fs" unfolding parse_args_Inr by blast
  moreover from ec have "f1 = f0" by (rule exit_code_pure)
  ultimately show ?thesis using that unfolding parse_args_Inr resolve_idem by auto
qed

lemma update_status_keeps_dir:
  assumes "update_status m rs fs = (Inr u, fs')" and "is_dir p fs" and "fs_ok fs"
    and "\<not> prefix (parts (status_dirpath rs)) p"
  shows "is_dir p fs'"
proof -
  from assms(1) obtain f1 c d h where mk: "mkdir_parents (parts (status_dirpath rs)) fs = (Inr (), f1)"
    and fs': "fs' = dict_set (hash_filepath rs) (File (h @ [LF]))
           (dict_set (diff_filepath rs) (File d) (dict_set (commit_filepath rs) (File (c @ [LF])) f1))"
    by (rule update_status_Inr)
  have "is_dir p f1" using assms(2) mk mkdirs_keeps [of _ fs _ f1 p Dir]
    by (auto simp: is_dir_def mkdir_parents_def)
  moreover have "p \<noteq> hash_filepath rs" "p \<noteq> diff_filepath rs" "p \<noteq> commit_filepath rs"
    using assms(4) by (auto simp: hash_filepath_def diff_filepath_def commit_filepath_def)
  ultimately show ?thesis unfolding fs' by (simp add: is_dir_def)
qed

lemma RepoStatus_init_Inr:
  "RepoStatus_init repo status = Inr rs \<longleftrightarrow>
     is_absolute repo \<and> is_absolute status \<and> \<not> is_relative_to repo status \<and>
     \<not> is_relative_to status repo \<and> rs = \<lparr>repo_dirpath = repo, status_dirpath = status\<rparr>"
  by (auto simp: RepoStatus_init_def rbind_eq_Inr)

lemma main_run:
  assumes "repo_arg args = Some rp" "status_arg args = Some sp" "is_dir (parts (resolve cwd rp)) fs"
    "which m ''git''" "RepoStatus_init (resolve cwd rp) (resolve cwd sp) = Inr rs"
  shows "main m cwd args fs = io_bind (exit_code m rs) (\<lambda>code.
       if code \<noteq> 0 then io_bind (update_status m rs) (\<lambda>_. io_return code) else io_return code) fs"
proof -
  have "parts (resolve cwd rp) = [] \<or> path_exists (parts (resolve cwd rp)) fs"
    using assms(3) by (auto simp: is_dir_def path_exists_def)
  then have "parse_args cwd args fs = (Inr (resolve cwd rp, resolve cwd sp), fs)"
    using assms(1-3) unfolding parse_args_Inr resolve_idem by blast
  then show ?thesis using assms(4,5) by (simp add: main_def check_git_installed_def io_bind_def)
qed

lemma main_exit_0:
  assumes "repo_arg args = Some rp" "status_arg args = Some sp" "is_dir (parts (resolve cwd rp)) fs"
    "which m ''git''" "RepoStatus_init (resolve cwd rp) (resolve cwd sp) = Inr rs"
    "status_matches m rs fs"
  shows "main m cwd args fs = (Inr 0, fs)"
proof -
  have "exit_code m rs fs = (Inr 0, fs)" using assms(6) by (simp add: exit_code_0_iff)
  then show ?thesis by (simp add: main_run [OF assms(1-5)])
qed

text \<open>After any run that returned an exit code, the stored status is that of the repository.\<close>

lemma main_settles:
  assumes "fs_ok fs" and "main m cwd args fs = (Inr code, fs')"
  obtains rp sp rs where "repo_arg args = Some rp" "status_arg args = Some sp"
    "is_dir (parts (resolve cwd rp)) fs'" "which m ''git''"
    "RepoStatus_init (resolve cwd rp) (resolve cwd sp) = Inr rs" "status_matches m rs fs'"
proof -
  from assms(2) obtain rp sp rs where a: "repo_arg args = Some rp" "status_arg args = Some sp"
    "is_dir (parts (resolve cwd rp)) fs" "which m ''git''"
    "RepoStatus_init (resolve cwd rp) (resolve cwd sp) = Inr rs"
    and ec: "exit_code m rs fs = (Inr code, fs)"
    and up: "if code \<noteq> 0 then update_status m rs fs = (Inr (), fs') else fs' = fs"
    by (rule main_Inr)
  have "is_dir (parts (resolve cwd rp)) fs' \<and> status_matches m rs fs'"
  proof (cases "code = 0")
    case True
    with up ec a(3) show ?thesis using exit_code_0_iff [of m rs fs fs] by simp
  next
    case False
    with up have up: "update_status m rs fs = (Inr (), fs')" by simp
    have "\<not> prefix (parts (status_dirpath rs)) (parts (resolve cwd rp))"
      using a(5) by (auto simp: RepoStatus_init_Inr is_relative_to_def)
    then have "is_dir (parts (resolve cwd rp)) fs'"
      by (rule update_status_keeps_dir [OF up a(3) assms(1)])
    then show ?thesis using update_status_matches [OF assms(1) up] by simp
  qed
  with a show ?thesis by (intro that) auto
qed

lemma hash_filepath_other: "parts (status_dirpath rs) = dir \<Longrightarrow> hash_filepath rs = dir @ [''hash.txt'']"
  "parts (status_dirpath rs) = dir \<Longrightarrow> commit_filepath rs = dir @ [''commit-hash.txt'']"
  "parts (status_dirpath rs) = dir \<Longrightarrow> diff_filepath rs = dir @ [''diff.txt'']"
  by (simp_all add: hash_filepath_def commit_filepath_def diff_filepath_def)

lemma compute_hash_keeps [io_keeps_intros]: "io_keeps P (compute_hash rs)"
  by (simp add: io_keeps_def compute_hash_def path_checksum_def)

context dir_writes
begin

lemma update_status_keeps: "parts (status_dirpath rs) = dir \<Longrightarrow> io_keeps P (update_status m rs)"
  unfolding update_status_def by (simp only: hash_filepath_other) (intro keeps compute_hash_keeps)

end

text \<open>Either a run stops before the update and nothing changes, or it updates the status directory.\<close>

lemma parse_args_pure: "parse_args cwd args fs = (r, fs') \<Longrightarrow> fs' = fs"
  by (auto simp: parse_args_def io_bind_def arg_type_def compose2_def check_path_is_dir_def
      check_path_exists_def Let_def split: option.splits if_splits sum.splits prod.splits)

lemma main_cases:
  assumes "main m cwd args fs = (r, fs')"
  obtains (unchanged) "fs' = fs"
  | (updated) rp sp rs u where "repo_arg args = Some rp" "status_arg args = Some sp"
    "RepoStatus_init (resolve cwd rp) (resolve cwd sp) = Inr rs" "update_status m rs fs = (u, fs')"
proof (cases "fs' = fs")
  case False
  obtain ra f0 where pa: "parse_args cwd args fs = (ra, f0)" by (rule prod.exhaust)
  have f0: "f0 = fs" by (rule parse_args_pure [OF pa])
  with assms False pa obtain repo status where a: "ra = Inr (repo, status)"
    by (cases ra) (auto simp: main_def)
  note pa = pa [unfolded a f0]
  from assms False pa obtain rs where g: "check_git_installed m = Inr ()" and i: "RepoStatus_init repo status = Inr rs"
    by (cases "check_git_installed m"; cases "RepoStatus_init repo status") (auto simp: main_def)
  obtain rc f1 where ec: "exit_code m rs fs = (rc, f1)" by (rule prod.exhaust)
  note ec = ec [unfolded exit_code_pure [OF ec]]
  obtain u f2 where us: "update_status m rs fs = (u, f2)" by (rule prod.exhaust)
  have "update_status m rs fs = (u, fs')"
    using assms False pa g i ec us by (cases rc; cases u) (auto simp: main_def split: if_splits)
  with pa i show ?thesis unfolding parse_args_Inr resolve_idem by (blast intro: updated)
qed (rule unchanged)

lemma RepoStatus_init_status: "RepoStatus_init repo status = Inr rs \<Longrightarrow> parts (status_dirpath rs) = parts status"
  by (simp add: RepoStatus_init_Inr)

lemma main_ok:
  assumes "fs_ok fs" and "main m cwd args fs = (r, fs')"
  shows "fs_ok fs'"
  using assms(2)
proof (cases rule: main_cases)
  case (updated rp sp rs u)
  show ?thesis by (rule io_keepsD [OF ok.update_status_keeps [OF refl] assms(1) updated(4)])
qed (simp add: assms(1))

text \<open>One run of the script, with any arguments and any answers of git.\<close>

inductive script_run :: "fs \<Rightarrow> fs \<Rightarrow> bool" where
  run: "main m cwd args fs = (r, fs') \<Longrightarrow> script_run fs fs'"



text \<open>C9: Reporting a change settles it. After a run of the script that returned an exit code, zero or
  not, the next run with the same arguments, the repository being as it was, exits with 0 and does
  not touch any file.\<close>

theorem main_repeat:
  assumes "fs_ok fs" and "main m cwd args fs = (Inr code, fs')"
  shows "main m cwd args fs' = (Inr 0, fs')"
  using main_settles [OF assms] main_exit_0 by metis

lemma main_code:
  assumes "main m cwd args fs = (Inr code, fs')" and "repo_arg args = Some rp" "status_arg args = Some sp"
    and "RepoStatus_init (resolve cwd rp) (resolve cwd sp) = Inr rs"
  shows "code = (if status_matches m rs fs then 0 else 47)"
proof -
  from assms have ec: "exit_code m rs fs = (Inr code, fs)" by (auto elim!: main_Inr)
  then have "code = 0 \<or> code = 47" by (auto simp: exit_code_def io_bind_Inr split: if_splits)
  with ec show ?thesis using exit_code_0_iff [of m rs fs fs] by auto
qed

text \<open>C6: The meaning of the exit code. The script exits with 0 exactly if both arguments are given,
  the repository is a directory, git is installed, neither directory contains the other, and the
  status directory matches the repository: its checksum is intact, and the commit and the
  working-tree status it holds are the current ones. With 0 it has changed no file.\<close>

theorem main_exit_0_iff:
  "main m cwd args fs = (Inr 0, fs') \<longleftrightarrow> fs' = fs \<and> which m ''git'' \<and>
     (\<exists>rp sp rs. repo_arg args = Some rp \<and> status_arg args = Some sp \<and>
        is_dir (parts (resolve cwd rp)) fs \<and>
        RepoStatus_init (resolve cwd rp) (resolve cwd sp) = Inr rs \<and> status_matches m rs fs)"
proof
  assume "main m cwd args fs = (Inr 0, fs')"
  then show "fs' = fs \<and> which m ''git'' \<and> (\<exists>rp sp rs. repo_arg args = Some rp \<and> status_arg args = Some sp \<and>
      is_dir (parts (resolve cwd rp)) fs \<and>
      RepoStatus_init (resolve cwd rp) (resolve cwd sp) = Inr rs \<and> status_matches m rs fs)"
    by (rule main_Inr) (auto simp: exit_code_0_iff)
qed (use main_exit_0 in blast)

text \<open>An update succeeds where the directory can be made, git answers and no directory is in the way.\<close>

lemma update_status_succeeds:
  assumes "mkdir_parents (parts (status_dirpath rs)) fs = (Inr (), f1)"
    and "get_current_commit_hash m rs = Inr c" and "get_current_git_diff m rs = Inr d"
    and "\<not> is_dir (commit_filepath rs) f1" "\<not> is_dir (diff_filepath rs) f1" "\<not> is_dir (hash_filepath rs) f1"
  shows "\<exists>fs'. update_status m rs fs = (Inr (), fs')"
proof -
  let ?dir = "parts (status_dirpath rs)"
  have dir: "is_dir ?dir f1" by (rule mkdir_parents_dir [OF assms(1)])
  have b: "butlast (commit_filepath rs) = ?dir" "butlast (diff_filepath rs) = ?dir" "butlast (hash_filepath rs) = ?dir"
    by (simp_all add: commit_filepath_def diff_filepath_def hash_filepath_def)
  have ne: "commit_filepath rs \<noteq> ?dir" "diff_filepath rs \<noteq> ?dir"
    by (simp_all add: commit_filepath_def diff_filepath_def)
  have keep: "is_dir ?dir (dict_set (commit_filepath rs) n f)" "is_dir ?dir (dict_set (diff_filepath rs) n f)"
    if "is_dir ?dir f" for n f
    using that ne by (auto simp: is_dir_def)
  have other: "is_dir p (dict_set q (File t) f) \<Longrightarrow> is_dir p f" for p q t f
    by (auto simp: is_dir_def split: if_splits)
  have "write_text (commit_filepath rs) (c @ [LF]) f1 = (Inr (), dict_set (commit_filepath rs) (File (c @ [LF])) f1)"
    (is "_ = (_, ?f2)") using assms(4) dir by (simp add: write_text_def b)
  moreover have "write_text (diff_filepath rs) d ?f2 = (Inr (), dict_set (diff_filepath rs) (File d) ?f2)"
    (is "_ = (_, ?f3)") using assms(5) dir keep other by (auto simp: write_text_def b)
  moreover have "compute_hash rs ?f3 = (Inr (sha1_hexdigest (dir_bytes ?dir (hash_filepath rs) ?f3)), ?f3)"
    using dir keep by (simp add: compute_hash_def path_checksum_eq)
  moreover have "write_text (hash_filepath rs) h ?f3 = (Inr (), dict_set (hash_filepath rs) (File h) ?f3)" for h
    using assms(6) dir keep other unfolding write_text_def b by metis
  ultimately show ?thesis unfolding update_status_def using assms(1-3) by simp
qed

text \<open>C1: A change of the repository is always noticed. After a run that returned, let the commit or
  the working-tree status of the repository become a different one. Then the next run returns 47
  and has stored the new status, so that the run after it returns 0.\<close>

theorem main_detects_change:
  assumes "fs_ok fs" and "main m cwd args fs = (Inr code, fs')"
    and "repo_arg args = Some rp" "status_arg args = Some sp"
    and "RepoStatus_init (resolve cwd rp) (resolve cwd sp) = Inr rs"
    and "which m' ''git''" "get_current_commit_hash m' rs = Inr c" "get_current_git_diff m' rs = Inr d"
    and "get_current_commit_hash m rs \<noteq> Inr c \<or> get_current_git_diff m rs \<noteq> Inr d"
  shows "\<exists>fs''. main m' cwd args fs' = (Inr 47, fs'') \<and> main m' cwd args fs'' = (Inr 0, fs'')"
proof -
  from assms(1,2) have match: "status_matches m rs fs'" and dir: "is_dir (parts (resolve cwd rp)) fs'"
    using assms(3-5) by (auto elim!: main_settles)
  have ok: "fs_ok fs'" by (rule main_ok [OF assms(1,2)])
  from match obtain c0 ct d0 where
    st: "holds_text fs' (commit_filepath rs) ct" "HashString ct = Inr c0" "holds_text fs' (diff_filepath rs) d0"
    and cur: "get_current_commit_hash m rs = Inr c0" "get_current_git_diff m rs = Inr d0"
    unfolding status_matches_def by blast
  have "is_status_the_same m' rs fs' = (Inr False, fs')"
    using is_status_the_same_eq [OF st assms(7,8)] assms(9) cur by auto
  moreover have "is_corrupted rs fs' = (Inr False, fs')" and "is_initialized rs fs' = (Inr True, fs')"
    using match by (auto simp: is_corrupted_Inr is_initialized_Inr status_matches_def intro: holds_textD)
  ultimately have ec: "exit_code m' rs fs' = (Inr 47, fs')" by (simp add: exit_code_def io_bind_def)
  have files: "\<not> is_dir (commit_filepath rs) fs'" "\<not> is_dir (diff_filepath rs) fs'" "\<not> is_dir (hash_filepath rs) fs'"
    using match by (auto simp: status_matches_def dest: holds_text_not_dir [OF _ filepaths_ne(1)]
        holds_text_not_dir [OF _ filepaths_ne(2)] holds_text_not_dir [OF _ filepaths_ne(3)])
  from match obtain n where "dict_get fs' (hash_filepath rs) = Some n"
    unfolding status_matches_def by (auto dest!: holds_textD simp: path_exists_def)
  from fs_okD [OF ok this] have "is_dir (parts (status_dirpath rs)) fs'" by (simp add: hash_filepath_def)
  from update_status_succeeds [OF mkdir_parents_exists [OF ok this] assms(7,8) files]
  obtain fs'' where up: "update_status m' rs fs' = (Inr (), fs'')" by blast
  have "main m' cwd args fs' = (Inr 47, fs'')"
    using main_run [OF assms(3,4) dir assms(6,5)] ec up by simp
  with main_settles [OF ok this] main_exit_0 [of args _ _ cwd fs'' m'] show ?thesis by metis
qed

section \<open>Refinement\<close>

text \<open>
  What the script promises, without files and checksums: it remembers the last state of the
  repository, answers whether the current one is the same, and remembers the current one.
\<close>

definition watch :: "'a \<Rightarrow> 'a option \<Rightarrow> int \<times> 'a option" where
  "watch current remembered = (if remembered = Some current then 0 else 47, Some current)"

text \<open>What an intact status directory remembers.\<close>

definition remembered :: "repo_status \<Rightarrow> fs \<Rightarrow> (string \<times> string) option" where
  "remembered rs fs =
     (case (fst (is_corrupted rs fs), fst (stored_commit rs fs), fst (stored_git_diff rs fs)) of
        (Inr False, Inr c, Inr d) \<Rightarrow> Some (c, d)
      | _ \<Rightarrow> None)"

lemma read_text_pure: "read_text p fs = (r, fs') \<Longrightarrow> fs' = fs"
  by (simp add: read_text_def)

lemma remembered_Some:
  "remembered rs fs = Some (c, d) \<longleftrightarrow> is_corrupted rs fs = (Inr False, fs) \<and>
     stored_commit rs fs = (Inr c, fs) \<and> stored_git_diff rs fs = (Inr d, fs)"
proof -
  have "snd (is_corrupted rs fs) = fs"
    by (auto simp: is_corrupted_def io_bind_def is_initialized_def compute_hash_def path_checksum_def
        stored_status_dir_hash_def read_text_def split: sum.splits)
  moreover have "snd (stored_commit rs fs) = fs" "snd (stored_git_diff rs fs) = fs"
    by (auto simp: stored_commit_def stored_git_diff_def io_bind_def read_text_def split: sum.splits)
  ultimately show ?thesis
    by (cases "is_corrupted rs fs"; cases "stored_commit rs fs"; cases "stored_git_diff rs fs")
      (auto simp: remembered_def split: sum.splits bool.splits)
qed

lemma status_matches_remembered:
  "status_matches m rs fs \<longleftrightarrow> (\<exists>c d. get_current_commit_hash m rs = Inr c \<and>
     get_current_git_diff m rs = Inr d \<and> remembered rs fs = Some (c, d))"
  unfolding remembered_Some status_matches_def is_corrupted_False stored_commit_def
    stored_git_diff_def io_bind_Inr read_text_Inr io_lift_def prod.inject by blast

text \<open>C2: The script refines its specification. A run that returns has read the current commit and
  working-tree status; its exit code is the answer of the specification for what an intact status
  directory held before, and afterwards the status directory is intact and holds the current state.\<close>

theorem main_refines_watch:
  assumes "fs_ok fs" and "main m cwd args fs = (Inr code, fs')"
  shows "\<exists>rp sp rs c d. repo_arg args = Some rp \<and> status_arg args = Some sp \<and>
    RepoStatus_init (resolve cwd rp) (resolve cwd sp) = Inr rs \<and>
    get_current_commit_hash m rs = Inr c \<and> get_current_git_diff m rs = Inr d \<and>
    (code, remembered rs fs') = watch (c, d) (remembered rs fs)"
proof -
  from main_settles [OF assms] obtain rp sp rs where a: "repo_arg args = Some rp" "status_arg args = Some sp"
    "RepoStatus_init (resolve cwd rp) (resolve cwd sp) = Inr rs" "status_matches m rs fs'" .
  then obtain c d where cd: "get_current_commit_hash m rs = Inr c" "get_current_git_diff m rs = Inr d"
    "remembered rs fs' = Some (c, d)" unfolding status_matches_remembered by blast
  have "code = (if status_matches m rs fs then 0 else 47)" by (rule main_code [OF assms(2) a(1-3)])
  then have "(code, remembered rs fs') = watch (c, d) (remembered rs fs)"
    using cd by (simp add: watch_def status_matches_remembered)
  with a(1-3) cd(1,2) show ?thesis by blast
qed

section \<open>Exceptions\<close>

text \<open>
  What can escape from the script: errors of the arguments, of the directories, of the commands, of
  the stored files. \<open>subprocess.run\<close> raises \<open>SubprocessError\<close> (a timeout) or an \<open>OSError\<close>.
\<close>

definition guard_errors :: "py_error set" where
  "guard_errors = {SystemExit 2, RuntimeError, AssertionError, ValueError, UnicodeDecodeError,
     FileNotFoundError, OSErr, SubprocessError}"

definition machine_ok :: "machine \<Rightarrow> bool" where
  "machine_ok m \<longleftrightarrow>
     (\<forall>command cwd. raises_in {SubprocessError, FileNotFoundError, OSErr} (exec m command cwd))"

lemma guard_errors_simps [simp]:
  "SystemExit 2 \<in> guard_errors" "RuntimeError \<in> guard_errors" "AssertionError \<in> guard_errors"
  "ValueError \<in> guard_errors" "UnicodeDecodeError \<in> guard_errors" "FileNotFoundError \<in> guard_errors"
  "OSErr \<in> guard_errors" "SubprocessError \<in> guard_errors"
  by (simp_all add: guard_errors_def)

lemma raises_mono: "raises_in E r \<Longrightarrow> E \<subseteq> F \<Longrightarrow> raises_in F r"
  by (auto simp: raises_in_def)

lemma exec_raises: "machine_ok m \<Longrightarrow> raises_in guard_errors (exec m command cwd)"
  unfolding machine_ok_def by (rule raises_mono) auto

lemma decode_raises: "UnicodeDecodeError \<in> E \<Longrightarrow> raises_in E (decode_text b)"
  by (simp add: raises_in_def decode_text_eq)

lemma HashString_raises: "ValueError \<in> E \<Longrightarrow> raises_in E (HashString s)"
  by (simp add: raises_in_def HashString_def Let_def)

lemmas basic_raises = exec_raises decode_raises HashString_raises raises_in_assert io_raises_read
  io_raises_write io_raises_mkdir raises_intros

lemma run_raises: "machine_ok m \<Longrightarrow> raises_in guard_errors (run_git_or_mercurial m g h cwd)"
  unfolding run_git_or_mercurial_def run_subprocess_def by (intro basic_raises) simp_all

lemma compute_hash_raises: "io_raises_in guard_errors (compute_hash rs)"
  by (simp add: io_raises_in_def raises_in_def compute_hash_def path_checksum_eq)

lemma is_initialized_raises: "io_raises_in guard_errors (is_initialized rs)"
proof -
  have "io_raises_in guard_errors (io_bind (read_text (hash_filepath rs))
      (\<lambda>c. io_return (HashString c \<noteq> Inl ValueError)))"
    by (intro basic_raises) simp
  then show ?thesis by (simp add: io_raises_in_def is_initialized_def raises_in_def)
qed

lemma exit_code_raises: "machine_ok m \<Longrightarrow> io_raises_in guard_errors (exit_code m rs)"
  unfolding exit_code_def is_corrupted_def is_status_the_same_def stored_commit_def stored_git_diff_def
    stored_status_dir_hash_def get_current_commit_hash_def get_current_git_diff_def
  by (intro basic_raises is_initialized_raises compute_hash_raises run_raises) simp_all

lemma update_status_raises: "machine_ok m \<Longrightarrow> io_raises_in guard_errors (update_status m rs)"
  unfolding update_status_def get_current_commit_hash_def get_current_git_diff_def
  by (intro basic_raises compute_hash_raises run_raises) simp_all

lemma parse_args_raises: "io_raises_in guard_errors (parse_args cwd args)"
proof -
  have "io_raises_in guard_errors (arg_type (compose [\<lambda>p. io_return (resolve cwd p), io_return]) a)"
    "io_raises_in guard_errors (arg_type (compose [\<lambda>p. io_return (resolve cwd p), check_path_exists cwd,
         check_path_is_dir cwd, io_return]) a)" for a
    by (auto simp: io_raises_in_def raises_in_def arg_type_def compose2_def io_bind_def check_path_exists_def
        check_path_is_dir_def Let_def split: option.splits)
  then show ?thesis unfolding parse_args_def by (intro raises_intros)
qed

lemma main_raises:
  assumes "machine_ok m"
  shows "io_raises_in guard_errors (main m cwd args)"
  unfolding main_def check_git_installed_def RepoStatus_init_def
  by (intro basic_raises parse_args_raises exit_code_raises update_status_raises assms) (auto intro!: basic_raises parse_args_raises exit_code_raises update_status_raises assms)

section \<open>Bytes that are no text\<close>

text \<open>A hash file that is not text stops the script. If the bytes of the hash file are not UTF-8,
  a run that reaches it raises, although such a file is neither initialised nor intact: it reports
  nothing, changes nothing, and so does every later run.\<close>

theorem undecodable_hash_stops_main:
  assumes "repo_arg args = Some rp" "status_arg args = Some sp" "is_dir (parts (resolve cwd rp)) fs"
    and "which m ''git''" "RepoStatus_init (resolve cwd rp) (resolve cwd sp) = Inr rs"
    and "dict_get fs (hash_filepath rs) = Some (File b)" "\<not> utf8_ok b"
  shows "main m cwd args fs = (Inl UnicodeDecodeError, fs)"
proof -
  have "read_text (hash_filepath rs) fs = (Inl UnicodeDecodeError, fs)"
    using assms(6,7) by (simp add: read_text_def read_bytes_def decode_text_eq)
  then have "is_initialized rs fs = (Inl UnicodeDecodeError, fs)"
    using assms(6) by (simp add: is_initialized_def path_exists_def)
  then show ?thesis by (simp add: main_run [OF assms(1-5)] exit_code_def)
qed

text \<open>A repository whose status is not text blocks the build. If the output of \<open>git status -vv\<close> is not
  UTF-8, for instance because it quotes a staged file in another encoding, no run returns an exit
  code, and the stored status is never brought up to date.\<close>

theorem undecodable_status_never_returns:
  assumes "exec m [''git'', ''status'', ''-vv''] (parts (resolve cwd rp)) = Inr c" "\<not> utf8_ok (stdout c)"
    and "repo_arg args = Some rp" and "fs_ok fs"
  shows "\<nexists>code fs'. main m cwd args fs = (Inr code, fs')"
proof
  assume "\<exists>code fs'. main m cwd args fs = (Inr code, fs')"
  then obtain code fs' where "main m cwd args fs = (Inr code, fs')" by blast
  from main_settles [OF assms(4) this] obtain sp rs
    where ini: "RepoStatus_init (resolve cwd rp) (resolve cwd sp) = Inr rs" and "status_matches m rs fs'"
    using assms(3) by (metis option.inject)
  then obtain d where d: "get_current_git_diff m rs = Inr d" unfolding status_matches_def by blast
  have "repo_dirpath rs = resolve cwd rp" using ini by (simp add: RepoStatus_init_Inr)
  then have "run_subprocess m [''git'', ''status'', ''-vv''] (parts (repo_dirpath rs)) = Inl UnicodeDecodeError"
    using assms(1,2) by (simp add: run_subprocess_def decode_text_eq)
  with d show False by (simp add: get_current_git_diff_def run_git_or_mercurial_def)
qed

section \<open>The checksum\<close>

lemma sort_three:
  assumes "distinct xs" and "set xs = {a, b, c}" and "a < b" "b < (c :: 'a :: linorder)"
  shows "sort xs = [a, b, c]"
proof -
  have "sorted [a, b, c]" "distinct [a, b, c]" using assms(3,4) by auto
  moreover have "set (sort xs) = set [a, b, c]" using assms(2) by simp
  ultimately show ?thesis using assms(1) sorted_distinct_set_unique [of "sort xs" "[a, b, c]"] by simp
qed

lemma append_less: "x < y \<Longrightarrow> p @ [x] < p @ [y :: 'a :: linorder]"
  by (induction p) auto

lemma filepaths_sorted:
  "commit_filepath rs < diff_filepath rs" "diff_filepath rs < hash_filepath rs"
  unfolding commit_filepath_def diff_filepath_def hash_filepath_def by (intro append_less, code_simp)+

text \<open>Of a status directory that holds the three files only, the checksum sees two contents in a row.\<close>

lemma dir_bytes_three:
  assumes "dict_ok fs" "set (rglob (parts (status_dirpath rs)) fs) = {commit_filepath rs, diff_filepath rs, hash_filepath rs}"
  shows "dir_bytes (parts (status_dirpath rs)) (hash_filepath rs) fs =
    file_bytes fs (commit_filepath rs) @ file_bytes fs (diff_filepath rs)"
proof -
  have "distinct (rglob (parts (status_dirpath rs)) fs)" using assms(1) by (simp add: rglob_def dict_ok_def dict_keys_def)
  from sort_three [OF this assms(2) filepaths_sorted] show ?thesis
    using filepaths_distinct [of rs] by (simp add: dir_bytes_def)
qed

text \<open>The checksum does not protect the boundary between the stored files. In an intact status
  directory that holds the three files only, moving any end of the stored commit to the start of the
  stored status is not recognised as corruption, because only the concatenated contents enter the
  checksum.\<close>

theorem corruption_not_seen_across_files:
  assumes "fs_ok fs"
    and "set (rglob (parts (status_dirpath rs)) fs) = {commit_filepath rs, diff_filepath rs, hash_filepath rs}"
    and "dict_get fs (commit_filepath rs) = Some (File (x @ y))" "dict_get fs (diff_filepath rs) = Some (File z)"
    and "is_corrupted rs fs = (Inr False, fs)"
    and "fs' = dict_set (diff_filepath rs) (File (y @ z)) (dict_set (commit_filepath rs) (File x) fs)"
  shows "is_corrupted rs fs' = (Inr False, fs')"
proof -
  let ?dir = "parts (status_dirpath rs)"
  have ok: "dict_ok fs" "dict_ok fs'" using assms(1,6) by (simp_all add: fs_ok_def pd.ok_set)
  have "dict_get fs' p = None \<longleftrightarrow> dict_get fs p = None" for p using assms(3,4,6) by auto
  then have "set (rglob ?dir fs') = set (rglob ?dir fs)" unfolding rglob_def by (simp add: dict_get_None_iff set_eq_iff)
  with assms(2) have "dir_bytes ?dir (hash_filepath rs) fs' = dir_bytes ?dir (hash_filepath rs) fs"
    using ok assms(3,4,6) filepaths_distinct [of rs] by (simp add: dir_bytes_three file_bytes_def)
  moreover have "holds_text fs' (hash_filepath rs) t = holds_text fs (hash_filepath rs) t" for t
    using assms(6) filepaths_distinct [of rs] by (simp add: holds_text_def)
  moreover have "is_dir ?dir fs \<or> path_exists ?dir fs \<Longrightarrow> is_dir ?dir fs' \<or> path_exists ?dir fs'"
    using assms(3,4,6) by (auto simp: is_dir_def path_exists_def)
  ultimately show ?thesis
    using assms(5) unfolding is_corrupted_False by auto
qed

section \<open>An example\<close>

text \<open>A repository \<open>/repo\<close>, watched from \<open>/work\<close> with the status in \<open>/work/state\<close>.\<close>

definition example_machine :: "string \<Rightarrow> string \<Rightarrow> machine" where
  "example_machine c d =
     \<lparr>which = (\<lambda>p. p = ''git''),
      exec = (\<lambda>cmd cwd. Inr \<lparr>returncode = 0, stdout = if cmd = [''git'', ''rev-parse'', ''HEAD''] then c else d,
                             stderr = []\<rparr>)\<rparr>"

definition example_cwd :: path where
  "example_cwd = [''work'']"

definition example_args :: arguments where
  "example_args = \<lparr>status_arg = Some \<lparr>is_absolute = False, parts = [''state'']\<rparr>,
     repo_arg = Some \<lparr>is_absolute = False, parts = [''..'', ''repo'']\<rparr>\<rparr>"

definition example_fs :: fs where
  "example_fs = [([''repo''], Dir), ([''work''], Dir)]"

definition example_rs :: repo_status where
  "example_rs = \<lparr>repo_dirpath = \<lparr>is_absolute = True, parts = [''repo'']\<rparr>,
     status_dirpath = \<lparr>is_absolute = True, parts = [''work'', ''state'']\<rparr>\<rparr>"

definition example_hash :: string where
  "example_hash = replicate 40 CHR ''a''"

lemma example_fs_ok: "fs_ok example_fs"
  by (auto simp: fs_ok_def dict_ok_def example_fs_def is_dir_def split: if_splits)

lemma example_args_simps:
  "status_arg example_args = Some \<lparr>is_absolute = False, parts = [''state'']\<rparr>"
  "repo_arg example_args = Some \<lparr>is_absolute = False, parts = [''..'', ''repo'']\<rparr>"
  by (simp_all add: example_args_def)

lemma example_init:
  "RepoStatus_init (resolve example_cwd \<lparr>is_absolute = False, parts = [''..'', ''repo'']\<rparr>)
     (resolve example_cwd \<lparr>is_absolute = False, parts = [''state'']\<rparr>) = Inr example_rs"
  "parts (resolve example_cwd \<lparr>is_absolute = False, parts = [''..'', ''repo'']\<rparr>) = [''repo'']"
  by (simp_all add: RepoStatus_init_Inr resolve_def example_cwd_def example_rs_def is_relative_to_def)

lemma example_commit:
  assumes "is_hash c"
  shows "get_current_commit_hash (example_machine (c @ [LF]) d) rs = Inr c"
  using HashString_line [OF assms] decode_hash_line [OF assms]
  by (simp add: get_current_commit_hash_def run_git_or_mercurial_def run_subprocess_def example_machine_def)

lemma example_diff: "decode_text d = Inr d \<Longrightarrow> get_current_git_diff (example_machine c d) rs = Inr d"
  by (simp add: get_current_git_diff_def run_git_or_mercurial_def run_subprocess_def example_machine_def)

lemma example_hash_ok: "is_hash example_hash"
  by code_simp

lemma example_first_run:
  assumes d: "decode_text d = Inr d"
  shows "\<exists>fs'. main (example_machine (example_hash @ [LF]) d) example_cwd example_args example_fs = (Inr 47, fs')"
proof -
  let ?m = "example_machine (example_hash @ [LF]) d"
  have get: "dict_get example_fs p = (if p = [''repo''] \<or> p = [''work''] then Some Dir else None)" for p
    by (simp add: example_fs_def)
  have mk: "mkdir_parents (parts (status_dirpath example_rs)) example_fs =
      (Inr (), dict_set [''work'', ''state''] Dir example_fs)"
    by (simp add: mkdir_parents_def ancestors_def example_rs_def get upt_conv_Cons)
  have "exit_code ?m example_rs example_fs = (Inr 47, example_fs)"
    by (simp add: exit_code_def io_bind_def is_initialized_def path_exists_def get hash_filepath_def example_rs_def)
  moreover obtain fs' where "update_status ?m example_rs example_fs = (Inr (), fs')"
    using update_status_succeeds [OF mk example_commit [OF example_hash_ok] example_diff [OF d]]
    by (auto simp: is_dir_def get commit_filepath_def diff_filepath_def hash_filepath_def example_rs_def)
  moreover have "is_dir (parts (resolve example_cwd \<lparr>is_absolute = False, parts = [''..'', ''repo'']\<rparr>)) example_fs"
    by (simp add: example_init is_dir_def get)
  moreover have "which ?m ''git''" by (simp add: example_machine_def)
  ultimately show ?thesis
    using main_run [OF example_args_simps(2,1) _ _ example_init(1), of example_fs ?m] by simp
qed

theorem main_repeat_witness:
  "\<exists>fs'. main (example_machine (example_hash @ [LF]) []) example_cwd example_args example_fs = (Inr 47, fs') \<and>
     main (example_machine (example_hash @ [LF]) []) example_cwd example_args fs' = (Inr 0, fs')"
  using example_first_run [of "[]"] main_repeat [OF example_fs_ok] decode_text_Nil by metis

theorem main_refines_watch_witness:
  "\<exists>fs'. main (example_machine (example_hash @ [LF]) []) example_cwd example_args example_fs = (Inr 47, fs') \<and>
     remembered example_rs fs' = Some (example_hash, [])"
proof -
  obtain fs' where r: "main (example_machine (example_hash @ [LF]) []) example_cwd example_args example_fs = (Inr 47, fs')"
    using example_first_run [of "[]"] by auto
  from r main_refines_watch [OF example_fs_ok r] show ?thesis
    by (auto intro!: exI [of _ fs'] simp: example_args_simps example_init example_commit example_hash_ok example_diff watch_def
        universal_newlines_no_CR)
qed

theorem main_detects_change_witness:
  "\<exists>fs' fs''. main (example_machine (example_hash @ [LF]) []) example_cwd example_args example_fs = (Inr 47, fs') \<and>
     main (example_machine (example_hash @ [LF]) ''M'') example_cwd example_args fs' = (Inr 47, fs'') \<and>
     main (example_machine (example_hash @ [LF]) ''M'') example_cwd example_args fs'' = (Inr 0, fs'')"
proof -
  obtain fs' where r: "main (example_machine (example_hash @ [LF]) []) example_cwd example_args example_fs = (Inr 47, fs')"
    using example_first_run [of "[]"] by auto
  have "which (example_machine (example_hash @ [LF]) ''M'') ''git''" by (simp add: example_machine_def)
  moreover have "decode_text ''M'' = Inr ''M''" by code_simp
  moreover have "get_current_git_diff (example_machine (example_hash @ [LF]) []) example_rs \<noteq> Inr ''M''"
    by (simp add: example_diff)
  ultimately show ?thesis
    using r main_detects_change [OF example_fs_ok r example_args_simps(2,1) example_init(1) _
        example_commit [OF example_hash_ok] example_diff] by blast
qed



theorem undecodable_hash_stops_main_witness:
  "main (example_machine [] []) example_cwd example_args
     (dict_set (hash_filepath example_rs) (File [CHR 0xFF]) example_fs) =
   (Inl UnicodeDecodeError, dict_set (hash_filepath example_rs) (File [CHR 0xFF]) example_fs)"
proof (rule undecodable_hash_stops_main [OF example_args_simps(2,1) _ _ example_init(1)])
  show "is_dir (parts (resolve example_cwd \<lparr>is_absolute = False, parts = [''..'', ''repo'']\<rparr>))
      (dict_set (hash_filepath example_rs) (File [CHR 0xFF]) example_fs)"
    by (simp add: example_init is_dir_def example_fs_def hash_filepath_def example_rs_def)
  show "which (example_machine [] []) ''git''" by (simp add: example_machine_def)
  show "\<not> utf8_ok [CHR 0xFF]" by code_simp
qed simp

theorem undecodable_status_never_returns_witness:
  "\<nexists>code fs'. main (example_machine (example_hash @ [LF]) [CHR 0xFF]) example_cwd example_args example_fs =
     (Inr code, fs')"
proof (rule undecodable_status_never_returns [OF _ _ example_args_simps(2) example_fs_ok])
  let ?c = "\<lparr>returncode = 0, stdout = [CHR 0xFF], stderr = []\<rparr>"
  show "exec (example_machine (example_hash @ [LF]) [CHR 0xFF]) [''git'', ''status'', ''-vv'']
      (parts (resolve example_cwd \<lparr>is_absolute = False, parts = [''..'', ''repo'']\<rparr>)) = Inr ?c"
    by (simp add: example_machine_def)
  show "\<not> utf8_ok (stdout ?c)" by code_simp
qed

definition example_status :: fs where
  "example_status = [([''work''], Dir), ([''work'', ''state''], Dir),
     (commit_filepath example_rs, File (example_hash @ [LF])), (diff_filepath example_rs, File []),
     (hash_filepath example_rs, File (sha1_hexdigest (example_hash @ [LF]) @ [LF]))]"

lemma example_files:
  "commit_filepath example_rs = [''work'', ''state'', ''commit-hash.txt'']"
  "diff_filepath example_rs = [''work'', ''state'', ''diff.txt'']"
  "hash_filepath example_rs = [''work'', ''state'', ''hash.txt'']"
  "parts (status_dirpath example_rs) = [''work'', ''state'']"
  by (simp_all add: commit_filepath_def diff_filepath_def hash_filepath_def example_rs_def)

lemma example_status_get:
  "dict_get example_status [''work''] = Some Dir" "dict_get example_status [''work'', ''state''] = Some Dir"
  "dict_get example_status (commit_filepath example_rs) = Some (File (example_hash @ [LF]))"
  "dict_get example_status (diff_filepath example_rs) = Some (File [])"
  "dict_get example_status (hash_filepath example_rs) = Some (File (sha1_hexdigest (example_hash @ [LF]) @ [LF]))"
  by (simp_all add: example_status_def example_files)

lemma example_status_ok: "fs_ok example_status"
  by (auto simp: fs_ok_def dict_ok_def example_status_def example_files is_dir_def split: if_splits)

lemma example_status_rglob:
  "set (rglob (parts (status_dirpath example_rs)) example_status) =
     {commit_filepath example_rs, diff_filepath example_rs, hash_filepath example_rs}"
  by (auto simp: rglob_def dict_keys_def example_status_def example_files strict_prefix_def)

lemma example_status_intact: "is_corrupted example_rs example_status = (Inr False, example_status)"
proof -
  let ?h = "sha1_hexdigest (example_hash @ [LF])"
  have "dict_ok example_status" using example_status_ok by (simp add: fs_ok_def)
  then have "dir_bytes (parts (status_dirpath example_rs)) (hash_filepath example_rs) example_status = example_hash @ [LF]"
    using dir_bytes_three [OF _ example_status_rglob] by (simp add: file_bytes_def example_status_get)
  moreover have "holds_text example_status (hash_filepath example_rs) (?h @ [LF])" "HashString (?h @ [LF]) = Inr ?h"
    using decode_hash_line [OF is_hash_sha1] HashString_line [OF is_hash_sha1]
    by (simp_all add: holds_text_def example_status_get)
  ultimately show ?thesis
    unfolding is_corrupted_False by (auto simp: path_exists_def example_status_get is_dir_def example_files(4))
qed

text \<open>The line end of the stored commit moves into the stored status.\<close>

theorem corruption_not_seen_across_files_witness:
  "is_corrupted example_rs
     (dict_set (diff_filepath example_rs) (File [LF])
        (dict_set (commit_filepath example_rs) (File example_hash) example_status)) =
   (Inr False, dict_set (diff_filepath example_rs) (File [LF])
        (dict_set (commit_filepath example_rs) (File example_hash) example_status))"
  using corruption_not_seen_across_files [OF example_status_ok example_status_rglob example_status_get(3,4)
      example_status_intact refl] by simp

end
