(* ===== verification/Build_If_Changed.thy ===== *)
theory Build_If_Changed
  imports Repo_Guard
begin

text \<open>
  The client of the guard: \<^verbatim>\<open>scripts/_build-itcoin-core-if-changed.sh\<close>, which the build of the node runs,
  with \<^verbatim>\<open>scripts/_check-files-existence.sh\<close>. The configuration and compilation of the library is an
  argument of the model; it returns an exit code and the files it leaves.
\<close>

section \<open>The scripts\<close>

text \<open>The version check at the head of the guard, and its exit status as a process.\<close>

definition check_version :: "int \<times> int \<Rightarrow> unit result" where
  "check_version v = (if fst v < 3 \<or> fst v = 3 \<and> snd v < 8 then Inl ValueError else Inr ())"

definition exit_status :: "int result \<Rightarrow> int" where
  "exit_status r = (case r of Inr code \<Rightarrow> code | Inl (SystemExit n) \<Rightarrow> n | Inl e \<Rightarrow> 1)"

definition check_repo_src_changed :: "int \<times> int \<Rightarrow> machine \<Rightarrow> path \<Rightarrow> arguments \<Rightarrow> fs \<Rightarrow> int \<times> fs" where
  "check_repo_src_changed v m cwd args fs =
     (case io_bind (io_lift (check_version v)) (\<lambda>_. main m cwd args) fs of
        (r, fs') \<Rightarrow> (exit_status r, fs'))"

text \<open>\<open>test -f\<close> for every library, up to the first that is missing.\<close>

fun check_files_existence :: "path \<Rightarrow> ppath list \<Rightarrow> fs \<Rightarrow> int" where
  "check_files_existence cwd [] fs = 0"
| "check_files_existence cwd (l # libs) fs =
     (if \<not> is_file (parts (resolve cwd l)) fs then 1 else check_files_existence cwd libs fs)"

definition build_if_changed ::
  "int \<times> int \<Rightarrow> machine \<Rightarrow> path \<Rightarrow> ppath list \<Rightarrow> arguments \<Rightarrow> (fs \<Rightarrow> int \<times> fs) \<Rightarrow> fs \<Rightarrow> int \<times> fs" where
  "build_if_changed v m cwd libraries args build fs =
     (let libraries_exist = check_files_existence cwd libraries fs
      in case check_repo_src_changed v m cwd args fs of
           (files_changed, fs1) \<Rightarrow>
             if files_changed \<noteq> 0 \<and> files_changed \<noteq> 47 then (files_changed, fs1)
             else if libraries_exist = 0 \<and> files_changed = 0 then (0, fs1)
             else build fs1)"

section \<open>What the build step promises\<close>

lemma check_files_existence_0:
  "check_files_existence cwd libs fs = 0 \<longleftrightarrow> (\<forall>l \<in> set libs. is_file (parts (resolve cwd l)) fs)"
  by (induction libs) auto

lemma exit_status_main:
  assumes "machine_ok m" and "main m cwd args fs = (r, fs')"
  shows "exit_status r = 0 \<longleftrightarrow> r = Inr 0" "exit_status r \<in> {0, 1, 2, 47}" "exit_status r = 47 \<longleftrightarrow> r = Inr 47"
proof -
  have e: "e \<in> guard_errors" if "r = Inl e" for e
    using main_raises [OF assms(1), of cwd args] assms(2) that
    unfolding io_raises_in_def raises_in_def by (metis fst_conv)
  have c: "c = 0 \<or> c = 47" if "r = Inr c" for c
    using assms(2) that by (auto elim!: main_Inr simp: exit_code_def io_bind_Inr split: if_splits)
  show "exit_status r = 0 \<longleftrightarrow> r = Inr 0" "exit_status r \<in> {0, 1, 2, 47}" "exit_status r = 47 \<longleftrightarrow> r = Inr 47"
    using e c by (cases r; auto simp: exit_status_def guard_errors_def)+
qed

lemma check_repo_Inr:
  "check_version v = Inr () \<Longrightarrow> check_repo_src_changed v m cwd args fs =
     (exit_status (fst (main m cwd args fs)), snd (main m cwd args fs))"
  by (simp add: check_repo_src_changed_def io_bind_def split: prod.splits)

lemma check_repo_old: "check_version v \<noteq> Inr () \<Longrightarrow> check_repo_src_changed v m cwd args fs = (1, fs)"
  by (auto simp: check_repo_src_changed_def check_version_def exit_status_def split: if_splits)

text \<open>The exit status of the guard as a process, whatever the machine does: 0 and 47 are answers, 2
  is a rejected argument, 1 is any other failure, and there are no others; it is 0 only if the
  status directory matches the repository, and then no file was changed.\<close>

theorem guard_exit_status:
  assumes "machine_ok m" and "check_repo_src_changed v m cwd args fs = (n, fs')"
  shows "n \<in> {0, 1, 2, 47} \<and> (n = 0 \<longrightarrow> fs' = fs \<and> main m cwd args fs = (Inr 0, fs)) \<and>
    (n = 47 \<longrightarrow> main m cwd args fs = (Inr 47, fs'))"
proof (cases "check_version v = Inr ()")
  case True
  obtain r f where m: "main m cwd args fs = (r, f)" by (rule prod.exhaust)
  have n: "n = exit_status r" "fs' = f" using assms(2) by (simp_all add: check_repo_Inr [OF True] m)
  have "r = Inr 0 \<Longrightarrow> f = fs" using m by (auto elim!: main_Inr)
  then show ?thesis using exit_status_main [OF assms(1) m] m n by auto
next
  case False
  then show ?thesis using assms(2) by (simp add: check_repo_old)
qed

text \<open>The build is skipped for good reasons only. If the step ends with 0 without compiling, every
  library exists and the last recorded commit and status are the current ones; and whenever the
  guard fails, nothing is compiled and its exit status is passed on.\<close>

theorem build_skipped_only_if:
  assumes "machine_ok m" and "check_repo_src_changed v m cwd args fs = (n, fs1)"
  shows "(n \<in> {0, 47} \<and> \<not> (n = 0 \<and> (\<forall>l \<in> set libs. is_file (parts (resolve cwd l)) fs)) \<longrightarrow>
      build_if_changed v m cwd libs args build fs = build fs1) \<and>
    (n = 0 \<and> (\<forall>l \<in> set libs. is_file (parts (resolve cwd l)) fs) \<longrightarrow>
      build_if_changed v m cwd libs args build fs = (0, fs) \<and> main m cwd args fs = (Inr 0, fs)) \<and>
    (n \<notin> {0, 47} \<longrightarrow> build_if_changed v m cwd libs args build fs = (n, fs1) \<and> n \<in> {1, 2})"
proof -
  obtain r f where m: "main m cwd args fs = (r, f)" by (rule prod.exhaust)
  have n: "n \<in> {0, 1, 2, 47} \<and> (n = 0 \<longrightarrow> fs1 = fs \<and> r = Inr 0 \<and> f = fs)"
  proof (cases "check_version v = Inr ()")
    case True
    then have "n = exit_status r" "fs1 = f" using assms(2) by (simp_all add: check_repo_Inr m)
    moreover have "r = Inr 0 \<Longrightarrow> f = fs" using m by (auto elim!: main_Inr)
    ultimately show ?thesis using exit_status_main [OF assms(1) m] by auto
  next
    case False
    then show ?thesis using assms(2) by (simp add: check_repo_old)
  qed
  then show ?thesis
    using m by (auto simp: build_if_changed_def Let_def assms(2) check_files_existence_0)
qed

section \<open>Failed builds\<close>

text \<open>The status directory matches depending on the files in it only.\<close>

lemma sort_rglob_cong:
  assumes "dict_ok fs" "dict_ok fs'" and "\<And>p. prefix dir p \<Longrightarrow> dict_get fs' p = dict_get fs p"
  shows "sort (rglob dir fs') = sort (rglob dir fs)"
proof -
  have "distinct (rglob dir f)" if "dict_ok f" for f
    using that by (simp add: rglob_def dict_ok_def dict_keys_def)
  moreover have "set (rglob dir fs') = set (rglob dir fs)"
  proof -
    have "p \<in> set (dict_keys f) \<longleftrightarrow> dict_get f p \<noteq> None" for f :: fs and p by (simp add: dict_get_None_iff)
    then show ?thesis using assms(3) by (auto simp add: rglob_def strict_prefix_def simp del: not_None_eq)
  qed
  ultimately show ?thesis using assms(1,2) by (intro sorted_distinct_set_unique) simp_all
qed

lemma status_matches_cong:
  assumes "dict_ok fs" "dict_ok fs'"
    and same: "\<And>p. prefix (parts (status_dirpath rs)) p \<Longrightarrow> dict_get fs' p = dict_get fs p"
  shows "status_matches m rs fs' = status_matches m rs fs"
proof -
  let ?dir = "parts (status_dirpath rs)"
  have files: "holds_text fs' (hash_filepath rs) t = holds_text fs (hash_filepath rs) t"
    "holds_text fs' (commit_filepath rs) t = holds_text fs (commit_filepath rs) t"
    "holds_text fs' (diff_filepath rs) t = holds_text fs (diff_filepath rs) t" for t
    by (simp_all add: holds_text_def same hash_filepath_def commit_filepath_def diff_filepath_def)
  have srt: "sort (rglob ?dir fs') = sort (rglob ?dir fs)" by (rule sort_rglob_cong [OF assms])
  have "file_bytes fs' p = file_bytes fs p" if "p \<in> set (rglob ?dir fs)" for p
    using that same by (simp add: file_bytes_def rglob_def strict_prefix_def)
  then have "dir_bytes ?dir (hash_filepath rs) fs' = dir_bytes ?dir (hash_filepath rs) fs"
    unfolding dir_bytes_def srt by (intro arg_cong [of _ _ concat] map_cong) auto
  moreover have "is_dir ?dir fs' = is_dir ?dir fs" "path_exists ?dir fs' = path_exists ?dir fs"
    using same [of ?dir] by (simp_all add: is_dir_def path_exists_def)
  ultimately show ?thesis unfolding status_matches_def files by simp
qed


section \<open>An example\<close>

lemma example_machine_ok: "machine_ok (example_machine c d)"
  by (simp add: machine_ok_def raises_in_def example_machine_def)

lemma example_version: "check_version (3, 10) = Inr ()"
  by (simp add: check_version_def)

theorem guard_exit_status_witness:
  "\<exists>n fs'. check_repo_src_changed (3, 7) (example_machine [] []) example_cwd example_args example_fs = (n, fs') \<and>
     n \<in> {0, 1, 2, 47} \<and> n \<noteq> 0 \<and> n \<noteq> 47 \<and> n \<noteq> 2"
proof -
  have r: "check_repo_src_changed (3, 7) (example_machine [] []) example_cwd example_args example_fs = (1, example_fs)"
    by (rule check_repo_old) (simp add: check_version_def)
  from r guard_exit_status [OF example_machine_ok r] show ?thesis by auto
qed

text \<open>With an old interpreter the guard fails, and nothing is compiled.\<close>

theorem build_skipped_only_if_witness:
  "build_if_changed (3, 7) (example_machine [] []) example_cwd [] example_args (\<lambda>fs. (0, [])) example_fs =
     (1, example_fs)"
proof -
  have r: "check_repo_src_changed (3, 7) (example_machine [] []) example_cwd example_args example_fs = (1, example_fs)"
    by (rule check_repo_old) (simp add: check_version_def)
  from build_skipped_only_if [OF example_machine_ok r, of "[]" "\<lambda>fs. (0, [])"] show ?thesis by simp
qed


end
