(* ===== verification/Py_Sub.thy ===== *)
theory Py_Sub
  imports Py_Regex
begin

text \<open>
  \<open>re.sub\<close> for a pattern without repetitions, which is a sequence of character classes: the
  matches are replaced from left to right and do not overlap. The interface \<open>stable_sub\<close> says when a
  replacement cannot create a match, neither inside itself nor across its ends; it is a finite
  check for a given pattern and replacement, and makes the substitution complete and idempotent.
\<close>

type_synonym classes = "(char \<Rightarrow> bool) list"

definition literal :: "string \<Rightarrow> classes" where
  "literal s = map (\<lambda>c x. x = c) s"

function re_sub :: "classes \<Rightarrow> string \<Rightarrow> string \<Rightarrow> string" where
  "re_sub pat repl s =
     (if pat \<noteq> [] \<and> matches_classes pat s then repl @ re_sub pat repl (drop (length pat) s)
      else case s of [] \<Rightarrow> [] | c # s' \<Rightarrow> c # re_sub pat repl s')"
  by pat_completeness auto
termination
proof (relation "measure (\<lambda>(pat, repl, s). length s)")
  fix pat :: classes and repl s :: string
  assume a: "pat \<noteq> [] \<and> matches_classes pat s"
  then have "s \<noteq> []" by (cases pat; cases s) auto
  with a show "((pat, repl, drop (length pat) s), pat, repl, s) \<in> measure (\<lambda>(pat, repl, s). length s)"
    by (cases pat; cases s) auto
qed auto

declare re_sub.simps [simp del]

text \<open>A pattern occurs in a string if it matches one of its suffixes.\<close>

fun occurs :: "classes \<Rightarrow> string \<Rightarrow> bool" where
  "occurs pat [] = matches_classes pat []"
| "occurs pat (c # s) = (matches_classes pat (c # s) \<or> occurs pat s)"

lemma matches_Nil_iff [simp]: "matches_classes p [] \<longleftrightarrow> p = []"
  by (cases p) auto

lemma matches_length: "matches_classes p s \<Longrightarrow> length p \<le> length s"
  by (induction p s rule: matches_classes.induct) auto

lemma matches_append: "matches_classes p s \<Longrightarrow> matches_classes p (s @ t)"
  by (induction p s rule: matches_classes.induct) auto

lemma matches_long: "length p \<le> length s \<Longrightarrow> matches_classes p (s @ t) \<longleftrightarrow> matches_classes p s"
  by (induction p s rule: matches_classes.induct) auto

lemma matches_literal [simp]: "matches_classes (literal l) s \<longleftrightarrow> prefix l s"
proof (induction l arbitrary: s)
  case (Cons c l)
  then show ?case by (cases s) (auto simp: literal_def)
qed (simp add: literal_def)

lemma matches_join: "matches_classes (p @ q) s \<longleftrightarrow> matches_classes p s \<and> matches_classes q (drop (length p) s)"
  by (induction p s rule: matches_classes.induct) auto

text \<open>A partial match: the pattern and the string agree as far as both go.\<close>

fun agrees :: "classes \<Rightarrow> string \<Rightarrow> bool" where
  "agrees (P # Ps) (c # cs) = (P c \<and> agrees Ps cs)"
| "agrees p s = True"

lemma matches_agrees: "matches_classes p (v @ s) \<Longrightarrow> agrees p v"
  by (induction p v rule: agrees.induct) auto

lemma re_sub_Nil [simp]: "re_sub pat repl [] = []"
  by (cases pat) (simp_all add: re_sub.simps)

lemma re_sub_match:
  "pat \<noteq> [] \<Longrightarrow> matches_classes pat s \<Longrightarrow> re_sub pat repl s = repl @ re_sub pat repl (drop (length pat) s)"
  by (subst re_sub.simps) simp

lemma re_sub_skip:
  "\<not> matches_classes pat (c # s) \<Longrightarrow> re_sub pat repl (c # s) = c # re_sub pat repl s"
  by (subst re_sub.simps) simp

text \<open>Induction along the substitution, for a non-empty pattern.\<close>

lemma re_sub_induct [consumes 1, case_names Nil match skip]:
  assumes "pat \<noteq> []" and "P []"
    and "\<And>s. matches_classes pat s \<Longrightarrow> P (drop (length pat) s) \<Longrightarrow> P s"
    and "\<And>c s. \<not> matches_classes pat (c # s) \<Longrightarrow> P s \<Longrightarrow> P (c # s)"
  shows "P s"
proof (induction s rule: length_induct)
  case (1 s)
  show ?case
  proof (cases "matches_classes pat s")
    case True
    then have "length (drop (length pat) s) < length s"
      using assms(1) matches_length [OF True] by (cases pat) auto
    with 1 True show ?thesis using assms(3) by blast
  next
    case False
    with 1 show ?thesis using assms(2,4) by (cases s) auto
  qed
qed

lemma re_sub_absent: "pat \<noteq> [] \<Longrightarrow> \<not> occurs pat s \<Longrightarrow> re_sub pat repl s = s"
  by (induction s) (simp_all add: re_sub_skip)

section \<open>Stable substitutions\<close>

locale stable_sub =
  fixes q pat :: classes and repl :: string
  assumes pat_ne: "pat \<noteq> []" and q_ne: "q \<noteq> []"
    and fits: "length q \<le> Suc (length repl)"
    and no_start: "i < length repl \<Longrightarrow> \<not> agrees q (drop i repl)"
    and no_end: "1 \<le> i \<Longrightarrow> i < length q \<Longrightarrow> \<not> matches_classes (drop i q) repl"
begin

text \<open>The rest of a match that has begun outside of the replacements has a counterpart in the original.\<close>

lemma rest_original:
  "matches_classes p (re_sub pat repl s) \<Longrightarrow> p = drop i q \<Longrightarrow> 1 \<le> i \<Longrightarrow> matches_classes p s"
  using pat_ne
proof (induction s arbitrary: p i rule: re_sub_induct)
  case (match s)
  have "p = [] \<or> i < length q" using match.prems(2) by auto
  then show ?case
  proof
    assume i: "i < length q"
    have "length p \<le> length repl" using match.prems fits by simp
    then have "matches_classes p repl"
      using match.prems(1) re_sub_match [OF pat_ne match.hyps] matches_long by metis
    with no_end [OF match.prems(3) i] match.prems(2) show ?thesis by simp
  qed simp
next
  case (skip c s)
  show ?case
  proof (cases p)
    case (Cons P p')
    have "P c" "matches_classes p' (re_sub pat repl s)"
      using skip.prems(1) unfolding Cons by (simp_all add: re_sub_skip skip.hyps)
    moreover have "p' = drop (Suc i) q" using Cons skip.prems(2) by (metis drop_Suc drop_tl list.sel(3))
    ultimately have "P c" "matches_classes p' s" using skip.IH skip.prems(3) by auto
    with Cons show ?thesis by simp
  qed simp
qed simp

lemma occurs_append:
  assumes "i \<le> length repl" and "occurs q (drop i repl @ t)"
  shows "occurs q t"
  using assms
proof (induction i rule: inc_induct)
  case (step i)
  obtain c where d: "drop i repl = c # drop (Suc i) repl" using step.hyps(2) by (metis Cons_nth_drop_Suc)
  have "\<not> matches_classes q (drop i repl @ t)"
    using no_start [OF step.hyps(2)] matches_agrees by blast
  with step.prems have "occurs q (drop (Suc i) repl @ t)" by (simp add: d)
  then show ?case by (rule step.IH)
qed simp

theorem occurs_re_sub:
  assumes "\<And>u. suffix u s \<Longrightarrow> matches_classes q u \<Longrightarrow> matches_classes pat u"
  shows "\<not> occurs q (re_sub pat repl s)"
  using pat_ne assms
proof (induction s rule: re_sub_induct)
  case Nil
  then show ?case using q_ne by simp
next
  case (match s)
  have "\<not> occurs q (re_sub pat repl (drop (length pat) s))"
    using match.prems by (intro match.IH) (meson suffix_drop suffix_order.trans)
  then show ?case using occurs_append [of 0] by (auto simp: re_sub_match [OF pat_ne match.hyps])
next
  case (skip c s)
  have "\<not> occurs q (re_sub pat repl s)"
    using skip.prems by (intro skip.IH) (meson suffix_ConsI)
  moreover have "\<not> matches_classes q (c # re_sub pat repl s)"
  proof
    assume m: "matches_classes q (c # re_sub pat repl s)"
    then obtain P q' where q: "q = P # q'" using q_ne by (cases q) auto
    have "P c" "matches_classes q' (re_sub pat repl s)" using m unfolding q by simp_all
    moreover have d: "q' = drop 1 q" by (simp add: q)
    ultimately have "P c" "matches_classes q' s" using rest_original [OF _ d] by simp_all
    then have "matches_classes q (c # s)" by (simp add: q)
    with skip.prems [of "c # s"] skip.hyps show False by simp
  qed
  ultimately show ?case by (simp add: re_sub_skip skip.hyps)
qed

end

text \<open>The case of one pattern: no match survives, and a second substitution changes nothing.\<close>

locale stable_pattern = stable_sub pat pat repl for pat repl
begin

lemma no_match_left: "\<not> occurs pat (re_sub pat repl s)"
  by (rule occurs_re_sub)

lemma re_sub_idem: "re_sub pat repl (re_sub pat repl s) = re_sub pat repl s"
  by (rule re_sub_absent [OF pat_ne no_match_left])

end

text \<open>What a substitution does: some matches become the replacement, the rest is copied.\<close>

inductive edited :: "classes \<Rightarrow> string \<Rightarrow> string \<Rightarrow> string \<Rightarrow> bool" for pat repl where
  edited_Nil: "edited pat repl [] []"
| edited_copy: "edited pat repl s t \<Longrightarrow> edited pat repl (c # s) (c # t)"
| edited_match: "length m = length pat \<Longrightarrow> matches_classes pat m \<Longrightarrow> edited pat repl s t \<Longrightarrow>
     edited pat repl (m @ s) (repl @ t)"

lemma re_sub_edited:
  assumes "pat \<noteq> []"
  shows "edited pat repl s (re_sub pat repl s)"
  using assms
proof (induction s rule: re_sub_induct)
  case (match s)
  let ?m = "take (length pat) s"
  have len: "length ?m = length pat" using matches_length [OF match.hyps] by simp
  then have "matches_classes pat ?m"
    using match.hyps matches_long [of pat ?m "drop (length pat) s"] by simp
  from edited_match [OF len this match.IH] show ?case by (simp add: re_sub_match [OF assms match.hyps])
qed (auto intro: edited.intros simp: re_sub_skip)

lemma occurs_suffix: "suffix u s \<Longrightarrow> matches_classes q u \<Longrightarrow> occurs q s"
proof (induction s)
  case (Cons c s)
  then show ?case by (cases "u = c # s") (auto simp: suffix_Cons)
qed simp

end
