(* ===== verification/Allow_Null.thy ===== *)
theory Allow_Null
  imports File_System Py_Sub
begin

text \<open>
  \<^verbatim>\<open>scripts/allow-null-return-in-json-rpc.py\<close>: the script edits the generated JSON-RPC client stub so
  that two methods may return null. The directory above the script and the working directory are
  arguments of the model.
\<close>

section \<open>The substitution\<close>

abbreviation QUOTE :: char where "QUOTE \<equiv> CHR 0x22"

text \<open>
  The call of a method and the start of the condition on its result. The method names are plain
  letters, so that they stand for themselves in the pattern; the dot of the pattern is not escaped
  and matches every character but a line end.
\<close>

definition call_text :: "string \<Rightarrow> string" where
  "call_text rpc_method_name =
     ''this->CallMethod('' @ [QUOTE] @ rpc_method_name @ [QUOTE] @ '',p);'' @ [LF] @ ''            if (result''"

definition to_replace :: "string \<Rightarrow> classes" where
  "to_replace rpc_method_name = literal (call_text rpc_method_name) @ [any_char] @ literal ''isObject())''"

definition replacement :: "string \<Rightarrow> string" where
  "replacement rpc_method_name = call_text rpc_method_name @ ''.isObject() or result.isNull())''"

definition allow_null_return_in_json_rpc :: "path \<Rightarrow> string \<Rightarrow> unit io" where
  "allow_null_return_in_json_rpc stub_file rpc_method_name =
     io_bind (read_text stub_file) (\<lambda>old_content.
       write_text stub_file
         (re_sub (to_replace rpc_method_name) (replacement rpc_method_name) old_content))"

definition process_submitblock :: "path \<Rightarrow> unit io" where
  "process_submitblock stub_file = allow_null_return_in_json_rpc stub_file ''submitblock''"

definition process_testblockvalidity :: "path \<Rightarrow> unit io" where
  "process_testblockvalidity stub_file = allow_null_return_in_json_rpc stub_file ''testblockvalidity''"

section \<open>The main program\<close>

definition stub_file_suffix :: path where
  "stub_file_suffix = [''generated-include-dir'', ''generated'', ''bitcoin_jsonrpc'', ''BitcoinClientStub.h'']"

text \<open>The directory above the one of the script, from the path of the script's file.\<close>

definition root_directory :: "path \<Rightarrow> ppath \<Rightarrow> path" where
  "root_directory cwd this_file =
     (let scripts_directory = resolve cwd \<lparr>is_absolute = is_absolute this_file, parts = butlast (parts this_file)\<rparr>
      in butlast (parts scripts_directory))"

text \<open>The value of \<open>--build-dir\<close>, by default the directory \<open>build\<close> beside the scripts.\<close>

definition build_dir_arg :: "path \<Rightarrow> ppath option \<Rightarrow> ppath" where
  "build_dir_arg root_dir arg =
     (case arg of None \<Rightarrow> \<lparr>is_absolute = True, parts = root_dir @ [''build'']\<rparr> | Some p \<Rightarrow> p)"

definition main :: "path \<Rightarrow> path \<Rightarrow> ppath option \<Rightarrow> unit io" where
  "main root_dir cwd arg fs =
     (let build_dir = parts (resolve cwd (build_dir_arg root_dir arg));
          stub = build_dir @ stub_file_suffix
      in if \<not> (build_dir = [] \<or> path_exists build_dir fs) then (Inl ValueError, fs)
         else if \<not> path_exists stub fs then (Inl ValueError, fs)
         else io_bind (process_submitblock stub) (\<lambda>_. process_testblockvalidity stub) fs)"

text \<open>The exit code of the script: every exception is reported and becomes 1.\<close>

definition script :: "ppath \<Rightarrow> path \<Rightarrow> ppath option \<Rightarrow> int io" where
  "script this_file cwd arg fs =
     (case main (root_directory cwd this_file) cwd arg fs of (Inr _, fs') \<Rightarrow> (Inr 0, fs') | (Inl e, fs') \<Rightarrow> (Inr 1, fs'))"

section \<open>The two substitutions are stable\<close>

lemma all_below: "list_all P [a..<b] \<Longrightarrow> a \<le> i \<Longrightarrow> i < b \<Longrightarrow> P i"
  by (simp add: list_all_iff)

definition stable_check :: "classes \<Rightarrow> string \<Rightarrow> bool" where
  "stable_check q repl \<longleftrightarrow> q \<noteq> [] \<and> length q \<le> Suc (length repl) \<and>
     list_all (\<lambda>i. \<not> agrees q (drop i repl)) [0..<length repl] \<and>
     list_all (\<lambda>i. \<not> matches_classes (drop i q) repl) [1..<length q]"

lemma stable_check_sound: "stable_check q repl \<Longrightarrow> pat \<noteq> [] \<Longrightarrow> stable_sub q pat repl"
  by (rule stable_sub.intro) (auto simp: stable_check_def list_all_iff)

lemma to_replace_ne [simp]: "to_replace n \<noteq> []"
  by (simp add: to_replace_def)

lemma checks:
  "stable_check (to_replace ''submitblock'') (replacement ''submitblock'')"
  "stable_check (to_replace ''testblockvalidity'') (replacement ''testblockvalidity'')"
  "stable_check (to_replace ''submitblock'') (replacement ''testblockvalidity'')"
  by code_simp+

interpretation submit: stable_pattern "to_replace ''submitblock''" "replacement ''submitblock''"
  by (intro stable_pattern.intro stable_check_sound checks to_replace_ne)

interpretation testblock: stable_pattern "to_replace ''testblockvalidity''" "replacement ''testblockvalidity''"
  by (intro stable_pattern.intro stable_check_sound checks to_replace_ne)

interpretation cross: stable_sub "to_replace ''submitblock''" "to_replace ''testblockvalidity''"
  "replacement ''testblockvalidity''"
  by (intro stable_check_sound checks to_replace_ne)

section \<open>What the script does\<close>

definition sub_submit :: "string \<Rightarrow> string" where
  "sub_submit = re_sub (to_replace ''submitblock'') (replacement ''submitblock'')"

definition sub_testblock :: "string \<Rightarrow> string" where
  "sub_testblock = re_sub (to_replace ''testblockvalidity'') (replacement ''testblockvalidity'')"

text \<open>The text of a stub after both steps.\<close>

definition both :: "string \<Rightarrow> string" where
  "both t = sub_testblock (sub_submit t)"

lemma re_sub_no_char:
  assumes "pat \<noteq> []" and "x \<notin> set repl" and "x \<notin> set s"
  shows "x \<notin> set (re_sub pat repl s)"
  using assms(1,3)
proof (induction s rule: re_sub_induct)
  case (match s)
  then have "x \<notin> set (re_sub pat repl (drop (length pat) s))" by (metis in_set_dropD)
  then show ?case using assms by (simp add: re_sub_match [OF assms(1) match.hyps])
qed (simp_all add: re_sub_skip)

lemma replacement_no_CR:
  "CR \<notin> set (replacement ''submitblock'')" "CR \<notin> set (replacement ''testblockvalidity'')"
  by code_simp+

lemma sub_no_CR: "CR \<notin> set s \<Longrightarrow> CR \<notin> set (sub_submit s)" "CR \<notin> set s \<Longrightarrow> CR \<notin> set (sub_testblock s)"
  unfolding sub_submit_def sub_testblock_def
  using re_sub_no_char [OF to_replace_ne replacement_no_CR(1)] re_sub_no_char [OF to_replace_ne replacement_no_CR(2)]
  by blast+

text \<open>The substitution keeps a text well formed.\<close>

lemma utf8_re_sub:
  assumes pat: "pat = literal a @ [P] @ literal b" and ab: "ascii a" "a \<noteq> []" "ascii b" "b \<noteq> []"
    and repl: "ascii repl" "repl \<noteq> []" and s: "utf8_from k lo hi s" "0x80 \<le> lo"
  shows "utf8_from k lo hi (re_sub pat repl s)"
proof -
  have "pat \<noteq> []" by (simp add: pat)
  then show ?thesis using s
  proof (induction s arbitrary: k lo hi rule: re_sub_induct)
    case (match s)
    from match.hyps have "prefix a s" and t0: "matches_classes ([P] @ literal b) (drop (length a) s)"
      unfolding pat matches_join [of "literal a"] by (simp_all only: matches_literal) (simp add: literal_def)
    then obtain t where s: "s = a @ t" by (auto elim: prefixE)
    then obtain x rest where t: "t = x # b @ rest" using t0 by (cases t) (auto elim: prefixE)
    have len: "length pat = length a + Suc (length b)" by (simp add: pat literal_def)
    have rest: "drop (length pat) s = rest" by (simp add: len s t)
    have "k = 0"
    proof (rule ccontr)
      assume "k \<noteq> 0"
      then obtain j where "k = Suc j" by (cases k) auto
      moreover obtain y a' where "a = y # a'" "(of_char y :: nat) < 0x80" using ab by (cases a) (auto simp: ascii_def)
      ultimately show False using match.prems s by simp
    qed
    then have "utf8_ok (x # b @ rest)" using match.prems ab by (simp add: s t)
    then have "utf8_ok rest" using ab utf8_ok_between by blast
    then have "utf8_ok (re_sub pat repl rest)" using match.IH [of 0 "0x80" "0xBF"] rest by (simp add: utf8_ok_def)
    then show ?case using \<open>k = 0\<close> repl by (simp add: re_sub_match [OF \<open>pat \<noteq> []\<close> match.hyps] rest)
  next
    case (skip c s)
    show ?case
    proof (cases k)
      case 0
      then show ?thesis using skip
        by (auto simp: re_sub_skip split: option.splits prod.splits dest: lead_byte_range)
    next
      case (Suc j)
      then show ?thesis using skip by (simp add: re_sub_skip)
    qed
  qed simp
qed

lemma sub_utf8:
  "utf8_ok s \<Longrightarrow> utf8_ok (sub_submit s)" "utf8_ok s \<Longrightarrow> utf8_ok (sub_testblock s)"
proof -
  have "ascii (call_text ''submitblock'')" "ascii (replacement ''submitblock'')"
    "ascii (call_text ''testblockvalidity'')" "ascii (replacement ''testblockvalidity'')" "ascii ''isObject())''"
    by code_simp+
  moreover have "call_text n \<noteq> []" "replacement n \<noteq> []" for n by (simp_all add: call_text_def replacement_def)
  ultimately show "utf8_ok s \<Longrightarrow> utf8_ok (sub_submit s)" "utf8_ok s \<Longrightarrow> utf8_ok (sub_testblock s)"
    unfolding utf8_ok_def sub_submit_def sub_testblock_def
    by (auto intro!: utf8_re_sub [OF to_replace_def])
qed

lemma no_match_both:
  "\<not> occurs (to_replace ''testblockvalidity'') (both t)" "\<not> occurs (to_replace ''submitblock'') (both t)"
proof -
  show "\<not> occurs (to_replace ''testblockvalidity'') (both t)"
    unfolding both_def sub_testblock_def by (rule testblock.no_match_left)
  have "\<not> occurs (to_replace ''submitblock'') (sub_submit t)"
    unfolding sub_submit_def by (rule submit.no_match_left)
  then have "\<not> matches_classes (to_replace ''submitblock'') u" if "suffix u (sub_submit t)" for u
    using that occurs_suffix by blast
  then show "\<not> occurs (to_replace ''submitblock'') (both t)"
    unfolding both_def sub_testblock_def by (intro cross.occurs_re_sub) blast
qed

lemma both_idem: "both (both t) = both t"
  using no_match_both [of t] by (simp add: both_def [of "both t"] sub_submit_def sub_testblock_def re_sub_absent)

text \<open>The results of the steps are texts again.\<close>

lemma decode_sub:
  assumes "decode_text b = Inr t"
  shows "decode_text (sub_submit t) = Inr (sub_submit t)" "decode_text (both t) = Inr (both t)"
proof -
  have t: "utf8_ok t" "CR \<notin> set t" using assms by (auto simp: decode_text_Inr utf8_ok_universal_newlines)
  then show "decode_text (sub_submit t) = Inr (sub_submit t)" "decode_text (both t) = Inr (both t)"
    by (simp_all add: decode_text_Inr both_def sub_utf8 sub_no_CR universal_newlines_no_CR)
qed

lemma process_Inr:
  assumes "holds_text fs stub t" and "is_dir (butlast stub) fs" and "stub \<noteq> []"
  shows "process_submitblock stub fs = (Inr (), dict_set stub (File (sub_submit t)) fs)"
    "process_testblockvalidity stub fs = (Inr (), dict_set stub (File (sub_testblock t)) fs)"
  using assms holds_text_not_dir [OF assms(1,3)]
  by (simp_all add: process_submitblock_def process_testblockvalidity_def allow_null_return_in_json_rpc_def
      sub_submit_def sub_testblock_def read_text_holds io_bind_def write_text_def)

abbreviation stub_file :: "ppath \<Rightarrow> path \<Rightarrow> ppath option \<Rightarrow> path" where
  "stub_file this_file cwd arg \<equiv> parts (resolve cwd (build_dir_arg (root_directory cwd this_file) arg)) @ stub_file_suffix"

lemma dict_set_twice: "dict_set k v (dict_set k w d) = dict_set k v d"
  by (induction d) (auto simp: dict_set_def)

lemma dict_set_same: "dict_get d k = Some v \<Longrightarrow> dict_set k v d = d"
  by (induction d) (auto simp: dict_set_def split: if_splits)

lemma script_edits:
  assumes ok: "fs_ok fs" and t: "holds_text fs (stub_file this_file cwd arg) t"
  shows "script this_file cwd arg fs = (Inr 0, dict_set (stub_file this_file cwd arg) (File (both t)) fs)"
proof -
  let ?stub = "stub_file this_file cwd arg" and ?dir = "parts (resolve cwd (build_dir_arg (root_directory cwd this_file) arg))"
  from t obtain b where b: "dict_get fs ?stub = Some (File b)" "decode_text b = Inr t" by (auto simp: holds_text_iff)
  have ne: "?stub \<noteq> []" by (simp add: stub_file_suffix_def)
  have par: "is_dir (butlast ?stub) fs" using fs_okD [OF ok b(1)] by blast
  have "take (length ?dir) (butlast ?stub) = ?dir" by (simp add: stub_file_suffix_def butlast_append)
  with is_dir_take [OF ok par, of "length ?dir"] have dir: "?dir = [] \<or> path_exists ?dir fs"
    by (auto simp: is_dir_def path_exists_def)
  let ?fs1 = "dict_set ?stub (File (sub_submit t)) fs"
  have "butlast ?stub \<noteq> ?stub" using ne by (metis append_butlast_last_id not_Cons_self2 self_append_conv)
  then have par1: "is_dir (butlast ?stub) ?fs1" using par by (simp add: is_dir_def)
  have t1: "holds_text ?fs1 ?stub (sub_submit t)" by (simp add: holds_text_def decode_sub(1) [OF b(2)])
  show ?thesis
    using process_Inr(1) [OF t par ne] process_Inr(2) [OF t1 par1 ne] dir b(1)
    by (simp add: script_def main_def Let_def path_exists_def io_bind_def dict_set_twice both_def)
qed

text \<open>The stub is a text file.\<close>

definition is_text :: "path \<Rightarrow> fs \<Rightarrow> bool" where
  "is_text p fs = (case dict_get fs p of Some (File b) \<Rightarrow> utf8_ok b | _ \<Rightarrow> False)"

lemma script_fails:
  assumes "\<not> is_text (stub_file this_file cwd arg) fs"
  shows "script this_file cwd arg fs = (Inr 1, fs)"
proof -
  have "fst (read_text (stub_file this_file cwd arg) fs) = Inl e \<Longrightarrow>
      process_submitblock (stub_file this_file cwd arg) fs = (Inl e, fs)" for e
    by (simp add: process_submitblock_def allow_null_return_in_json_rpc_def io_bind_def read_text_def
        split: sum.splits)
  moreover have "\<exists>e. fst (read_text (stub_file this_file cwd arg) fs) = Inl e"
    using assms by (auto simp: is_text_def read_text_def read_bytes_def decode_text_eq split: option.splits fs_node.splits)
  ultimately show ?thesis by (auto simp: script_def main_def Let_def io_bind_def)
qed

lemma script_cases:
  assumes "fs_ok fs"
  obtains t where "holds_text fs (stub_file this_file cwd arg) t"
    "script this_file cwd arg fs = (Inr 0, dict_set (stub_file this_file cwd arg) (File (both t)) fs)"
  | "\<not> is_text (stub_file this_file cwd arg) fs" "script this_file cwd arg fs = (Inr 1, fs)"
proof (cases "is_text (stub_file this_file cwd arg) fs")
  case True
  then obtain t where "holds_text fs (stub_file this_file cwd arg) t"
    by (auto simp: is_text_def holds_text_def decode_text_eq split: option.splits fs_node.splits)
  then show ?thesis using script_edits [OF assms] that(1) by blast
next
  case False
  then show ?thesis using script_fails that(2) by blast
qed

lemma holds_is_text: "holds_text fs p t \<Longrightarrow> is_text p fs"
  by (auto simp: is_text_def holds_text_iff decode_text_Inr)

text \<open>C5: After a run that ends with exit code 0, the stub is the old text in which, first for
  \<open>submitblock\<close> and then for \<open>testblockvalidity\<close>, occurrences of the call with its condition became
  the call with the condition that also accepts null, and everything else is copied; no occurrence
  of the old condition is left for either method; every other file is as it was.\<close>

theorem script_allows_null:
  assumes "fs_ok fs" and "script this_file cwd arg fs = (Inr 0, fs')"
  shows "\<exists>s t u. holds_text fs (stub_file this_file cwd arg) s \<and>
    edited (to_replace ''submitblock'') (replacement ''submitblock'') s t \<and>
    edited (to_replace ''testblockvalidity'') (replacement ''testblockvalidity'') t u \<and>
    \<not> occurs (to_replace ''submitblock'') u \<and> \<not> occurs (to_replace ''testblockvalidity'') u \<and>
    dict_get fs' = (dict_get fs)(stub_file this_file cwd arg \<mapsto> File u)"
  using assms(1)
proof (cases rule: script_cases [of fs cwd this_file arg])
  case (1 t)
  have "edited (to_replace ''submitblock'') (replacement ''submitblock'') t (sub_submit t)"
    unfolding sub_submit_def by (rule re_sub_edited) simp
  moreover have "edited (to_replace ''testblockvalidity'') (replacement ''testblockvalidity'') (sub_submit t) (both t)"
    unfolding both_def sub_testblock_def by (rule re_sub_edited) simp
  ultimately show ?thesis using 1 assms(2) no_match_both by (metis dict_get_set prod.inject)
qed (use assms(2) in simp)

text \<open>C10: Running the script again changes nothing: after a run with exit code 0, a second run with the
  same arguments exits with 0 and leaves every file as it is.\<close>

theorem script_idempotent:
  assumes "fs_ok fs" and "script this_file cwd arg fs = (Inr 0, fs')"
  shows "script this_file cwd arg fs' = (Inr 0, fs')"
  using assms(1)
proof (cases rule: script_cases [of fs cwd this_file arg])
  case (1 t)
  let ?stub = "stub_file this_file cwd arg"
  have fs': "fs' = dict_set ?stub (File (both t)) fs" using 1(2) assms(2) by simp
  from 1(1) obtain b where b: "dict_get fs ?stub = Some (File b)" "decode_text b = Inr t" by (auto simp: holds_text_iff)
  have "?stub \<noteq> [] \<and> is_dir (butlast ?stub) fs" by (rule fs_okD [OF assms(1) b(1)])
  then have "fs_ok fs'" unfolding fs' using b(1)
    by (intro fs_ok_set [OF assms(1)]) (auto simp: is_dir_def)
  moreover have "holds_text fs' ?stub (both t)" by (simp add: fs' holds_text_def decode_sub(2) [OF b(2)])
  ultimately have "script this_file cwd arg fs' = (Inr 0, dict_set ?stub (File (both (both t))) fs')"
    by (rule script_edits)
  then show ?thesis by (simp add: both_idem fs' dict_set_twice)
qed (use assms(2) in simp)


section \<open>An example\<close>

definition old_call :: "string \<Rightarrow> string" where
  "old_call n = call_text n @ ''.isObject())''"

definition stub_example :: fs where
  "stub_example = [([''b''], Dir), ([''b'', ''generated-include-dir''], Dir),
     ([''b'', ''generated-include-dir'', ''generated''], Dir),
     ([''b'', ''generated-include-dir'', ''generated'', ''bitcoin_jsonrpc''], Dir),
     (''b'' # stub_file_suffix, File (old_call ''submitblock'' @ [LF] @ old_call ''testblockvalidity'' @
        [LF] @ old_call ''getblock''))]"

abbreviation "stub_arg \<equiv> Some \<lparr>is_absolute = False, parts = [''..'', ''b'']\<rparr>"

abbreviation "stub_script \<equiv> \<lparr>is_absolute = True, parts = [''scripts'', ''s.py'']\<rparr>"

lemma stub_example_ok: "fs_ok stub_example"
  by (auto simp: fs_ok_def dict_ok_def stub_example_def is_dir_def stub_file_suffix_def split: if_splits)

definition stub_result :: fs where
  "stub_result = dict_set (''b'' # stub_file_suffix) (File (replacement ''submitblock'' @ [LF] @
     replacement ''testblockvalidity'' @ [LF] @ old_call ''getblock'')) stub_example"

lemma stub_run: "script stub_script [''work''] stub_arg stub_example = (Inr 0, stub_result)"
  by code_simp

theorem script_allows_null_witness:
  "\<exists>u. dict_get stub_result (''b'' # stub_file_suffix) = Some (File u) \<and>
     \<not> occurs (to_replace ''submitblock'') u \<and> \<not> occurs (to_replace ''testblockvalidity'') u"
  using script_allows_null [OF stub_example_ok stub_run]
  by (auto simp: resolve_def build_dir_arg_def root_directory_def stub_file_suffix_def)

theorem script_idempotent_witness:
  "script stub_script [''work''] stub_arg stub_result = (Inr 0, stub_result)"
  by (rule script_idempotent [OF stub_example_ok stub_run])


end
