(* ===== verification/Code_Consistency.thy ===== *)
theory Code_Consistency
  imports File_System
begin

text \<open>
  \<^verbatim>\<open>scripts/check-code-consistency.py\<close>: the script compares 25 lines of the repository's copy of a
  function with the lines of the original, which it fetches. The answer of the server is an argument
  of the model.
\<close>

section \<open>The script\<close>

definition bitcoin_util_url :: string where
  "bitcoin_util_url = ''https://raw.githubusercontent.com/bitcoin/bitcoin/23.x/src/bitcoin-util.cpp''"

text \<open>The directory above the one of the script, from the path of the script's file.\<close>

definition root_dir_of :: "path \<Rightarrow> ppath \<Rightarrow> path" where
  "root_dir_of cwd file =
     parts (resolve cwd \<lparr>is_absolute = is_absolute file, parts = butlast (parts file) @ [''..'']\<rparr>)"

definition third_party_dir :: "path \<Rightarrow> path" where
  "third_party_dir root_dir = root_dir @ [''src'', ''grind'']"

definition grind_cpp :: "path \<Rightarrow> path" where
  "grind_cpp root_dir = third_party_dir root_dir @ [''grind.cpp'']"

text \<open>The bytes of the answer, decoded.\<close>

definition http_get :: "(string \<Rightarrow> string result) \<Rightarrow> string \<Rightarrow> string result" where
  "http_get urlopen url = rbind (urlopen url) decode_utf8"

text \<open>\<open>xs[a : b]\<close> for \<open>0 \<le> a \<le> b\<close>.\<close>

definition list_slice :: "nat \<Rightarrow> nat \<Rightarrow> 'a list \<Rightarrow> 'a list" where
  "list_slice a b xs = take (b - a) (drop a xs)"

definition check_grind :: "(string \<Rightarrow> string result) \<Rightarrow> path \<Rightarrow> unit io" where
  "check_grind urlopen root_dir =
     io_bind (io_lift (http_get urlopen bitcoin_util_url)) (\<lambda>their_file.
     io_bind (read_text (grind_cpp root_dir)) (\<lambda>our_file.
       let our_grind_task_offset = 12;
           our_grind_task_function =
             join [LF] (list_slice our_grind_task_offset (our_grind_task_offset + 25) (splitlines our_file));
           their_grind_task_offset = 85;
           their_grind_task_function =
             join [LF] (list_slice their_grind_task_offset (their_grind_task_offset + 25) (splitlines their_file));
           their_grind_task_function = str_replace ''static '' [] their_grind_task_function
       in io_lift (py_assert (our_grind_task_function = their_grind_task_function))))"

definition main :: "(string \<Rightarrow> string result) \<Rightarrow> path \<Rightarrow> ppath \<Rightarrow> unit io" where
  "main urlopen cwd file = io_bind (check_grind urlopen (root_dir_of cwd file)) (\<lambda>_. io_return ())"

section \<open>Lines\<close>

lemma splitlines_aux_no_break:
  "l \<in> set (splitlines_aux s acc) \<Longrightarrow> list_all (\<lambda>c. \<not> is_linebreak c) acc \<Longrightarrow> list_all (\<lambda>c. \<not> is_linebreak c) l"
proof (induction s acc rule: splitlines_aux.induct)
  case (2 c cs acc)
  have acc: "list_all (\<lambda>c. \<not> is_linebreak c) (rev acc)" using 2(6) by (simp add: list_all_iff)
  show ?case
  proof (cases "c = CR")
    case CR: True
    show ?thesis
    proof (cases cs)
      case Nil
      then have "l = rev acc" using 2(5) CR by simp
      with acc show ?thesis by simp
    next
      case (Cons c' cs')
      then have "l = rev acc \<or> c' = LF \<and> l \<in> set (splitlines_aux cs' []) \<or> c' \<noteq> LF \<and> l \<in> set (splitlines_aux cs [])"
        using 2(5) CR by (simp split: if_splits)
      then show ?thesis
        using acc 2(1) [OF CR Cons] 2(2) [OF CR Cons] by (elim disjE) simp_all
    qed
  next
    case noCR: False
    show ?thesis
    proof (cases "is_linebreak c")
      case True
      then have "l = rev acc \<or> l \<in> set (splitlines_aux cs [])" using 2(5) noCR by simp
      then show ?thesis using acc 2(3) [OF noCR True] by (elim disjE) simp_all
    next
      case False
      then have "l \<in> set (splitlines_aux cs (c # acc))" using 2(5) noCR by simp
      then show ?thesis using 2(4) [OF noCR False] 2(6) False by simp
    qed
  qed
qed (auto simp: list_all_iff split: if_splits)

lemma splitlines_no_LF: "l \<in> set (splitlines s) \<Longrightarrow> LF \<notin> set l"
  using splitlines_aux_no_break [of l s "[]"] by (auto simp: splitlines_def list_all_iff is_linebreak_def)

lemma join_Cons: "join sep (x # xs) = x @ (if xs = [] then [] else sep @ join sep xs)"
  by (cases xs) auto

text \<open>Joined lines determine the lines, up to no line and one empty line.\<close>

definition same_lines :: "string list \<Rightarrow> string list \<Rightarrow> bool" where
  "same_lines xs ys \<longleftrightarrow> xs = ys \<or> xs = [] \<and> ys = [[]] \<or> xs = [[]] \<and> ys = []"

lemma append_LF_eq:
  "LF \<notin> set x \<Longrightarrow> LF \<notin> set y \<Longrightarrow> x @ LF # s = y @ LF # t \<longleftrightarrow> x = y \<and> s = t"
  by (induction x arbitrary: y) (case_tac y; auto)+

lemma join_eq_iff:
  assumes "\<forall>l \<in> set xs. LF \<notin> set l" and "\<forall>l \<in> set ys. LF \<notin> set l"
  shows "join [LF] xs = join [LF] ys \<longleftrightarrow> same_lines xs ys"
  using assms
proof (induction xs arbitrary: ys)
  case Nil
  then show ?case by (cases ys) (auto simp: join_Cons same_lines_def)
next
  case (Cons x xs)
  show ?case
  proof (cases ys)
    case Nil
    then show ?thesis by (auto simp: join_Cons same_lines_def)
  next
    case (Cons y ys')
    have x: "LF \<notin> set x" and y: "LF \<notin> set y" using Cons.prems Cons by auto
    have one: "a \<noteq> b @ LF # s" "b @ LF # s \<noteq> a" if "LF \<notin> set a" for a b s using that by auto
    have IH: "join [LF] xs = join [LF] ys' \<longleftrightarrow> same_lines xs ys'" using Cons.IH Cons.prems Cons by simp
    consider "xs = []" | "ys' = []" | "xs \<noteq> []" "ys' \<noteq> []" by blast
    then show ?thesis
      by cases (auto simp: Cons join_Cons same_lines_def append_LF_eq x y one IH)
  qed
qed

text \<open>A replacement whose pattern has no line end works line by line.\<close>

lemma str_replace_Cons:
  "old \<noteq> [] \<Longrightarrow> \<not> prefix old (c # s) \<Longrightarrow> str_replace old new (c # s) = c # str_replace old new s"
  by (subst str_replace.simps) simp

lemma str_replace_match:
  "old \<noteq> [] \<Longrightarrow> str_replace old new (old @ s) = new @ str_replace old new s"
  by (subst str_replace.simps) (cases old; simp)

lemma str_replace_Nil [simp]: "str_replace old new [] = []"
  by (subst str_replace.simps) simp

lemma str_replace_line:
  assumes "old \<noteq> []" and "LF \<notin> set old"
  shows "str_replace old new (l @ LF # s) = str_replace old new l @ LF # str_replace old new s"
proof (induction l rule: length_induct)
  case (1 l)
  show ?case
  proof (cases "prefix old l")
    case True
    then obtain l' where l: "l = old @ l'" by (auto elim: prefixE)
    then have "length l' < length l" using assms(1) by simp
    with 1 have "str_replace old new (l' @ LF # s) = str_replace old new l' @ LF # str_replace old new s" by blast
    then show ?thesis using str_replace_match [OF assms(1), of new "l' @ LF # s"] by (simp add: l str_replace_match assms(1))
  next
    case False
    have no: "\<not> prefix old (l @ LF # s)"
    proof
      assume "prefix old (l @ LF # s)"
      with False assms(2) show False by (auto simp: prefix_append prefix_Cons)
    qed
    show ?thesis
    proof (cases l)
      case Nil
      then show ?thesis using no assms by (simp add: str_replace_Cons)
    next
      case (Cons c l')
      then show ?thesis using no False 1 assms(1) by (simp add: str_replace_Cons)
    qed
  qed
qed

lemma str_replace_join:
  "old \<noteq> [] \<Longrightarrow> LF \<notin> set old \<Longrightarrow> str_replace old new (join [LF] xs) = join [LF] (map (str_replace old new) xs)"
  by (induction xs) (simp_all add: join_Cons str_replace_line)

lemma str_replace_set: "set (str_replace old new s) \<subseteq> set new \<union> set s"
proof (induction old new s rule: str_replace.induct)
  case (1 old new s)
  show ?case
  proof (cases "old = [] \<or> s = []")
    case False
    then obtain c cs where s: "s = c # cs" and o: "old \<noteq> []" by (cases s) auto
    show ?thesis
    proof (cases "prefix old s")
      case True
      then obtain r where r: "s = old @ r" by (auto elim: prefixE)
      with 1 o s True have "set (str_replace old new r) \<subseteq> set new \<union> set r" by fastforce
      then show ?thesis using o by (auto simp: r str_replace_match)
    next
      case False
      with 1 o s show ?thesis by (auto simp: str_replace_Cons)
    qed
  qed (auto simp: str_replace.simps [of "[]"])
qed

section \<open>What the check means\<close>

text \<open>C31: The check passes exactly if the original can be fetched, our file can be read, and lines 13
  to 37 of our file are lines 86 to 110 of the original with the word \<open>static\<close> and the blank after
  it removed. It changes no file. No line and one empty line count as the same text, so that the
  check also passes where both files are too short to hold the function.\<close>

theorem main_passes_iff:
  "main urlopen cwd file fs = (Inr (), fs') \<longleftrightarrow> fs' = fs \<and>
     (\<exists>theirs ours. http_get urlopen bitcoin_util_url = Inr theirs \<and>
        holds_text fs (grind_cpp (root_dir_of cwd file)) ours \<and>
        same_lines (list_slice 12 37 (splitlines ours))
          (map (str_replace ''static '' []) (list_slice 85 110 (splitlines theirs))))"
proof -
  let ?rm = "str_replace ''static '' []"
  have lines: "join [LF] (list_slice a b (splitlines s)) = ?rm (join [LF] (list_slice c d (splitlines t))) \<longleftrightarrow>
      same_lines (list_slice a b (splitlines s)) (map ?rm (list_slice c d (splitlines t)))" for a b c d s t
  proof -
    have sub: "l \<in> set (list_slice i j xs) \<Longrightarrow> l \<in> set xs" for l i j and xs :: "string list"
      unfolding list_slice_def by (metis in_set_dropD in_set_takeD)
    have "\<forall>l \<in> set (list_slice a b (splitlines s)). LF \<notin> set l"
      using splitlines_no_LF sub by blast
    moreover have "\<forall>l \<in> set (map ?rm (list_slice c d (splitlines t))). LF \<notin> set l"
      using splitlines_no_LF sub str_replace_set [of "''static ''" "[]"] by fastforce
    ultimately show ?thesis by (simp add: str_replace_join join_eq_iff)
  qed
  show ?thesis
    by (auto simp: main_def check_grind_def io_bind_Inr Let_def lines read_text_Inr
        py_assert_def split: if_splits)
qed

end
