(* ===== verification/Bench_Paths.thy ===== *)
theory Bench_Paths
  imports Bft_Utils
begin

text \<open>
  \<^verbatim>\<open>benchmark_framework/paths.py\<close> and \<^verbatim>\<open>benchmark_framework/commands.py\<close>: the names of the files and
  directories of a benchmark and the shell commands that work on them. The interpreter, the
  directory of the core and the date are arguments of the definitions that use them.
\<close>

section \<open>Paths\<close>

definition REMOTE_HOME :: string where "REMOTE_HOME = ''/home/ubuntu''"
definition REMOTE_ITCOIN_FBFT_PATH :: string where
  "REMOTE_ITCOIN_FBFT_PATH = REMOTE_HOME @ ''/itcoin-fbft''"
definition REMOTE_ITCOIN_FBFT_BENCHMARK_PATH :: string where
  "REMOTE_ITCOIN_FBFT_BENCHMARK_PATH = REMOTE_ITCOIN_FBFT_PATH @ ''/benchmark''"

definition build_path :: string where "build_path = ''../build''"
definition logs_path :: string where "logs_path = ''logs''"
definition output_path :: string where "output_path = ''datadirs''"
definition benchmark_path :: string where "benchmark_path = ''benchmark''"
definition plots_path :: string where "plots_path = ''plots''"
definition remote_itcoin_fbft_path :: string where "remote_itcoin_fbft_path = REMOTE_ITCOIN_FBFT_PATH"
definition remote_benchmark_path :: string where "remote_benchmark_path = REMOTE_ITCOIN_FBFT_BENCHMARK_PATH"

definition node_logs_path :: "string \<Rightarrow> string" where
  "node_logs_path node_name = ''logs/'' @ node_name"

definition get_local_datadir :: "int \<Rightarrow> node_type \<Rightarrow> int \<Rightarrow> string" where
  "get_local_datadir node_name t nb_nodes = output_path @ ''/'' @ get_node_dirname node_name t nb_nodes"

definition get_remote_datadir :: "int \<Rightarrow> node_type \<Rightarrow> int \<Rightarrow> string" where
  "get_remote_datadir node_name t nb_nodes =
     remote_benchmark_path @ ''/'' @ output_path @ ''/'' @ get_node_dirname node_name t nb_nodes"

definition miner_log_file :: "int \<Rightarrow> int \<Rightarrow> string result" where
  "miner_log_file i nb_validators =
     rbind (py_assert (i \<ge> 0)) (\<lambda>_.
       Inr (node_logs_path (get_node_dirname i VALIDATOR nb_validators @ ''/miner_logs.txt'')))"

definition client_log_file :: "int \<Rightarrow> int \<Rightarrow> string result" where
  "client_log_file i nb_clients =
     rbind (py_assert (i \<ge> 0)) (\<lambda>_.
       Inr (node_logs_path (get_node_dirname i CLIENT nb_clients @ ''/client_logs.txt'')))"

text \<open>The date as day, month and year.\<close>

definition date_str :: "int \<times> int \<times> int \<Rightarrow> string" where
  "date_str d = (case d of (day, month, year) \<Rightarrow>
     format_0w 2 day @ ''-'' @ format_0w 2 month @ ''-'' @ format_0w 4 year)"

definition csv_result_file :: "int \<times> int \<times> int \<Rightarrow> string" where
  "csv_result_file today = ''bench-'' @ date_str today @ ''.csv''"

definition csv_by_height_result_file :: "int \<times> int \<times> int \<Rightarrow> string" where
  "csv_by_height_result_file today = ''bench-'' @ date_str today @ ''-by-height.csv''"

definition bitcoin_path :: string where
  "bitcoin_path = REMOTE_ITCOIN_FBFT_PATH @ ''/build/usrlocal/bin''"

definition itcoin_core_test_framework_path :: string where
  "itcoin_core_test_framework_path = REMOTE_ITCOIN_FBFT_PATH @ ''/build/thirdparty/'' @
     ''_itcoin-core-external-project-prefix/src/_itcoin-core-external-project'' @
     ''/test/functional/test_framework/__init__.py''"

section \<open>Commands\<close>

definition TMUX_SESSION_NAME :: string where "TMUX_SESSION_NAME = ''itcoin-testing-session''"
definition REMOTE_PYTHON :: string where "REMOTE_PYTHON = ''python3''"

definition cmake :: "string \<Rightarrow> string" where "cmake options = ''cmake '' @ options @ '' ..''"
definition compile :: "string \<Rightarrow> string" where "compile options = ''make '' @ options"
definition clean_logs :: string where "clean_logs = ''rm -fr '' @ logs_path"
definition clean_output :: string where "clean_output = ''rm -fr '' @ output_path"
definition clean_plots :: string where "clean_plots = ''rm -fr '' @ plots_path"

definition mk_node_log_dir :: "string \<Rightarrow> string" where
  "mk_node_log_dir node_name = ''mkdir -p '' @ logs_path @ ''/'' @ node_name"

definition mk_log_dirs :: "node_type \<Rightarrow> int \<Rightarrow> string list" where
  "mk_log_dirs t n = map (\<lambda>index. mk_node_log_dir (get_node_dirname (int index) t n)) [0..<nat n]"

definition mk_node_log_dirs :: "int \<Rightarrow> int \<Rightarrow> string" where
  "mk_node_log_dirs nodes clients =
     join ''; '' (mk_log_dirs VALIDATOR nodes) @ ''; '' @ join ''; '' (mk_log_dirs CLIENT clients)"

definition mk_log_dir :: string where "mk_log_dir = ''mkdir -p '' @ logs_path"

definition setup_signet :: "string \<Rightarrow> string \<Rightarrow> string" where
  "setup_signet executable options = executable @ '' '' @ ''./setup-signet.py '' @ options"

text \<open>The four commands that run a program locally or remotely.\<close>

definition run_program :: "string \<Rightarrow> string \<Rightarrow> string \<Rightarrow> bool \<Rightarrow> string" where
  "run_program program executable options run_remotely =
     (if run_remotely then REMOTE_PYTHON @ '' '' @ remote_benchmark_path else executable @ '' .'')
     @ ''/'' @ program @ '' '' @ options"

definition run_signet :: "string \<Rightarrow> string \<Rightarrow> bool \<Rightarrow> string" where
  "run_signet = run_program ''run-signet.py''"
definition run_donor :: "string \<Rightarrow> string \<Rightarrow> bool \<Rightarrow> string" where
  "run_donor = run_program ''run-donor.py''"
definition run_client :: "string \<Rightarrow> string \<Rightarrow> bool \<Rightarrow> string" where
  "run_client = run_program ''run-client.py''"
definition run_replicas :: "string \<Rightarrow> string \<Rightarrow> bool \<Rightarrow> string" where
  "run_replicas = run_program ''run-replicas.py''"

definition create_tmux_session :: string where
  "create_tmux_session = ''tmux new -d -s '' @ TMUX_SESSION_NAME"

definition kill_tmux_session :: string where
  "kill_tmux_session = ''tmux kill-session -t '' @ TMUX_SESSION_NAME"

definition kill_bitcoind :: "string \<Rightarrow> int \<Rightarrow> node_type \<Rightarrow> int \<Rightarrow> bool \<Rightarrow> string" where
  "kill_bitcoind core_path i t nb_of_type run_remotely =
     (let datadir = (if run_remotely then get_remote_datadir i t nb_of_type else get_local_datadir i t nb_of_type);
          bitcoin_cli = (if run_remotely then bitcoin_path @ ''/bitcoin-cli'' else core_path @ ''/src/bitcoin-cli'')
      in bitcoin_cli @ '' -datadir='' @ datadir @ '' stop'')"

section \<open>Names\<close>

lemma node_dirname_eq_iff:
  assumes "0 \<le> i" "i < n" "0 \<le> j" "j < n"
  shows "get_node_dirname i t n = get_node_dirname j t n \<longleftrightarrow> i = j"
  using get_node_dirname_inj [OF assms] by blast

lemma node_dirname_type:
  "get_node_dirname i t n = get_node_dirname j u k \<Longrightarrow> t = u"
  unfolding get_node_dirname_def Let_def by (rule get_dirname_inj)

text \<open>Nodes do not share anything. Two nodes of a benchmark, of whatever type and with whatever
  number of nodes of either type, that share a data directory (on the machine itself or on a remote
  one), are the same node; the same holds for two validators that share a log file and for two
  clients that share one, and no validator shares its log file with a client.
\<close>

theorem node_files_distinct:
  assumes "0 \<le> i" "i < n t" "0 \<le> j" "j < n u"
  shows "(get_local_datadir i t (n t) = get_local_datadir j u (n u) \<longleftrightarrow> i = j \<and> t = u) \<and>
    (get_remote_datadir i t (n t) = get_remote_datadir j u (n u) \<longleftrightarrow> i = j \<and> t = u) \<and>
    (t = u \<longrightarrow> (miner_log_file i (n t) = miner_log_file j (n u) \<longleftrightarrow> i = j)
      \<and> (client_log_file i (n t) = client_log_file j (n u) \<longleftrightarrow> i = j)) \<and>
    miner_log_file i (n t) \<noteq> client_log_file j (n u)"
proof -
  have key: "get_node_dirname i t (n t) = get_node_dirname j u (n u) \<longleftrightarrow> i = j \<and> t = u"
  proof
    assume eq: "get_node_dirname i t (n t) = get_node_dirname j u (n u)"
    then have "t = u" by (rule node_dirname_type)
    with eq show "i = j \<and> t = u" using node_dirname_eq_iff [of i "n t" j t] assms by simp
  qed simp
  have same: "get_node_dirname i v (n t) = get_node_dirname j v (n t) \<longleftrightarrow> i = j" if "t = u" for v
    using node_dirname_eq_iff [of i "n t" j v] assms that by simp
  have "get_node_dirname i VALIDATOR (n t) @ x \<noteq> get_node_dirname j CLIENT (n u) @ y" for x y
    by (simp add: get_node_dirname_def get_dirname_def)
  then show ?thesis using assms key same
    by (auto simp: get_local_datadir_def get_remote_datadir_def miner_log_file_def client_log_file_def
        node_logs_path_def)
qed

text \<open>Every log file has its directory. For every validator and every client the command that
  prepares a run makes the directory of the log file, and it makes no other directory.\<close>

theorem log_dirs_made:
  assumes "0 \<le> n"
  shows "set (mk_log_dirs t n) = {mk_node_log_dir (get_node_dirname i t n) | i. 0 \<le> i \<and> i < n} \<and>
    (\<forall>i. 0 \<le> i \<and> i < n \<longrightarrow>
       miner_log_file i n = Inr (logs_path @ ''/'' @ get_node_dirname i VALIDATOR n @ ''/miner_logs.txt'') \<and>
       client_log_file i n = Inr (logs_path @ ''/'' @ get_node_dirname i CLIENT n @ ''/client_logs.txt''))"
proof -
  have "set (mk_log_dirs t n) = (\<lambda>i. mk_node_log_dir (get_node_dirname i t n)) ` int ` {0..<nat n}"
    by (auto simp: mk_log_dirs_def image_image)
  also have "int ` {0..<nat n} = {0..<n}" using assms by (simp add: image_int_atLeastLessThan)
  finally have "set (mk_log_dirs t n) = {mk_node_log_dir (get_node_dirname i t n) | i. 0 \<le> i \<and> i < n}"
    by auto
  then show ?thesis by (simp add: miner_log_file_def client_log_file_def node_logs_path_def logs_path_def)
qed

theorem node_files_distinct_witness:
  "get_local_datadir 2 VALIDATOR 4 \<noteq> get_local_datadir 3 VALIDATOR 4 \<and>
   get_local_datadir 2 VALIDATOR 4 \<noteq> get_local_datadir 2 CLIENT 12"
proof -
  let ?n = "\<lambda>t. if t = VALIDATOR then 4 else (12 :: int)"
  have h: "(0::int) \<le> 2" "2 < ?n VALIDATOR" "(0::int) \<le> 3" "3 < ?n VALIDATOR" "2 < ?n CLIENT" by simp_all
  show ?thesis
    using node_files_distinct [of 2 ?n VALIDATOR 3 VALIDATOR, OF h(1,2,3,4)]
      node_files_distinct [of 2 ?n VALIDATOR 2 CLIENT, OF h(1,2,1,5)] by simp
qed

theorem log_dirs_made_witness:
  "mk_node_log_dir ''node-10'' \<in> set (mk_log_dirs VALIDATOR 12)"
proof -
  have "get_node_dirname 10 VALIDATOR 12 = ''node-10''" by code_simp
  then have "mk_node_log_dir ''node-10'' = mk_node_log_dir (get_node_dirname 10 VALIDATOR 12)" by (simp only:)
  then show ?thesis using log_dirs_made [of 12 VALIDATOR] by fastforce
qed

end
