(* ===== verification/Bench_Base.thy ===== *)
theory Bench_Base
  imports Bench_Paths Py_State "HOL-Library.Sublist"
begin

text \<open>
  \<^verbatim>\<open>benchmark_framework/base.py\<close>: the abstract class of a benchmark. The state holds what the program
  knows of the machine: whether its temporary and its output directory exist, the commands it has
  run and the pauses it has made. The operations that the class leaves open are the fields of
  \<open>bench_ops\<close>; what is proved of every benchmark is stated in locales over these operations, which the
  local and the remote benchmark interpret.
\<close>

section \<open>Parameters, machine, state\<close>

text \<open>The parameters of the benchmark; the two that are only printed are texts.\<close>

record bench_config =
  nb_nodes :: int
  nb_clients :: int
  nb_runs :: int
  duration :: int
  nb_faults :: int
  warmup_duration :: int
  target_block_time :: int
  tx_size :: int
  rate :: string
  fault_time :: string

text \<open>
  The machine the program runs on: what a command raises, the temporary directory, and the names that
  \<open>mktemp\<close> makes in it.
\<close>

record local_machine =
  run_raises :: "string list \<Rightarrow> py_error option"
  tmp_path :: string
  temp_name :: "nat \<Rightarrow> string"

record bench_world =
  tmp_dir :: bool
  output_dir :: bool
  trace :: "string list list"
  slept :: "int list"

type_synonym 'a bench = "(bench_world, 'a) act"

definition str_of :: "int \<Rightarrow> string" where
  "str_of = int_str"

definition subprocess_run :: "'z local_machine_scheme \<Rightarrow> string list \<Rightarrow> unit bench" where
  "subprocess_run env argv w =
     (case run_raises env argv of Some e \<Rightarrow> (Inl e, w)
      | None \<Rightarrow> (Inr (), w\<lparr>trace := trace w @ [argv]\<rparr>))"

text \<open>
  A command in a new window. To wait for it, a name is made in the temporary directory, waited for
  and removed; without that directory \<open>mktemp\<close> prints nothing, and the path to remove is the current
  directory, which cannot be unlinked.
\<close>

definition background_run :: "'z local_machine_scheme \<Rightarrow> string \<Rightarrow> string \<Rightarrow> bool \<Rightarrow> unit bench" where
  "background_run env name command wait w =
     (if wait then
        let tmp_file = (if tmp_dir w then temp_name env (length (trace w)) else [])
        in io_bind (subprocess_run env [''mktemp'', ''-p'', tmp_path env]) (\<lambda>_.
           io_bind (subprocess_run env [''tmux'', ''new-window'', ''-t'', TMUX_SESSION_NAME, ''-n'', name,
             command @ ''; tmux wait-for -S '' @ tmp_file]) (\<lambda>_.
           io_bind (subprocess_run env [''tmux'', ''wait-for'', tmp_file]) (\<lambda>_.
             if tmp_file = [] then io_raise OSErr else io_return ()))) w
      else subprocess_run env [''tmux'', ''new-window'', ''-t'', TMUX_SESSION_NAME, ''-n'', name, command] w)"

section \<open>The class\<close>

definition DEFAULT_SLEEP_TIME :: int where "DEFAULT_SLEEP_TIME = 10"

definition sleep :: "int \<Rightarrow> unit bench" where
  "sleep n w = (Inr (), w\<lparr>slept := slept w @ [n]\<rparr>)"

function wait_from :: "int \<Rightarrow> int \<Rightarrow> unit bench" where
  "wait_from dur total_sleep_time =
     (if total_sleep_time < dur then
        let nb_seconds_to_sleep = min DEFAULT_SLEEP_TIME (dur - total_sleep_time)
        in io_bind (sleep nb_seconds_to_sleep) (\<lambda>_. wait_from dur (total_sleep_time + nb_seconds_to_sleep))
      else io_return ())"
  by pat_completeness auto
termination
  by (relation "measure (\<lambda>(dur, total). nat (dur - total))") (auto simp: DEFAULT_SLEEP_TIME_def)

declare wait_from.simps [simp del]

definition wait_for_duration :: "bench_config \<Rightarrow> unit bench" where
  "wait_for_duration cfg = wait_from (duration cfg) 0"

definition tmp_cleanup :: "unit bench" where
  "tmp_cleanup w = (Inr (), w\<lparr>tmp_dir := False\<rparr>)"

text \<open>
  The operations that a benchmark defines, and what its constructor is given: the output directory and
  whether it may be removed. The results of a run are read from its logs and written to a file.
\<close>

record 'r bench_ops =
  op_kill_nodes :: "unit bench"
  op_clean_up :: "unit bench"
  op_preamble :: "unit bench"
  op_setup :: "unit bench"
  op_run_validator_bitcoinds :: "unit bench"
  op_run_validators :: "unit bench"
  op_run_client_bitcoinds :: "unit bench"
  op_get_client_addresses :: "string list bench"
  op_run_donors :: "string list \<Rightarrow> unit bench"
  op_run_clients :: "unit bench"
  op_process_logs :: "string \<Rightarrow> 'r bench"
  op_print_result :: "'r \<Rightarrow> string \<Rightarrow> unit result"
  output_directory :: string
  force :: bool
  confirmed :: bool

text \<open>One pass of the loop, with its handler.\<close>

definition run_pass :: "'r bench_ops \<Rightarrow> bench_config \<Rightarrow> nat \<Rightarrow> 'r bench" where
  "run_pass ops cfg i =
     (let run_directory = output_directory ops @ ''/'' @ add_zeros_prefix (int i) (nb_runs cfg)
      in io_bind (op_clean_up ops) (\<lambda>_.
         io_bind (op_setup ops) (\<lambda>_.
         io_bind (op_run_validator_bitcoinds ops) (\<lambda>_.
         io_bind (op_run_validators ops) (\<lambda>_.
         io_bind (op_run_client_bitcoinds ops) (\<lambda>_.
         io_bind (op_get_client_addresses ops) (\<lambda>client_addrs.
         io_bind (op_run_donors ops client_addrs) (\<lambda>_.
         io_bind (op_run_clients ops) (\<lambda>_.
         io_bind (wait_for_duration cfg) (\<lambda>_.
         io_bind (op_kill_nodes ops) (\<lambda>_.
         io_bind tmp_cleanup (\<lambda>_.
         io_bind (op_process_logs ops run_directory) (\<lambda>result.
         io_bind (io_lift (op_print_result ops result (run_directory @ ''/results.txt''))) (\<lambda>_.
           io_return result))))))))))))))"

definition run_once :: "'r bench_ops \<Rightarrow> bench_config \<Rightarrow> nat \<Rightarrow> 'r bench" where
  "run_once ops cfg i =
     io_catch (run_pass ops cfg i) (\<lambda>e.
       if e \<in> {SubprocessError, ParseError}
       then io_bind (op_kill_nodes ops) (\<lambda>_. io_bind tmp_cleanup (\<lambda>_. io_raise BenchError))
       else io_raise e)"

definition prepare_output :: "'r bench_ops \<Rightarrow> unit bench" where
  "prepare_output ops w =
     (case remove_dir_or_fail (output_dir w) (force ops) (confirmed ops) of
        Inl e \<Rightarrow> (Inl e, w)
      | Inr still \<Rightarrow> (Inr (), w\<lparr>output_dir := True\<rparr>))"

definition bench_run :: "'r bench_ops \<Rightarrow> bench_config \<Rightarrow> 'r list bench" where
  "bench_run ops cfg =
     io_bind (prepare_output ops) (\<lambda>_.
     io_bind (op_kill_nodes ops) (\<lambda>_.
     io_bind (op_clean_up ops) (\<lambda>_.
     io_bind (op_preamble ops) (\<lambda>_.
       io_collect (run_once ops cfg) [0..<nat (nb_runs cfg)]))))"

section \<open>Waiting\<close>

text \<open>The pauses that \<open>wait_from\<close> makes.\<close>

lemma wait_from_pauses:
  assumes "0 \<le> tot"
  shows "\<exists>ss. wait_from dur tot w = (Inr (), w\<lparr>slept := slept w @ ss\<rparr>) \<and>
    sum_list ss = max 0 (dur - tot) \<and> (\<forall>s \<in> set ss. 0 < s \<and> s \<le> DEFAULT_SLEEP_TIME) \<and>
    int (length ss) = (max 0 (dur - tot) + 9) div 10"
  using assms
proof (induction dur tot arbitrary: w rule: wait_from.induct)
  case (1 dur tot)
  show ?case
  proof (cases "tot < dur")
    case True
    let ?n = "min DEFAULT_SLEEP_TIME (dur - tot)"
    let ?w = "w\<lparr>slept := slept w @ [?n]\<rparr>"
    have n: "0 < ?n" "?n \<le> DEFAULT_SLEEP_TIME" "?n \<le> dur - tot" using True by (simp_all add: DEFAULT_SLEEP_TIME_def)
    obtain ss where ss: "wait_from dur (tot + ?n) ?w = (Inr (), ?w\<lparr>slept := slept ?w @ ss\<rparr>)"
      "sum_list ss = max 0 (dur - (tot + ?n))" "\<forall>s \<in> set ss. 0 < s \<and> s \<le> DEFAULT_SLEEP_TIME"
      "int (length ss) = (max 0 (dur - (tot + ?n)) + 9) div 10"
      using 1(1) [OF True refl, of ?w] 1(2) n by auto
    have "wait_from dur tot w = (Inr (), w\<lparr>slept := slept w @ ?n # ss\<rparr>)"
      using ss(1) True by (subst wait_from.simps) (simp add: io_bind_def sleep_def Let_def)
    moreover have "sum_list (?n # ss) = max 0 (dur - tot)" using ss(2) n by simp
    moreover have "int (length (?n # ss)) = (max 0 (dur - tot) + 9) div 10"
      using ss(4) True by (auto simp: DEFAULT_SLEEP_TIME_def min_def max_def split: if_splits)
    ultimately show ?thesis using ss(3) n by (intro exI [of _ "?n # ss"]) auto
  next
    case False
    then have "wait_from dur tot w = (Inr (), w\<lparr>slept := slept w @ []\<rparr>)" by (subst wait_from.simps) simp
    then show ?thesis using False by (intro exI [of _ "[]"]) simp
  qed
qed

text \<open>The measured time is exact. The waiting loop ends for every duration; it pauses for the
  duration in total, in pauses of at least one and at most ten seconds, as few as possible, and does
  nothing else.\<close>

theorem wait_for_duration_exact:
  "\<exists>ss. wait_for_duration cfg w = (Inr (), w\<lparr>slept := slept w @ ss\<rparr>) \<and>
    sum_list ss = max 0 (duration cfg) \<and> set ss \<subseteq> {1..10} \<and>
    int (length ss) = (max 0 (duration cfg) + 9) div 10"
proof -
  obtain ss where "wait_from (duration cfg) 0 w = (Inr (), w\<lparr>slept := slept w @ ss\<rparr>)"
    "sum_list ss = max 0 (duration cfg - 0)" "\<forall>s \<in> set ss. 0 < s \<and> s \<le> DEFAULT_SLEEP_TIME"
    "int (length ss) = (max 0 (duration cfg - 0) + 9) div 10"
    using wait_from_pauses [of 0 "duration cfg" w] by auto
  then show ?thesis
    by (intro exI [of _ ss]) (auto simp: wait_for_duration_def DEFAULT_SLEEP_TIME_def)
qed

section \<open>The temporary directory\<close>

definition tmp_is :: "bool \<Rightarrow> bench_world \<Rightarrow> bool" where
  "tmp_is b w = (tmp_dir w = b)"

lemma run_keeps_tmp [io_keeps_intros]: "io_keeps (tmp_is b) (subprocess_run env argv)"
  by (auto simp: io_keeps_def subprocess_run_def tmp_is_def split: option.splits)

lemma background_run_keeps_tmp [io_keeps_intros]: "io_keeps (tmp_is b) (background_run env name command wait)"
proof -
  have "io_keeps (tmp_is b) (io_bind (subprocess_run env x) (\<lambda>_. io_bind (subprocess_run env y) (\<lambda>_.
      io_bind (subprocess_run env z) (\<lambda>_. if q then io_raise OSErr else io_return ()))))" for x y z q
    by (intro io_keeps_intros)
  moreover have "io_keeps (tmp_is b) (subprocess_run env x)" for x by (intro io_keeps_intros)
  ultimately show ?thesis by (simp add: io_keeps_def background_run_def Let_def)
qed

lemma wait_keeps_tmp [io_keeps_intros]: "io_keeps (tmp_is b) (wait_for_duration cfg)"
proof -
  have "tmp_dir (snd (wait_for_duration cfg w)) = tmp_dir w" for w
    using wait_from_pauses [of 0 "duration cfg" w] by (auto simp: wait_for_duration_def)
  then show ?thesis by (simp add: io_keeps_def tmp_is_def)
qed

lemma background_run_needs_tmp:
  "background_run env name command True w = (Inr u, w') \<Longrightarrow> tmp_dir w"
  by (auto simp: background_run_def Let_def io_bind_Inr split: if_splits)

lemma io_keeps_stepD: "io_keeps (tmp_is b) m \<Longrightarrow> m w = (r, w') \<Longrightarrow> tmp_dir w = b \<Longrightarrow> tmp_dir w' = b"
  using io_keepsD [of "tmp_is b" m w r w'] by (simp add: tmp_is_def)

text \<open>
  What makes the temporary directory of a benchmark usable once only: setting up the nodes needs it,
  and no operation makes it again.
\<close>

locale uses_tmp_dir =
  fixes ops :: "'r bench_ops"
  assumes clean_up_keeps: "io_keeps (tmp_is b) (op_clean_up ops)"
    and setup_needs: "op_setup ops w = (Inr (), w') \<Longrightarrow> tmp_dir w"
    and process_keeps: "io_keeps (tmp_is False) (op_process_logs ops d)"
begin

text \<open>A pass that succeeds found the temporary directory and removed it.\<close>

lemma run_pass_tmp:
  assumes "run_pass ops cfg i w = (Inr r, w')"
  shows "tmp_dir w \<and> \<not> tmp_dir w'"
proof -
  from assms obtain w1 w2 w3 w4 d where c: "op_clean_up ops w = (Inr (), w1)" and s: "op_setup ops w1 = (Inr (), w2)"
    and t: "tmp_cleanup w3 = (Inr (), w4)" and p: "op_process_logs ops d w4 = (Inr r, w')"
    by (auto simp: run_pass_def Let_def io_bind_Inr)
  have "tmp_dir w1" using s by (rule setup_needs)
  moreover have "tmp_dir w1 = tmp_dir w" using io_keeps_stepD [OF clean_up_keeps c] by blast
  moreover have "\<not> tmp_dir w4" using t by (auto simp: tmp_cleanup_def)
  ultimately show ?thesis using io_keeps_stepD [OF process_keeps p] by simp
qed

lemma run_once_Inr: "run_once ops cfg i w = (Inr r, w') \<Longrightarrow> run_pass ops cfg i w = (Inr r, w')"
  by (auto simp: run_once_def io_catch_Inr io_bind_Inr split: if_splits)

lemma two_runs_fail:
  assumes "2 \<le> nb_runs cfg"
  shows "bench_run ops cfg w \<noteq> (Inr rs, w')"
proof
  assume "bench_run ops cfg w = (Inr rs, w')"
  then obtain w1 where c: "io_collect (run_once ops cfg) [0..<nat (nb_runs cfg)] w1 = (Inr rs, w')"
    by (auto simp: bench_run_def io_bind_Inr)
  have "[0..<nat (nb_runs cfg)] = 0 # 1 # [Suc 1..<nat (nb_runs cfg)]"
    using assms by (simp add: upt_conv_Cons)
  with c obtain r0 w2 r1 w3 where a: "run_once ops cfg 0 w1 = (Inr r0, w2)" and b: "run_once ops cfg 1 w2 = (Inr r1, w3)"
    by (auto simp: io_bind_Inr)
  show False using run_pass_tmp [OF run_once_Inr [OF a]] run_pass_tmp [OF run_once_Inr [OF b]] by simp
qed

end

section \<open>No node is left running\<close>

lemma io_collect_last:
  fixes f :: "'x \<Rightarrow> ('s, 'y) act"
  shows "io_collect f xs w = (r, w') \<Longrightarrow> xs \<noteq> [] \<Longrightarrow>
   \<exists>x \<in> set xs. \<exists>v r1. f x v = (r1, w') \<and> (\<forall>e. r = Inl e \<longleftrightarrow> r1 = Inl e)"
proof (induction xs arbitrary: w r)
  case (Cons x xs)
  note IH = Cons.IH
  obtain r1 w1 where f: "f x w = (r1, w1)" by (rule prod.exhaust)
  show ?case
  proof (cases r1)
    case (Inl e)
    then show ?thesis using Cons.prems f by auto
  next
    case (Inr y)
    obtain r2 w2 where c: "io_collect f xs w1 = (r2, w2)" by (rule prod.exhaust)
    have r: "w' = w2" "\<forall>e. r = Inl e \<longleftrightarrow> r2 = Inl e"
      using Cons.prems f c Inr by (cases r2; auto)+
    show ?thesis
    proof (cases "xs = []")
      case True
      then show ?thesis using Cons.prems f c Inr r by auto
    next
      case False
      have "io_collect f xs w1 = (r2, w')" using c r(1) by simp
      from IH [OF this False] obtain z v r3 where "z \<in> set xs" "f z v = (r3, w')" "\<forall>e. r2 = Inl e \<longleftrightarrow> r3 = Inl e"
        by blast
      then show ?thesis using r(2) by (intro bexI [of _ z] exI [of _ v] exI [of _ r3]) simp_all
    qed
  qed
qed simp

lemma io_for_run:
  "\<forall>argv \<in> set cmds. run_raises env argv = None \<Longrightarrow>
   io_for (subprocess_run env) cmds w = (Inr (), w\<lparr>trace := trace w @ cmds\<rparr>)"
  by (induction cmds arbitrary: w) (simp_all add: subprocess_run_def)

lemma io_raises_collect [raises_intros]:
  "(\<And>x. x \<in> set xs \<Longrightarrow> io_raises_in E (f x)) \<Longrightarrow> io_raises_in E (io_collect f xs)"
  by (induction xs) (auto intro!: raises_intros)

lemma wait_raises_nothing: "io_raises_in E (wait_for_duration cfg)"
proof -
  have "\<exists>u. fst (wait_for_duration cfg w) = Inr u" for w
    using wait_from_pauses [of 0 "duration cfg" w] by (auto simp: wait_for_duration_def)
  then show ?thesis unfolding io_raises_in_def raises_in_def by (metis sum.distinct(1))
qed

lemma run_no_bench_error:
  "\<forall>argv. run_raises env argv \<noteq> Some BenchError \<Longrightarrow> io_raises_in (- {BenchError}) (subprocess_run env argv)"
  by (auto simp: io_raises_in_def raises_in_def subprocess_run_def split: option.splits)

lemma background_run_no_bench_error:
  assumes "\<forall>argv. run_raises env argv \<noteq> Some BenchError"
  shows "io_raises_in (- {BenchError}) (background_run env name command wait)"
proof -
  have "io_raises_in (- {BenchError}) (io_bind (subprocess_run env x) (\<lambda>_. io_bind (subprocess_run env y) (\<lambda>_.
      io_bind (subprocess_run env z) (\<lambda>_. if q then io_raise OSErr else io_return ()))))" for x y z q
    by (intro raises_intros run_no_bench_error [OF assms]) simp_all
  moreover have "io_raises_in (- {BenchError}) (subprocess_run env x)" for x by (rule run_no_bench_error [OF assms])
  ultimately show ?thesis by (simp add: io_raises_in_def background_run_def Let_def)
qed

text \<open>
  What makes a benchmark stop its nodes, as far as it can rely on its surroundings (\<open>reliable\<close>): stopping
  them succeeds and nothing that is done afterwards starts them again, and no other operation raises
  the benchmark's own exception.
\<close>

locale stops_nodes =
  fixes ops :: "'r bench_ops" and stopped :: "bench_world \<Rightarrow> bool" and reliable :: bool
  assumes kill_stops: "reliable \<Longrightarrow> \<exists>w'. op_kill_nodes ops w = (Inr (), w') \<and> stopped w'"
    and cleanup_keeps: "stopped (w\<lparr>tmp_dir := b\<rparr>) = stopped w"
    and process_keeps: "io_keeps stopped (op_process_logs ops d)"
    and no_bench_error:
      "reliable \<Longrightarrow> io_raises_in (- {BenchError}) (op_clean_up ops)"
      "reliable \<Longrightarrow> io_raises_in (- {BenchError}) (op_setup ops)"
      "reliable \<Longrightarrow> io_raises_in (- {BenchError}) (op_run_validator_bitcoinds ops)"
      "reliable \<Longrightarrow> io_raises_in (- {BenchError}) (op_run_validators ops)"
      "reliable \<Longrightarrow> io_raises_in (- {BenchError}) (op_run_client_bitcoinds ops)"
      "reliable \<Longrightarrow> io_raises_in (- {BenchError}) (op_get_client_addresses ops)"
      "reliable \<Longrightarrow> io_raises_in (- {BenchError}) (op_run_donors ops addrs)"
      "reliable \<Longrightarrow> io_raises_in (- {BenchError}) (op_run_clients ops)"
      "reliable \<Longrightarrow> io_raises_in (- {BenchError}) (op_process_logs ops d)"
      "reliable \<Longrightarrow> raises_in (- {BenchError}) (op_print_result ops r f)"
begin

lemma kill_no_error: "reliable \<Longrightarrow> io_raises_in (- {BenchError}) (op_kill_nodes ops)"
proof -
  assume "reliable"
  then have "\<exists>u. fst (op_kill_nodes ops w) = Inr u" for w using kill_stops [of w] by (metis fst_conv)
  then show ?thesis unfolding io_raises_in_def raises_in_def by (metis sum.distinct(1))
qed

lemma run_pass_no_bench_error: "reliable \<Longrightarrow> io_raises_in (- {BenchError}) (run_pass ops cfg i)"
proof -
  assume rel: "reliable"
  have "io_raises_in (- {BenchError}) tmp_cleanup"
    by (simp add: io_raises_in_def raises_in_def tmp_cleanup_def)
  then show ?thesis
    unfolding run_pass_def Let_def
    by (intro raises_intros wait_raises_nothing no_bench_error [OF rel] kill_no_error [OF rel])
qed

lemma run_pass_stops: "reliable \<Longrightarrow> run_pass ops cfg i w = (Inr r, w') \<Longrightarrow> stopped w'"
proof -
  assume rel: "reliable" and "run_pass ops cfg i w = (Inr r, w')"
  then obtain w1 w2 w3 d where k: "op_kill_nodes ops w1 = (Inr (), w2)"
    and t: "tmp_cleanup w2 = (Inr (), w3)" and p: "op_process_logs ops d w3 = (Inr r, w')"
    by (auto simp: run_pass_def Let_def io_bind_Inr)
  have "stopped w2" using kill_stops [OF rel, of w1] k by auto
  then have "stopped w3" using t cleanup_keeps by (auto simp: tmp_cleanup_def)
  then show ?thesis using io_keepsD [OF process_keeps _ p] by blast
qed

lemma run_once_stops:
  assumes rel: "reliable" and "run_once ops cfg i w = (r, w')" and "r = Inl BenchError \<or> (\<exists>x. r = Inr x)"
  shows "stopped w'"
proof -
  obtain p v where pass: "run_pass ops cfg i w = (p, v)" by (rule prod.exhaust)
  show ?thesis
  proof (cases p)
    case (Inr x)
    then have "w' = v" using assms(2) pass by (simp add: run_once_def io_catch_def)
    then show ?thesis using run_pass_stops [OF rel] pass Inr by blast
  next
    case (Inl e)
    then have "e \<noteq> BenchError"
      using run_pass_no_bench_error [OF rel, of cfg i] pass
      unfolding io_raises_in_def raises_in_def by (metis ComplD fst_conv insertI1)
    then have e: "e \<in> {SubprocessError, ParseError}" using assms pass Inl
      by (auto simp: run_once_def io_catch_def split: if_splits)
    obtain v' where k: "op_kill_nodes ops v = (Inr (), v')" "stopped v'" using kill_stops [OF rel] by blast
    then have "w' = v'\<lparr>tmp_dir := False\<rparr>" using assms(2) pass Inl e
      by (auto simp: run_once_def io_catch_def tmp_cleanup_def)
    then show ?thesis using k(2) cleanup_keeps by simp
  qed
qed

lemma all_runs_stop:
  assumes rel: "reliable" and "1 \<le> nb_runs cfg" and "io_raises_in (- {BenchError}) (op_preamble ops)"
    and "bench_run ops cfg w = (r, w')" and "r = Inl BenchError \<or> (\<exists>rs. r = Inr rs)"
  shows "stopped w'"
proof -
  have no: "m v \<noteq> (Inl BenchError, v')" if "io_raises_in (- {BenchError}) m" for m :: "unit bench" and v v'
    using that unfolding io_raises_in_def raises_in_def by (metis ComplD fst_conv insertI1)
  have "prepare_output ops v \<noteq> (Inl BenchError, v')" for v v'
    by (auto simp: prepare_output_def remove_dir_or_fail_def split: sum.splits if_splits)
  then have "\<exists>v. io_collect (run_once ops cfg) [0..<nat (nb_runs cfg)] v = (r, w')"
    using assms(4,5) no [OF kill_no_error [OF rel]] no [OF no_bench_error(1) [OF rel]] no [OF assms(3)]
    by (cases r) (auto simp: bench_run_def io_bind_Inr io_bind_Inl)
  then obtain v where c: "io_collect (run_once ops cfg) [0..<nat (nb_runs cfg)] v = (r, w')" by blast
  have "[0..<nat (nb_runs cfg)] \<noteq> []" using assms(2) by simp
  from io_collect_last [OF c this] obtain i u r1
    where i: "run_once ops cfg i u = (r1, w')" and e: "\<forall>e. r = Inl e \<longleftrightarrow> r1 = Inl e" by blast
  have "r1 = Inl BenchError \<or> (\<exists>x. r1 = Inr x)" using assms(5) e by (cases r1) auto
  then show ?thesis by (rule run_once_stops [OF rel i])
qed

end

section \<open>One run that returns\<close>

lemma wait_total [total_intros]: "io_total (tmp_is b) (wait_for_duration cfg) (tmp_is b)"
proof -
  have "\<exists>ss. wait_for_duration cfg w = (Inr (), w\<lparr>slept := slept w @ ss\<rparr>)" for w
    using wait_from_pauses [of 0 "duration cfg" w] by (auto simp: wait_for_duration_def)
  then show ?thesis unfolding io_total_def tmp_is_def
    by (metis bench_world.ext_inject bench_world.surjective bench_world.update_convs(4))
qed

lemma subprocess_total:
  "run_raises env argv = None \<Longrightarrow> io_total (tmp_is b) (subprocess_run env argv) (tmp_is b)"
  by (simp add: io_total_def subprocess_run_def tmp_is_def)

lemma background_run_total:
  assumes "\<forall>argv. run_raises env argv = None" and "wait \<Longrightarrow> b" and "\<forall>n. temp_name env n \<noteq> []"
  shows "io_total (tmp_is b) (background_run env name command wait) (tmp_is b)"
  using assms by (auto simp: io_total_def background_run_def subprocess_run_def tmp_is_def io_bind_def Let_def)

text \<open>
  What makes a benchmark return, as far as its surroundings work: every operation succeeds, those before
  the logs while there is a temporary directory, and those after it also without.
\<close>

locale can_succeed =
  fixes ops :: "'r bench_ops" and works :: bool
  assumes prepare_total: "works \<Longrightarrow> io_total (tmp_is True) (op_clean_up ops) (tmp_is True)"
      "works \<Longrightarrow> io_total (tmp_is True) (op_preamble ops) (tmp_is True)"
      "works \<Longrightarrow> io_total (tmp_is True) (op_setup ops) (tmp_is True)"
    and start_total: "works \<Longrightarrow> io_total (tmp_is True) (op_run_validator_bitcoinds ops) (tmp_is True)"
      "works \<Longrightarrow> io_total (tmp_is True) (op_run_validators ops) (tmp_is True)"
      "works \<Longrightarrow> io_total (tmp_is True) (op_run_client_bitcoinds ops) (tmp_is True)"
      "works \<Longrightarrow> io_total (tmp_is True) (op_get_client_addresses ops) (tmp_is True)"
      "works \<Longrightarrow> io_total (tmp_is True) (op_run_donors ops addrs) (tmp_is True)"
      "works \<Longrightarrow> io_total (tmp_is True) (op_run_clients ops) (tmp_is True)"
    and finish_total: "works \<Longrightarrow> io_total (tmp_is b) (op_kill_nodes ops) (tmp_is b)"
      "works \<Longrightarrow> io_total (tmp_is b) (op_process_logs ops d) (tmp_is b)"
      "works \<Longrightarrow> \<exists>u. op_print_result ops r f = Inr u"
begin

lemma run_pass_total:
  assumes "works"
  shows "io_total (tmp_is True) (run_pass ops cfg i) (tmp_is False)"
proof -
  have c: "io_total (tmp_is True) tmp_cleanup (tmp_is False)"
    by (simp add: io_total_def tmp_cleanup_def tmp_is_def)
  have p: "io_total (tmp_is False) (io_lift (op_print_result ops r f)) (tmp_is False)" for r f
    using finish_total(3) [OF assms, of r f] by (auto intro: total_intros)
  show ?thesis
    unfolding run_pass_def Let_def
    by (rule io_total_bind, rule prepare_total(1) [OF assms], rule io_total_bind, rule prepare_total(3) [OF assms],
        rule io_total_bind, rule start_total(1) [OF assms], rule io_total_bind, rule start_total(2) [OF assms],
        rule io_total_bind, rule start_total(3) [OF assms], rule io_total_bind, rule start_total(4) [OF assms],
        rule io_total_bind, rule start_total(5) [OF assms], rule io_total_bind, rule start_total(6) [OF assms],
        rule io_total_bind, rule wait_total, rule io_total_bind, rule finish_total(1) [OF assms],
        rule io_total_bind, rule c, rule io_total_bind, rule finish_total(2) [OF assms],
        rule io_total_bind, rule p, rule io_total_pure(1))
qed

lemma one_run_returns:
  assumes "works" and "nb_runs cfg = 1" and "tmp_dir w" and "force ops \<or> confirmed ops \<or> \<not> output_dir w"
  shows "\<exists>r w'. bench_run ops cfg w = (Inr [r], w')"
proof -
  have "io_total (tmp_is True) (run_once ops cfg i) (tmp_is False)" for i
    unfolding run_once_def by (rule io_total_catch) (rule run_pass_total [OF assms(1)])
  then have one: "io_total (tmp_is True) (io_bind (run_once ops cfg 0) (\<lambda>y. io_return [y])) (tmp_is False)"
    by (rule io_total_bind) (rule io_total_pure(1))
  let ?rest = "io_bind (op_kill_nodes ops) (\<lambda>_. io_bind (op_clean_up ops) (\<lambda>_. io_bind (op_preamble ops) (\<lambda>_.
      io_bind (run_once ops cfg 0) (\<lambda>y. io_return [y]))))"
  have rest: "io_total (tmp_is True) ?rest (tmp_is False)"
    by (rule io_total_bind, rule finish_total(1) [OF assms(1)], rule io_total_bind, rule prepare_total(1) [OF assms(1)],
        rule io_total_bind, rule prepare_total(2) [OF assms(1)], rule one)
  have "prepare_output ops w = (Inr (), w\<lparr>output_dir := True\<rparr>)"
    using assms(4) by (auto simp: prepare_output_def remove_dir_or_fail_def)
  moreover have "tmp_is True (w\<lparr>output_dir := True\<rparr>)" using assms(3) by (simp add: tmp_is_def)
  moreover have "io_collect (run_once ops cfg) [0..<nat (nb_runs cfg)] = io_bind (run_once ops cfg 0) (\<lambda>y. io_return [y])"
    using assms(2) by (simp add: io_bind_def io_return_def fun_eq_iff split: prod.splits sum.splits)
  ultimately have "bench_run ops cfg w = ?rest (w\<lparr>output_dir := True\<rparr>)"
    by (simp add: bench_run_def)
  moreover have "\<exists>xs w'. ?rest (w\<lparr>output_dir := True\<rparr>) = (Inr xs, w') \<and> tmp_is False w'"
    by (rule io_totalD [OF rest]) (simp add: tmp_is_def assms(3))
  moreover have "\<exists>r. xs = [r]" if "?rest v = (Inr xs, w')" for v xs w'
    using that by (auto simp: io_bind_Inr)
  ultimately show ?thesis by metis
qed

end

end
