(* ===== verification/Local_Bench.thy ===== *)
theory Local_Bench
  imports Bench_Base
begin

text \<open>
  \<^verbatim>\<open>benchmark_framework/local.py\<close>: a benchmark on the local machine. Besides the machine, the
  addresses of the clients and the results read from the logs are arguments of the model
  (\<open>bench_env\<close>).
\<close>

section \<open>Environment\<close>

record 'r bench_env = local_machine +
  executable :: string
  core_directory :: string
  core_path :: string
  fbft_path :: string
  genesis_timestamp :: int
  new_address :: "string \<Rightarrow> string result"
  logs_result :: "string \<Rightarrow> 'r result"
  print_result :: "'r \<Rightarrow> string \<Rightarrow> unit result"
  out_directory :: string
  force_removal :: bool
  removal_confirmed :: bool

text \<open>\<open>str.split()\<close> without an argument.\<close>

fun split_words_from :: "string \<Rightarrow> string \<Rightarrow> string list" where
  "split_words_from [] acc = (if acc = [] then [] else [rev acc])"
| "split_words_from (c # cs) acc =
     (if is_space c then (if acc = [] then split_words_from cs [] else rev acc # split_words_from cs [])
      else split_words_from cs (c # acc))"

definition split_words :: "string \<Rightarrow> string list" where
  "split_words s = split_words_from s []"

section \<open>The local benchmark\<close>

definition kill_command :: "'r bench_env \<Rightarrow> node_type \<Rightarrow> int \<Rightarrow> int \<Rightarrow> string list" where
  "kill_command env t nb i = split_words (kill_bitcoind (core_path env) i t nb False)"

definition kill_commands :: "'r bench_env \<Rightarrow> bench_config \<Rightarrow> string list list" where
  "kill_commands env cfg = [kill_tmux_session] #
     map (\<lambda>i. kill_command env VALIDATOR (nb_nodes cfg) (int i)) [0..<nat (nb_nodes cfg)] @
     map (\<lambda>i. kill_command env CLIENT (nb_nodes cfg) (int i)) [0..<nat (nb_clients cfg)]"

text \<open>All commands in order; a \<open>SubprocessError\<close> becomes a \<open>BenchError\<close>.\<close>

definition kill_nodes :: "'r bench_env \<Rightarrow> bench_config \<Rightarrow> unit bench" where
  "kill_nodes env cfg =
     io_catch (io_for (subprocess_run env) (kill_commands env cfg))
       (\<lambda>e. io_raise (if e = SubprocessError then BenchError else e))"

definition clean_up :: "'r bench_env \<Rightarrow> bench_config \<Rightarrow> unit bench" where
  "clean_up env cfg =
     subprocess_run env [clean_logs @ '' ; '' @ clean_output @ '' ; '' @ mk_node_log_dirs (nb_nodes cfg) (nb_clients cfg)]"

definition bitcoind_path :: "'r bench_env \<Rightarrow> string" where
  "bitcoind_path env = core_directory env @ ''/src''"

definition test_framework_path :: "'r bench_env \<Rightarrow> string" where
  "test_framework_path env = core_directory env @ ''/test/functional/test_framework/__init__.py''"

definition setup_nodes :: "'r bench_env \<Rightarrow> bench_config \<Rightarrow> unit bench" where
  "setup_nodes env cfg =
     background_run env ''setup_signet''
       (setup_signet (executable env)
          (''--output-directory '' @ output_path @ '' --itcoin-core-dir '' @ core_directory env @
           '' --nb-validators '' @ str_of (nb_nodes cfg) @ '' --nb-clients '' @ str_of (nb_clients cfg) @
           '' --genesis-block-timestamp '' @ str_of (genesis_timestamp env) @
           '' --target-block-time '' @ str_of (target_block_time cfg)) @
        '' &> '' @ logs_path @ ''/setup_signet_logs.txt'') True"

definition preamble :: "'r bench_env \<Rightarrow> unit bench" where
  "preamble env =
     io_bind (subprocess_run env [kill_tmux_session]) (\<lambda>_. subprocess_run env [create_tmux_session])"

definition run_bitcoinds :: "'r bench_env \<Rightarrow> node_type \<Rightarrow> int \<Rightarrow> unit bench" where
  "run_bitcoinds env t nb =
     (let ty = (if t = VALIDATOR then ''VALIDATOR'' else ''CLIENT'')
      in io_for (\<lambda>i. background_run env (''run-signet-'' @ ty @ ''-'' @ nat_str i)
           (run_signet (executable env)
              (''--bitcoin-path '' @ bitcoind_path env @ '' --itcoin-core-test-framework-path '' @
               test_framework_path env @ '' --id '' @ nat_str i @ '' --node-type '' @ ty @
               '' --nb-of-type '' @ str_of nb) False) True) [0..<nat nb])"

definition run_validator_bitcoinds :: "'r bench_env \<Rightarrow> bench_config \<Rightarrow> unit bench" where
  "run_validator_bitcoinds env cfg = run_bitcoinds env VALIDATOR (nb_nodes cfg)"

definition run_client_bitcoinds :: "'r bench_env \<Rightarrow> bench_config \<Rightarrow> unit bench" where
  "run_client_bitcoinds env cfg = run_bitcoinds env CLIENT (nb_clients cfg)"

definition run_validators :: "'r bench_env \<Rightarrow> bench_config \<Rightarrow> unit bench" where
  "run_validators env cfg =
     io_for (\<lambda>i. let fault_info = (if int i < nb_faults cfg
            then ''--fault-info '' @ str_of (nb_faults cfg) @ '' '' @ fault_time cfg else [])
        in background_run env (''run-replica-'' @ nat_str i)
             (run_replicas (executable env)
               (''--itcoin-fbft-path '' @ fbft_path env @ '' --id '' @ nat_str i @
                '' --nb-validators '' @ str_of (nb_nodes cfg) @ '' '' @ fault_info) False) False)
       [0..<nat (nb_nodes cfg)]"

definition get_client_addresses :: "'r bench_env \<Rightarrow> bench_config \<Rightarrow> string list bench" where
  "get_client_addresses env cfg =
     io_collect (\<lambda>i. io_lift (new_address env (get_node_dirname (int i) CLIENT (nb_clients cfg))))
       [0..<nat (nb_clients cfg)]"

definition run_donors :: "'r bench_env \<Rightarrow> bench_config \<Rightarrow> string list \<Rightarrow> unit bench" where
  "run_donors env cfg client_addrs =
     io_for (\<lambda>i. background_run env (''run-donor-'' @ nat_str i)
          (run_donor (executable env)
             (''--bitcoin-path '' @ bitcoind_path env @ '' --itcoin-core-test-framework-path '' @
              test_framework_path env @ '' --id '' @ nat_str i @ '' --nb-validators '' @
              str_of (nb_nodes cfg) @ '' --client-address '' @ join '' --client-address '' client_addrs) False)
          False) [0..<nat (nb_nodes cfg)]"

definition run_clients :: "'r bench_env \<Rightarrow> bench_config \<Rightarrow> unit bench" where
  "run_clients env cfg =
     io_for (\<lambda>i. background_run env (''run-client-'' @ nat_str i)
          (run_client (executable env)
             (''--bitcoin-path '' @ bitcoind_path env @ '' --itcoin-core-test-framework-path '' @
              test_framework_path env @ '' --id '' @ nat_str i @ '' --nb-clients '' @ str_of (nb_clients cfg) @
              '' --warmup-duration '' @ str_of (warmup_duration cfg) @ '' --block-time '' @
              str_of (target_block_time cfg) @ '' --target-tx-rate '' @ rate cfg @ '' --tx-size '' @
              str_of (tx_size cfg)) False)
          False) [0..<nat (nb_clients cfg)]"

definition process_logs :: "'r bench_env \<Rightarrow> string \<Rightarrow> 'r bench" where
  "process_logs env run_directory = io_lift (logs_result env run_directory)"

definition LocalBench :: "'r bench_env \<Rightarrow> bench_config \<Rightarrow> 'r bench_ops" where
  "LocalBench env cfg =
     \<lparr>op_kill_nodes = kill_nodes env cfg, op_clean_up = clean_up env cfg, op_preamble = preamble env,
      op_setup = setup_nodes env cfg, op_run_validator_bitcoinds = run_validator_bitcoinds env cfg,
      op_run_validators = run_validators env cfg, op_run_client_bitcoinds = run_client_bitcoinds env cfg,
      op_get_client_addresses = get_client_addresses env cfg, op_run_donors = run_donors env cfg,
      op_run_clients = run_clients env cfg, op_process_logs = process_logs env,
      op_print_result = print_result env, output_directory = out_directory env,
      force = force_removal env, confirmed = removal_confirmed env\<rparr>"

section \<open>The temporary directory\<close>

lemma process_logs_keeps: "io_keeps P (process_logs env d)"
  unfolding process_logs_def by (intro io_keeps_intros)

interpretation local_tmp: uses_tmp_dir "LocalBench env cfg"
proof unfold_locales
  show "io_keeps (tmp_is b) (op_clean_up (LocalBench env cfg))" for b
    unfolding LocalBench_def bench_ops.simps clean_up_def by (intro io_keeps_intros)
  show "op_setup (LocalBench env cfg) w = (Inr (), w') \<Longrightarrow> tmp_dir w" for w w'
    unfolding LocalBench_def bench_ops.simps setup_nodes_def by (rule background_run_needs_tmp)
  show "io_keeps (tmp_is False) (op_process_logs (LocalBench env cfg) d)" for d
    by (simp add: LocalBench_def process_logs_keeps)
qed

text \<open>C19: Only one run can succeed. The temporary directory is made once, when the benchmark object is
  made, and removed at the end of every pass; a benchmark of two or more runs never returns its
  results, whatever the machine does.\<close>

theorem several_runs_never_succeed:
  assumes "2 \<le> nb_runs cfg"
  shows "\<nexists>rs w'. bench_run (LocalBench env cfg) cfg w = (Inr rs, w')"
  using local_tmp.two_runs_fail [OF assms] by blast

section \<open>No node is left running\<close>

text \<open>
  What the benchmark relies on of its surroundings: the commands that stop the nodes can be run, and
  nothing outside raises a \<open>BenchError\<close>, the benchmark's own exception.
\<close>

definition env_ok :: "'r bench_env \<Rightarrow> bench_config \<Rightarrow> bool" where
  "env_ok env cfg \<longleftrightarrow> (\<forall>argv \<in> set (kill_commands env cfg). run_raises env argv = None) \<and>
     (\<forall>argv. run_raises env argv \<noteq> Some BenchError) \<and> (\<forall>d. raises_in (- {BenchError}) (new_address env d)) \<and>
     (\<forall>d. raises_in (- {BenchError}) (logs_result env d)) \<and>
     (\<forall>r d. raises_in (- {BenchError}) (print_result env r d))"

lemma local_kill_runs:
  "env_ok env cfg \<Longrightarrow> kill_nodes env cfg w = (Inr (), w\<lparr>trace := trace w @ kill_commands env cfg\<rparr>)"
  by (simp add: kill_nodes_def io_catch_def io_for_run env_ok_def)

definition stopped_last :: "'r bench_env \<Rightarrow> bench_config \<Rightarrow> bench_world \<Rightarrow> bool" where
  "stopped_last env cfg w = suffix (kill_commands env cfg) (trace w)"

lemma LocalBench_no_bench_error:
  assumes "env_ok env cfg"
  defines "E \<equiv> - {BenchError}"
  shows "io_raises_in E (clean_up env cfg)" "io_raises_in E (setup_nodes env cfg)"
    "io_raises_in E (run_validator_bitcoinds env cfg)" "io_raises_in E (run_validators env cfg)"
    "io_raises_in E (run_client_bitcoinds env cfg)" "io_raises_in E (get_client_addresses env cfg)"
    "io_raises_in E (run_donors env cfg addrs)" "io_raises_in E (run_clients env cfg)"
    "io_raises_in E (process_logs env d)" "raises_in E (print_result env r f)" "io_raises_in E (preamble env)"
proof -
  have "\<forall>argv. run_raises env argv \<noteq> Some BenchError" using assms by (simp add: env_ok_def)
  note bg = background_run_no_bench_error [OF this] and run = run_no_bench_error [OF this]
  show "io_raises_in E (clean_up env cfg)" unfolding clean_up_def E_def by (rule run)
  show "io_raises_in E (preamble env)" unfolding preamble_def E_def by (intro raises_intros run)
  show "io_raises_in E (setup_nodes env cfg)" unfolding setup_nodes_def E_def by (rule bg)
  have "io_raises_in E (run_bitcoinds env t n)" for t n
    unfolding run_bitcoinds_def Let_def E_def by (intro raises_intros bg)
  then show "io_raises_in E (run_validator_bitcoinds env cfg)" "io_raises_in E (run_client_bitcoinds env cfg)"
    by (simp_all add: run_validator_bitcoinds_def run_client_bitcoinds_def)
  show "io_raises_in E (run_validators env cfg)"
    unfolding run_validators_def Let_def E_def by (intro raises_intros bg)
  show "io_raises_in E (run_donors env cfg addrs)" unfolding run_donors_def E_def by (intro raises_intros bg)
  show "io_raises_in E (run_clients env cfg)" unfolding run_clients_def E_def by (intro raises_intros bg)
  show "io_raises_in E (get_client_addresses env cfg)"
    unfolding get_client_addresses_def using assms by (intro raises_intros) (simp add: env_ok_def)
  show "io_raises_in E (process_logs env d)" "raises_in E (print_result env r f)"
    using assms by (auto simp: process_logs_def env_ok_def intro: raises_intros)
qed

interpretation local_stops: stops_nodes "LocalBench env cfg" "stopped_last env cfg" "env_ok env cfg"
proof unfold_locales
  assume ok: "env_ok env cfg"
  show "\<exists>w'. op_kill_nodes (LocalBench env cfg) w = (Inr (), w') \<and> stopped_last env cfg w'" for w
    by (simp add: LocalBench_def local_kill_runs [OF ok] stopped_last_def suffix_def)
qed (simp_all add: LocalBench_def LocalBench_no_bench_error process_logs_keeps stopped_last_def)


section \<open>A run that returns\<close>

text \<open>Nothing fails: commands can be run, temporary files are made, clients answer, logs can be read.\<close>

definition local_works :: "'r bench_env \<Rightarrow> bool" where
  "local_works env \<longleftrightarrow> (\<forall>argv. run_raises env argv = None) \<and> (\<forall>n. temp_name env n \<noteq> []) \<and>
     (\<forall>d. \<exists>a. new_address env d = Inr a) \<and> (\<forall>d. \<exists>r. logs_result env d = Inr r) \<and>
     (\<forall>r f. \<exists>u. print_result env r f = Inr u)"

lemma LocalBench_total:
  assumes "local_works env"
  defines "T \<equiv> tmp_is True"
  shows "io_total T (clean_up env cfg) T" "io_total T (preamble env) T" "io_total T (setup_nodes env cfg) T"
    "io_total T (run_validator_bitcoinds env cfg) T" "io_total T (run_validators env cfg) T"
    "io_total T (run_client_bitcoinds env cfg) T" "io_total T (get_client_addresses env cfg) T"
    "io_total T (run_donors env cfg addrs) T" "io_total T (run_clients env cfg) T"
    "io_total (tmp_is b) (kill_nodes env cfg) (tmp_is b)" "io_total (tmp_is b) (process_logs env d) (tmp_is b)"
proof -
  have works: "\<forall>argv. run_raises env argv = None" "\<forall>n. temp_name env n \<noteq> []"
    using assms by (simp_all add: local_works_def)
  have run: "io_total (tmp_is b) (subprocess_run env argv) (tmp_is b)" for argv b
    using works by (intro subprocess_total) simp
  have bg: "io_total T (background_run env n cmd b) T" for n cmd b
    unfolding T_def by (rule background_run_total [OF works(1) _ works(2)]) simp
  show "io_total T (clean_up env cfg) T" unfolding clean_up_def T_def by (rule run)
  show "io_total T (preamble env) T" unfolding preamble_def T_def by (intro total_intros run)
  show "io_total T (setup_nodes env cfg) T" unfolding setup_nodes_def by (rule bg)
  have "io_total T (run_bitcoinds env t n) T" for t n
    unfolding run_bitcoinds_def Let_def by (intro total_intros bg)
  then show "io_total T (run_validator_bitcoinds env cfg) T" "io_total T (run_client_bitcoinds env cfg) T"
    by (simp_all add: run_validator_bitcoinds_def run_client_bitcoinds_def)
  show "io_total T (run_validators env cfg) T" unfolding run_validators_def Let_def by (intro total_intros bg)
  show "io_total T (run_donors env cfg addrs) T" unfolding run_donors_def by (intro total_intros bg)
  show "io_total T (run_clients env cfg) T" unfolding run_clients_def by (intro total_intros bg)
  have ad: "io_total T (io_lift (new_address env d)) T" for d
    using assms(1) by (auto simp: local_works_def io_total_def)
  show "io_total T (get_client_addresses env cfg) T"
    unfolding get_client_addresses_def by (rule io_total_collect) (rule ad)
  show "io_total (tmp_is b) (kill_nodes env cfg) (tmp_is b)" unfolding kill_nodes_def by (intro total_intros run)
  show "io_total (tmp_is b) (process_logs env d) (tmp_is b)"
    using assms(1) by (auto simp: process_logs_def local_works_def io_total_def)
qed

interpretation local_succeeds: can_succeed "LocalBench env cfg" "local_works env"
  by unfold_locales (simp_all add: LocalBench_def LocalBench_total, simp add: local_works_def)


section \<open>The clients of the local benchmark\<close>

lemma split_words_from_word:
  "list_all (\<lambda>c. \<not> is_space c) a \<Longrightarrow> split_words_from (a @ CHR '' '' # s) acc =
     (if rev acc @ a = [] then split_words s else (rev acc @ a) # split_words s)"
  by (induction a arbitrary: acc) (auto simp: split_words_def is_space_def)

lemma split_words_from_last:
  "list_all (\<lambda>c. \<not> is_space c) a \<Longrightarrow> split_words_from a acc = (if rev acc @ a = [] then [] else [rev acc @ a])"
  by (induction a arbitrary: acc) auto

lemma split_three:
  assumes "list_all (\<lambda>c. \<not> is_space c) a" "list_all (\<lambda>c. \<not> is_space c) b" "list_all (\<lambda>c. \<not> is_space c) d"
    and "a \<noteq> []" "b \<noteq> []" "d \<noteq> []"
  shows "split_words (a @ CHR '' '' # b @ CHR '' '' # d) = [a, b, d]"
  using assms split_words_from_word [of a "b @ CHR '' '' # d" "[]"] split_words_from_word [of b d "[]"]
    split_words_from_last [of d "[]"]
  by (simp add: split_words_def)

lemma node_dirname_no_space: "0 \<le> i \<Longrightarrow> list_all (\<lambda>c. \<not> is_space c) (get_node_dirname i t n)"
proof -
  assume "0 \<le> i"
  then have "list_all is_digit (add_zeros_prefix i n)" by (rule add_zeros_prefix_digits)
  then have "list_all (\<lambda>c. \<not> is_space c) (add_zeros_prefix i n)"
    by (auto simp: list_all_iff digit_not_space)
  then show ?thesis by (simp add: get_node_dirname_def get_dirname_def is_space_def)
qed

lemma kill_command_eq:
  assumes "list_all (\<lambda>c. \<not> is_space c) (core_path env)" and "0 \<le> i"
  shows "kill_command env t nb i =
    [core_path env @ ''/src/bitcoin-cli'', ''-datadir='' @ get_local_datadir i t nb, ''stop'']"
proof -
  have cmd: "kill_bitcoind (core_path env) i t nb False =
      (core_path env @ ''/src/bitcoin-cli'') @ CHR '' '' # (''-datadir='' @ get_local_datadir i t nb) @ CHR '' '' # ''stop''"
    by (simp add: kill_bitcoind_def)
  have no_space: "list_all (\<lambda>c. \<not> is_space c) ''/src/bitcoin-cli''" "list_all (\<lambda>c. \<not> is_space c) ''-datadir=''"
    "list_all (\<lambda>c. \<not> is_space c) ''datadirs/''" "list_all (\<lambda>c. \<not> is_space c) ''stop''"
    by (simp_all add: is_space_def)
  show ?thesis unfolding kill_command_def cmd
    using assms(1) node_dirname_no_space [OF assms(2)] no_space
    by (intro split_three) (simp_all add: get_local_datadir_def output_path_def)
qed

text \<open>
  The commands that stop the clients are made with the number of validators: with more than ten
  validators and at most ten clients, no client is stopped.
\<close>

theorem local_kill_misses_clients:
  assumes "list_all (\<lambda>c. \<not> is_space c) (core_path env)" and "11 \<le> nb_nodes cfg"
    and "nb_clients cfg \<le> 10" "0 \<le> i" "i < nb_clients cfg"
  shows "kill_command env CLIENT (nb_clients cfg) i \<notin> set (kill_commands env cfg)"
proof -
  have digits: "length (add_zeros_prefix k n) = length (nat_str (nat (n - 1)))" if "0 \<le> k" "k < n" for k n
    using add_zeros_prefix_length [OF that] that by (simp add: int_str_def)
  have i: "length (add_zeros_prefix i (nb_clients cfg)) = 1"
    using digits [OF assms(4,5)] assms(3,4,5) by (simp add: nat_str_small)
  have two: "2 \<le> length (nat_str (nat (nb_nodes cfg - 1)))"
  proof (rule ccontr)
    assume "\<not> 2 \<le> length (nat_str (nat (nb_nodes cfg - 1)))"
    then have "nat (nb_nodes cfg - 1) < 10 ^ 1"
      using nat_str_length_bound [of "nat (nb_nodes cfg - 1)"]
      by (metis (no_types) One_nat_def Suc_1 less_le_trans linorder_not_less not_less_eq_eq one_le_numeral power_increasing)
    then show False using assms(2) by simp
  qed
  have "get_local_datadir i CLIENT (nb_clients cfg) \<noteq> get_local_datadir j CLIENT (nb_nodes cfg)" if "0 \<le> j" "j < nb_clients cfg" for j
    using that assms(4,5) digits [of j "nb_nodes cfg"] two i assms(2,3)
    by (auto simp: get_local_datadir_def get_node_dirname_def dest!: arg_cong [where f = length])
  then have "get_local_datadir i CLIENT (nb_clients cfg) \<noteq> get_local_datadir (int x) CLIENT (nb_nodes cfg)"
    if "x < nat (nb_clients cfg)" for x
    using that by simp
  then have "kill_command env CLIENT (nb_clients cfg) i \<noteq> kill_command env CLIENT (nb_nodes cfg) (int x)"
    if "x < nat (nb_clients cfg)" for x
    using that assms(4) by (simp add: kill_command_eq [OF assms(1)])
  moreover have "kill_command env CLIENT (nb_clients cfg) i \<noteq> kill_command env VALIDATOR n (int x)" for n x
    using assms(4) by (simp add: kill_command_eq [OF assms(1)] get_local_datadir_def get_node_dirname_def get_dirname_def)
  moreover have "kill_command env CLIENT (nb_clients cfg) i \<noteq> [kill_tmux_session]"
    using assms(4) by (simp add: kill_command_eq [OF assms(1)])
  ultimately show ?thesis unfolding kill_commands_def by (auto, blast)
qed

section \<open>An example\<close>

definition example_config :: "int \<Rightarrow> bench_config" where
  "example_config runs = \<lparr>nb_nodes = 1, nb_clients = 1, nb_runs = runs, duration = 25, nb_faults = 0,
     warmup_duration = 0, target_block_time = 60, tx_size = 9, rate = ''1'', fault_time = []\<rparr>"

definition example_env :: "unit bench_env" where
  "example_env = \<lparr>run_raises = (\<lambda>_. None), tmp_path = ''./t'', temp_name = (\<lambda>_. ''./t/x''),
     executable = ''python3'', core_directory = ''/c'', core_path = ''/c'', fbft_path = ''/f'', genesis_timestamp = 0,
     new_address = (\<lambda>_. Inr ''a''), logs_result = (\<lambda>_. Inr ()), print_result = (\<lambda>_ _. Inr ()),
     out_directory = ''out'', force_removal = True, removal_confirmed = False\<rparr>"

definition example_world :: bench_world where
  "example_world = \<lparr>tmp_dir = True, output_dir = False, trace = [], slept = []\<rparr>"

lemma example_env_ok: "env_ok example_env cfg"
  by (simp add: env_ok_def example_env_def raises_in_def)

lemma example_works: "local_works example_env"
  by (simp add: local_works_def example_env_def)

lemma example_bench:
  "\<exists>w'. bench_run (LocalBench example_env (example_config 1)) (example_config 1) example_world = (Inr [()], w')"
  using local_succeeds.one_run_returns [OF example_works, of "example_config 1" example_world "example_config 1"]
  by (simp add: example_config_def example_world_def LocalBench_def example_env_def)


theorem several_runs_never_succeed_witness:
  "\<nexists>rs w'. bench_run (LocalBench example_env (example_config 2)) (example_config 2) example_world = (Inr rs, w')"
  by (rule several_runs_never_succeed) (simp add: example_config_def)


end
