(* ===== verification/Bench_Settings.thy ===== *)
theory Bench_Settings
  imports Param_Fields
begin

text \<open>
  \<^verbatim>\<open>benchmark_framework/settings.py\<close>: the settings of the remote testbed, checked when they are made
  and loaded from a JSON document. The decoded document, or the exception of opening and decoding
  it, is an argument of the model.
\<close>

section \<open>Settings\<close>

record settings =
  testbed :: py_val
  key_name :: py_val
  key_path :: py_val
  consensus_port :: py_val
  bitcoind_port :: py_val
  repo_name :: py_val
  repo_url :: py_val
  branch :: py_val
  cmake_options :: py_val
  instance_type :: py_val
  aws_regions :: py_val

fun is_str :: "py_val \<Rightarrow> bool" where
  "is_str (VStr s) = True"
| "is_str v = False"

text \<open>The constructor. Where the regions are no list, the name \<open>regions\<close> stays unbound.\<close>

definition Settings_init :: "settings \<Rightarrow> settings result" where
  "Settings_init s =
     (case aws_regions s of
        VList regions \<Rightarrow>
          (let inputs_str = [testbed s, key_name s, key_path s, repo_name s, repo_url s, branch s, instance_type s]
                 @ regions;
               inputs_int = [consensus_port s, bitcoind_port s];
               ok = (list_all is_str inputs_str \<and> list_all (\<lambda>v. py_isinstance v TInt) inputs_int \<and>
                     length regions > 0)
           in if \<not> ok then Inl SettingsError else Inr s)
      | _ \<Rightarrow> Inl UnboundLocalError)"

text \<open>\<open>v[k]\<close> for a string \<open>k\<close>.\<close>

definition py_index :: "py_val \<Rightarrow> string \<Rightarrow> py_val result" where
  "py_index v k =
     (case v of VDict d \<Rightarrow> (case dict_get d k of Some x \<Rightarrow> Inr x | None \<Rightarrow> Inl KeyError) | _ \<Rightarrow> Inl TypeError)"

definition py_index2 :: "py_val \<Rightarrow> string \<Rightarrow> string \<Rightarrow> py_val result" where
  "py_index2 v k l = rbind (py_index v k) (\<lambda>w. py_index w l)"

definition load_fields :: "py_val \<Rightarrow> settings result" where
  "load_fields data =
     rbind (py_index data ''testbed'') (\<lambda>v1.
     rbind (py_index2 data ''key'' ''name'') (\<lambda>v2.
     rbind (py_index2 data ''key'' ''path'') (\<lambda>v3.
     rbind (py_index2 data ''ports'' ''consensus'') (\<lambda>v4.
     rbind (py_index2 data ''ports'' ''bitcoind'') (\<lambda>v5.
     rbind (py_index2 data ''repo'' ''name'') (\<lambda>v6.
     rbind (py_index2 data ''repo'' ''url'') (\<lambda>v7.
     rbind (py_index2 data ''repo'' ''branch'') (\<lambda>v8.
     rbind (py_index2 data ''repo'' ''cmake_options'') (\<lambda>v9.
     rbind (py_index2 data ''instances'' ''type'') (\<lambda>v10.
     rbind (py_index2 data ''instances'' ''regions'') (\<lambda>v11.
       Inr \<lparr>testbed = v1, key_name = v2, key_path = v3, consensus_port = v4, bitcoind_port = v5,
            repo_name = v6, repo_url = v7, branch = v8, cmake_options = v9, instance_type = v10,
            aws_regions = v11\<rparr>)))))))))))"

definition Settings_load :: "py_val result \<Rightarrow> settings result" where
  "Settings_load file =
     (case rbind (rbind file load_fields) Settings_init of
        Inl e \<Rightarrow> Inl (if e \<in> {OSErr, FileNotFoundError, JSONDecodeError, KeyError} then SettingsError else e)
      | Inr s \<Rightarrow> Inr s)"

section \<open>Properties\<close>

text \<open>What the rest of the program relies on.\<close>

definition settings_ok :: "settings \<Rightarrow> bool" where
  "settings_ok s \<longleftrightarrow>
     list_all is_str [testbed s, key_name s, key_path s, repo_name s, repo_url s, branch s, instance_type s] \<and>
     as_int (consensus_port s) \<noteq> None \<and> as_int (bitcoind_port s) \<noteq> None \<and>
     (\<exists>rs. aws_regions s = VList rs \<and> rs \<noteq> [] \<and> list_all is_str rs)"

lemma isinstance_int_iff: "py_isinstance v TInt \<longleftrightarrow> as_int v \<noteq> None"
  by (cases v) auto

lemma Settings_init_Inr: "Settings_init s = Inr t \<longleftrightarrow> t = s \<and> settings_ok s"
  by (cases "aws_regions s") (auto simp: Settings_init_def settings_ok_def isinstance_int_iff Let_def)

text \<open>C22: Settings are typed. Whatever document is read, settings that come out of it have text where
  names and paths are used, whole numbers as ports, and at least one region, all of them texts; and
  they hold the values of the document.\<close>

theorem settings_load_typed:
  assumes "Settings_load file = Inr s"
  shows "settings_ok s \<and> (\<exists>data. file = Inr data \<and> load_fields data = Inr s)"
  using assms
  by (auto simp: Settings_load_def rbind_eq_Inr Settings_init_Inr split: sum.splits)

text \<open>
  A single region, given as a text, is meant to be accepted as a list of one; the value is dropped,
  and the constructor fails with an exception that no caller expects.
\<close>

theorem single_region_fails:
  assumes "file = Inr data" and "load_fields data = Inr s" and "aws_regions s = VStr r"
  shows "Settings_load file = Inl UnboundLocalError"
  using assms by (simp add: Settings_load_def Settings_init_def)

definition example_document :: py_val where
  "example_document = VDict
     [(''testbed'', VStr ''t''), (''key'', VDict [(''name'', VStr ''n''), (''path'', VStr ''p'')]),
      (''ports'', VDict [(''consensus'', VInt 1), (''bitcoind'', VInt 2)]),
      (''repo'', VDict [(''name'', VStr ''r''), (''url'', VStr ''u''), (''branch'', VStr ''b''), (''cmake_options'', VNone)]),
      (''instances'', VDict [(''type'', VStr ''m''), (''regions'', VList [VStr ''eu''])])]"

theorem settings_load_typed_witness:
  "\<exists>s. Settings_load (Inr example_document) = Inr s \<and> settings_ok s \<and> aws_regions s = VList [VStr ''eu'']"
proof -
  obtain s where s: "Settings_load (Inr example_document) = Inr s" "aws_regions s = VList [VStr ''eu'']"
    by (simp add: Settings_load_def load_fields_def example_document_def py_index_def py_index2_def
        Settings_init_def)
  from settings_load_typed [OF s(1)] s show ?thesis by blast
qed

end
