(* ===== verification/Bench_Hosts.thy ===== *)
theory Bench_Hosts
  imports Bench_Settings Py_State "HOL-Library.Sublist"
begin

text \<open>
  \<^verbatim>\<open>benchmark_framework/instance.py\<close> and the choice of machines in \<^verbatim>\<open>benchmark_framework/remote.py\<close>: the
  machines of a testbed in the regions of a cloud provider, and which of them a benchmark uses. The
  provider is an argument of the model: its answer to a call may depend on all the calls before it,
  which the state records.
\<close>

section \<open>The provider\<close>

record ec2_instance =
  instance_id :: string
  public_ip :: "string option"

datatype aws_call =
    Sleep int
  | Describe string "string list" "node_type option"
  | CreateGroup string
  | AuthorizeIngress string "int list"
  | DescribeImages string
  | RunInstances string string int node_type
  | TerminateInstances string "string list"
  | StartInstances string "string list"
  | StopInstances string "string list"
  | DeleteGroup string

text \<open>
  The instances by reservation; the error code of the other calls, if any; the images.
\<close>

record aws =
  describe_instances :: "aws_call list \<Rightarrow> aws_call \<Rightarrow> ec2_instance list list result"
  error_code :: "aws_call list \<Rightarrow> aws_call \<Rightarrow> string option"
  images :: "aws_call list \<Rightarrow> aws_call \<Rightarrow> string list result"

type_synonym aws_world = "aws_call list"
type_synonym 'a on_aws = "(aws_world, 'a) act"

definition do_call :: "aws \<Rightarrow> aws_call \<Rightarrow> unit on_aws" where
  "do_call env c w = (if error_code env w c = None then Inr () else Inl ClientError, w @ [c])"

text \<open>The handlers: \<open>except ClientError\<close>, which raises a \<open>BenchError\<close>.\<close>

definition or_bench_error :: "'a on_aws \<Rightarrow> 'a on_aws" where
  "or_bench_error m = io_catch m (\<lambda>e. io_raise (if e = ClientError then BenchError else e))"

section \<open>The instance manager\<close>

text \<open>The regions are the keys of a dictionary.\<close>

definition InstanceManager_init :: "string list \<Rightarrow> string list" where
  "InstanceManager_init names = dict_keys (dict_of (map (\<lambda>region. (region, ())) names))"

definition region_names :: "py_val \<Rightarrow> string list" where
  "region_names v = (case v of VList vs \<Rightarrow> concat (map (\<lambda>x. case x of VStr r \<Rightarrow> [r] | _ \<Rightarrow> []) vs) | _ \<Rightarrow> [])"

text \<open>The manager is made from a settings file; its document is an argument as in \<open>Settings_load\<close>.\<close>

definition InstanceManager_make :: "py_val result \<Rightarrow> string list result" where
  "InstanceManager_make document =
     (case Settings_load document of
        Inl e \<Rightarrow> Inl (if e = SettingsError then BenchError else e)
      | Inr s \<Rightarrow> Inr (InstanceManager_init (region_names (aws_regions s))))"

text \<open>\<open>d[region] += [x]\<close> in a \<open>defaultdict\<close> of lists.\<close>

definition add_to :: "string \<Rightarrow> 'a \<Rightarrow> (string, 'a list) dict \<Rightarrow> (string, 'a list) dict" where
  "add_to region x d = dict_set region ((case dict_get d region of Some xs \<Rightarrow> xs | None \<Rightarrow> []) @ [x]) d"

type_synonym listing = "(string, string list) dict \<times> (string, string list) dict"

definition add_instance :: "string \<Rightarrow> ec2_instance \<Rightarrow> listing \<Rightarrow> listing" where
  "add_instance region x d =
     (add_to region (instance_id x) (fst d),
      case public_ip x of Some ip \<Rightarrow> add_to region ip (snd d) | None \<Rightarrow> snd d)"

fun get_from :: "aws \<Rightarrow> string list \<Rightarrow> node_type option \<Rightarrow> string list \<Rightarrow> listing \<Rightarrow> listing on_aws" where
  "get_from env state t [] d w = (Inr d, w)"
| "get_from env state t (region # regions) d w =
     (let c = Describe region state t
      in case describe_instances env w c of
           Inl e \<Rightarrow> (Inl e, w @ [c])
         | Inr reservations \<Rightarrow>
             get_from env state t regions (fold (add_instance region) (concat reservations) d) (w @ [c]))"

definition get_instances :: "aws \<Rightarrow> string list \<Rightarrow> string list \<Rightarrow> node_type option \<Rightarrow> listing on_aws" where
  "get_instances env regions state t = get_from env state t regions ([], [])"

definition total_of :: "(string, 'a list) dict \<Rightarrow> nat" where
  "total_of d = sum_list (map length (dict_values d))"

definition hosts :: "aws \<Rightarrow> string list \<Rightarrow> node_type option \<Rightarrow> (string, string list) dict on_aws" where
  "hosts env regions t = or_bench_error
     (io_bind (get_instances env regions [''pending'', ''running''] t) (\<lambda>(ids, ips). io_return ips))"

definition hosts_flat :: "aws \<Rightarrow> string list \<Rightarrow> node_type option \<Rightarrow> string list on_aws" where
  "hosts_flat env regions t = io_bind (hosts env regions t) (\<lambda>ips. io_return (concat (dict_values ips)))"

text \<open>A slice \<open>xs[:n]\<close>.\<close>

definition slice_to :: "int \<Rightarrow> 'a list \<Rightarrow> 'a list" where
  "slice_to n xs = (if 0 \<le> n then take (nat n) xs else take (length xs - nat (- n)) xs)"

definition start_in :: "aws \<Rightarrow> int \<Rightarrow> (string, string list) dict \<Rightarrow> string \<Rightarrow> nat on_aws" where
  "start_in env mx ids region =
     (case dict_get ids region of
        None \<Rightarrow> io_return 0
      | Some xs \<Rightarrow> if xs = [] then io_return 0
          else let target = (if int (length xs) < mx then xs else slice_to mx xs)
               in io_bind (do_call env (StartInstances region target)) (\<lambda>_. io_return (length target)))"

text \<open>The number of instances, which is only printed, is the result.\<close>

definition start_instances :: "aws \<Rightarrow> string list \<Rightarrow> int \<Rightarrow> nat on_aws" where
  "start_instances env regions mx = or_bench_error
     (io_bind (get_instances env regions [''stopping'', ''stopped''] None) (\<lambda>(ids, ips).
      io_bind (io_collect (start_in env mx ids) regions) (\<lambda>sizes. io_return (sum_list sizes))))"

definition stop_in :: "aws \<Rightarrow> (string, string list) dict \<Rightarrow> string \<Rightarrow> unit on_aws" where
  "stop_in env ids region =
     (case dict_get ids region of
        None \<Rightarrow> io_return ()
      | Some xs \<Rightarrow> if xs = [] then io_return () else do_call env (StopInstances region xs))"

text \<open>The handler calls \<open>BenchError\<close> with one argument instead of two.\<close>

definition stop_instances :: "aws \<Rightarrow> string list \<Rightarrow> nat on_aws" where
  "stop_instances env regions = io_catch
     (io_bind (get_instances env regions [''pending'', ''running''] None) (\<lambda>(ids, ips).
      io_bind (io_for (stop_in env ids) regions) (\<lambda>_. io_return (total_of ids))))
     (\<lambda>e. io_raise (if e = ClientError then TypeError else e))"

text \<open>The loop of \<open>_wait\<close>; it need not end, and \<open>None\<close> says so.\<close>

partial_function (option) wait_until_none ::
  "aws \<Rightarrow> string list \<Rightarrow> string list \<Rightarrow> aws_world \<Rightarrow> (unit result \<times> aws_world) option" where
  "wait_until_none env regions state w =
     (case get_instances env regions state None (w @ [Sleep 1]) of
        (Inl e, w') \<Rightarrow> Some (Inl e, w')
      | (Inr (ids, ips), w') \<Rightarrow>
          if total_of ids = 0 then Some (Inr (), w') else wait_until_none env regions state w')"

text \<open>Sequencing after a loop that need not end.\<close>

definition io_then :: "('s \<Rightarrow> ('a result \<times> 's) option) \<Rightarrow> ('a \<Rightarrow> ('s, 'b) act) \<Rightarrow> 's \<Rightarrow> ('b result \<times> 's) option" where
  "io_then m k w = (case m w of None \<Rightarrow> None | Some (Inl e, w') \<Rightarrow> Some (Inl e, w') | Some (Inr x, w') \<Rightarrow> Some (k x w'))"

definition terminate_in :: "aws \<Rightarrow> (string, string list) dict \<Rightarrow> string \<Rightarrow> unit on_aws" where
  "terminate_in env ids region =
     (case dict_get ids region of
        None \<Rightarrow> io_return ()
      | Some xs \<Rightarrow> if xs = [] then io_return () else do_call env (TerminateInstances region xs))"

text \<open>The body of the \<open>try\<close>.\<close>

definition terminate_body :: "aws \<Rightarrow> string list \<Rightarrow> aws_world \<Rightarrow> (unit result \<times> aws_world) option" where
  "terminate_body env regions w =
     (case get_instances env regions [''pending'', ''running'', ''stopping'', ''stopped''] None w of
        (Inl e, w1) \<Rightarrow> Some (Inl e, w1)
      | (Inr (ids, ips), w1) \<Rightarrow>
          if total_of ids = 0 then Some (Inr (), w1)
          else (case io_for (terminate_in env ids) regions w1 of
              (Inl e, w2) \<Rightarrow> Some (Inl e, w2)
            | (Inr _, w2) \<Rightarrow> io_then (wait_until_none env regions [''shutting-down''])
                (\<lambda>_. io_for (\<lambda>region. do_call env (DeleteGroup region)) regions) w2))"

definition bench_error_of :: "'a result \<times> 's \<Rightarrow> 'a result \<times> 's" where
  "bench_error_of p = (case p of (Inl e, w) \<Rightarrow> (Inl (if e = ClientError then BenchError else e), w) | (Inr x, w) \<Rightarrow> (Inr x, w))"

definition terminate_instances :: "aws \<Rightarrow> string list \<Rightarrow> aws_world \<Rightarrow> (unit result \<times> aws_world) option" where
  "terminate_instances env regions w = map_option bench_error_of (terminate_body env regions w)"

section \<open>Creating instances\<close>

text \<open>The group exists already: not an error. The ingress rules open ports 22, consensus and bitcoind, and ICMP.\<close>

definition create_security_group :: "aws \<Rightarrow> string \<Rightarrow> int list \<Rightarrow> unit on_aws" where
  "create_security_group env region ports w =
     (let c = CreateGroup region; a = AuthorizeIngress region ([22] @ ports @ [- 1]);
          check = (\<lambda>code. if code = ''InvalidGroup.Duplicate'' then Inr () else Inl BenchError)
      in case error_code env w c of
           Some code \<Rightarrow> (check code, w @ [c])
         | None \<Rightarrow> (case error_code env (w @ [c]) a of
               Some code \<Rightarrow> (check code, w @ [c, a])
             | None \<Rightarrow> (Inr (), w @ [c, a])))"

text \<open>\<open>response["Images"][0]["ImageId"]\<close>.\<close>

definition get_ami :: "aws \<Rightarrow> string \<Rightarrow> string on_aws" where
  "get_ami env region w =
     (let c = DescribeImages region
      in (rbind (images env w c) (\<lambda>xs. case xs of [] \<Rightarrow> Inl IndexError | x # _ \<Rightarrow> Inr x), w @ [c]))"

definition run_in :: "aws \<Rightarrow> int \<Rightarrow> node_type \<Rightarrow> string \<Rightarrow> unit on_aws" where
  "run_in env instances t region =
     io_bind (get_ami env region) (\<lambda>ami. do_call env (RunInstances region ami instances t))"

definition create_instances ::
  "aws \<Rightarrow> string list \<Rightarrow> int list \<Rightarrow> int \<Rightarrow> node_type \<Rightarrow> aws_world \<Rightarrow> (unit result \<times> aws_world) option" where
  "create_instances env regions ports instances t w =
     (case io_bind (io_lift (py_assert (instances > 0))) (\<lambda>_.
           io_for (\<lambda>region. create_security_group env region ports) regions) w of
        (Inl e, w1) \<Rightarrow> Some (Inl e, w1)
      | (Inr _, w1) \<Rightarrow> map_option bench_error_of
          (case io_for (run_in env instances t) regions w1 of
             (Inl e, w2) \<Rightarrow> Some (Inl e, w2)
           | (Inr _, w2) \<Rightarrow> wait_until_none env regions [''pending''] w2))"

section \<open>The machines of a remote benchmark\<close>

text \<open>\<open>zip(*xss)\<close>: rows up to the end of the shortest list.\<close>

function zip_star :: "'a list list \<Rightarrow> 'a list list" where
  "zip_star xss = (if xss = [] \<or> [] \<in> set xss then [] else map hd xss # zip_star (map tl xss))"
  by pat_completeness auto
termination
  by (relation "measure (\<lambda>xss. length (hd xss))") (auto simp: hd_map neq_Nil_conv)

declare zip_star.simps [simp del]

definition ordered_hosts :: "(string, string list) dict \<Rightarrow> string list" where
  "ordered_hosts d = concat (zip_star (dict_values d))"

definition select_hosts ::
  "int \<Rightarrow> int \<Rightarrow> (string, string list) dict \<Rightarrow> (string, string list) dict \<Rightarrow> string list \<times> string list" where
  "select_hosts nodes nb_clients validators_hosts clients_hosts =
     (if int (total_of validators_hosts) < nodes \<or> int (total_of clients_hosts) < nb_clients then ([], [])
      else (slice_to nodes (ordered_hosts validators_hosts), slice_to nb_clients (ordered_hosts clients_hosts)))"

text \<open>
  The addresses of the nodes, for the program that writes the configurations: node \<open>i\<close> is the \<open>i\<close>-th
  of all selected hosts.
\<close>

definition nth_host :: "string list \<Rightarrow> nat \<Rightarrow> string result" where
  "nth_host hs i = (if i < length hs then Inr (hs ! i) else Inl IndexError)"

definition node_id_to_ip :: "int \<Rightarrow> int \<Rightarrow> string list \<times> string list \<Rightarrow> (nat \<times> string) list result" where
  "node_id_to_ip nodes nb_clients selected =
     rmap (\<lambda>i. rbind (nth_host (fst selected @ snd selected) i) (\<lambda>ip. Inr (i, ip)))
       [0..<nat (nodes + nb_clients)]"

section \<open>Which machines are selected\<close>

definition shortest :: "'a list list \<Rightarrow> nat" where
  "shortest xss = (if xss = [] then 0 else Min (length ` set xss))"

lemma zip_star_rows:
  "zip_star xss = map (\<lambda>k. map (\<lambda>xs. xs ! k) xss) [0..<shortest xss]"
proof (induction xss rule: zip_star.induct)
  case (1 xss)
  show ?case
  proof (cases "xss = [] \<or> [] \<in> set xss")
    case True
    then have "shortest xss = 0"
    proof
      assume e: "[] \<in> set xss"
      then have "(0::nat) \<in> length ` set xss" by force
      then have "Min (length ` set xss) \<le> 0" by (intro Min_le) simp_all
      then show ?thesis by (simp add: shortest_def)
    qed (simp add: shortest_def)
    then show ?thesis using True by (subst zip_star.simps) auto
  next
    case False
    have pos: "length xs = Suc (length (tl xs))" if "xs \<in> set xss" for xs
    proof -
      have "xs \<noteq> []" using that False by blast
      then show ?thesis by (cases xs) simp_all
    qed
    then have "length ` set xss = Suc ` length ` set (map tl xss)" by (auto simp: image_iff)
    then have s: "shortest xss = Suc (shortest (map tl xss))"
      using False by (simp add: shortest_def mono_Min_commute [symmetric] mono_def del: set_map)
    have "map hd xss = map (\<lambda>xs. xs ! 0) xss" using False by (metis (no_types, lifting) hd_conv_nth map_eq_conv)
    moreover have "map (\<lambda>xs. xs ! k) (map tl xss) = map (\<lambda>xs. xs ! Suc k) xss" if "k < shortest (map tl xss)" for k
    proof -
      have "k < length (tl xs)" if "xs \<in> set xss" for xs
      proof -
        have "length (tl xs) \<in> length ` set (map tl xss)" using that by (metis image_eqI set_map)
        then have "Min (length ` set (map tl xss)) \<le> length (tl xs)" by (intro Min_le) simp_all
        moreover have "k < Min (length ` set (map tl xss))"
          using \<open>k < shortest (map tl xss)\<close> False by (simp add: shortest_def del: set_map)
        ultimately show ?thesis by (rule order.strict_trans2 [rotated])
      qed
      then show ?thesis by (simp add: nth_tl)
    qed
    ultimately have "map hd xss # map (\<lambda>k. map (\<lambda>xs. xs ! k) (map tl xss)) [0..<shortest (map tl xss)] =
        map (\<lambda>k. map (\<lambda>xs. xs ! k) xss) (0 # map Suc [0..<shortest (map tl xss)])"
      by simp
    moreover have "0 # map Suc [0..<shortest (map tl xss)] = [0..<shortest xss]"
      using s by (simp add: upt_conv_Cons map_Suc_upt del: upt_Suc)
    moreover have "zip_star (map tl xss) = map (\<lambda>k. map (\<lambda>xs. xs ! k) (map tl xss)) [0..<shortest (map tl xss)]"
      by (rule 1 [OF False])
    ultimately show ?thesis using False by (subst zip_star.simps) (simp only: if_False)
  qed
qed


lemma concat_rows_length: "\<forall>row \<in> set rows. length row = r \<Longrightarrow> length (concat rows) = length rows * r"
  by (induction rows) simp_all

lemma concat_rows_nth:
  "\<forall>row \<in> set rows. length row = r \<Longrightarrow> k < length rows * r \<Longrightarrow> concat rows ! k = rows ! (k div r) ! (k mod r)"
proof (induction rows arbitrary: k)
  case (Cons row rows)
  have r: "0 < r" using Cons.prems(2) by (cases r) simp_all
  show ?case
  proof (cases "k < r")
    case True
    then show ?thesis using Cons.prems(1) by (simp add: nth_append)
  next
    case False
    then have "concat rows ! (k - r) = rows ! ((k - r) div r) ! ((k - r) mod r)"
      using Cons by simp
    moreover have "k div r = Suc ((k - r) div r)" "k mod r = (k - r) mod r"
      using False r by (simp_all add: le_div_geq le_mod_geq)
    ultimately show ?thesis using False Cons.prems(1) by (simp add: nth_append)
  qed
qed simp

lemma ordered_hosts_length: "length (ordered_hosts d) = shortest (dict_values d) * length (dict_values d)"
  unfolding ordered_hosts_def zip_star_rows by (subst concat_rows_length [of _ "length (dict_values d)"]) auto

lemma ordered_hosts_nth:
  assumes "k < length (ordered_hosts d)"
  shows "ordered_hosts d ! k = dict_values d ! (k mod length (dict_values d)) ! (k div length (dict_values d))"
proof -
  let ?vs = "dict_values d"
  have k: "k < shortest ?vs * length ?vs" using assms by (simp add: ordered_hosts_length)
  then have "0 < length ?vs" by (cases "length ?vs") simp_all
  then have "k div length ?vs < shortest ?vs" "k mod length ?vs < length ?vs"
    using k by (simp_all add: less_mult_imp_div_less)
  then show ?thesis using k unfolding ordered_hosts_def zip_star_rows
    by (subst concat_rows_nth [of _ "length ?vs"]) auto
qed

lemma nth_hosts:
  "rmap (\<lambda>i. rbind (nth_host hs i) (\<lambda>ip. Inr (i, ip))) [0..<n] =
    (if n \<le> length hs then Inr (map (\<lambda>i. (i, hs ! i)) [0..<n]) else Inl IndexError)"
proof (induction n)
  case (Suc n)
  then show ?case by (auto simp: rmap_append nth_host_def)
qed simp

text \<open>C23: Machines run out although there are enough. Where the regions have enough validators and enough
  clients in total, the selection takes machines from the regions in turn and stops with the region
  that has the fewest. The selection is complete, and the nodes get their addresses, exactly if the
  numbers asked for are at most the number of regions times that smallest number; otherwise setting
  up the nodes fails with an \<open>IndexError\<close>.\<close>

theorem selected_hosts:
  assumes "1 \<le> nodes" "1 \<le> nb_clients" "nodes \<le> int (total_of vh)" "nb_clients \<le> int (total_of ch)"
    and "select_hosts nodes nb_clients vh ch = (v, c)"
  shows "length v = min (nat nodes) (shortest (dict_values vh) * length (dict_values vh)) \<and>
    length c = min (nat nb_clients) (shortest (dict_values ch) * length (dict_values ch)) \<and>
    (\<forall>k < length v. v ! k = dict_values vh ! (k mod length (dict_values vh)) ! (k div length (dict_values vh))) \<and>
    node_id_to_ip nodes nb_clients (v, c) =
      (if int (length v) = nodes \<and> int (length c) = nb_clients
       then Inr (map (\<lambda>i. (i, (v @ c) ! i)) [0..<length v + length c]) else Inl IndexError)"
proof -
  have v: "v = take (nat nodes) (ordered_hosts vh)" and c: "c = take (nat nb_clients) (ordered_hosts ch)"
    using assms by (auto simp: select_hosts_def slice_to_def)
  have "nat (nodes + nb_clients) = nat nodes + nat nb_clients" using assms(1,2) by (simp add: nat_add_distrib)
  moreover have "length v \<le> nat nodes" "length c \<le> nat nb_clients" using v c by simp_all
  moreover have "int (length v) = nodes \<longleftrightarrow> length v = nat nodes" "int (length c) = nb_clients \<longleftrightarrow> length c = nat nb_clients"
    using assms(1,2) by auto
  ultimately have "node_id_to_ip nodes nb_clients (v, c) =
      (if int (length v) = nodes \<and> int (length c) = nb_clients
       then Inr (map (\<lambda>i. (i, (v @ c) ! i)) [0..<length v + length c]) else Inl IndexError)"
    unfolding node_id_to_ip_def nth_hosts fst_conv snd_conv by auto
  moreover have "\<forall>k < length v. v ! k = dict_values vh ! (k mod length (dict_values vh)) ! (k div length (dict_values vh))"
    using ordered_hosts_nth [of _ vh] v by simp
  ultimately show ?thesis using v c by (simp add: ordered_hosts_length min.commute)
qed

section \<open>What the provider is asked\<close>

definition listed :: "(string, string list) dict \<Rightarrow> string \<Rightarrow> string list" where
  "listed d region = (case dict_get d region of Some xs \<Rightarrow> xs | None \<Rightarrow> [])"

lemma listed_add_to: "listed (add_to r x d) q = listed d q @ (if q = r then [x] else [])"
  by (auto simp: listed_def add_to_def split: option.splits)

lemma listed_add_instances:
  "listed (fst (fold (add_instance r) xs d)) q = listed (fst d) q @ (if q = r then map instance_id xs else [])"
  by (induction xs arbitrary: d) (simp_all add: add_instance_def listed_add_to)

lemma total_of_zero: "total_of d = 0 \<Longrightarrow> listed d r = []"
  by (auto simp: total_of_def listed_def dict_values_def dest!: dict_get_Some_in split: option.splits)

text \<open>The calls that list instances, and their answers.\<close>

definition describes :: "string list \<Rightarrow> string list \<Rightarrow> node_type option \<Rightarrow> aws_call list" where
  "describes regions state t = map (\<lambda>r. Describe r state t) regions"

definition answers :: "aws \<Rightarrow> aws_world \<Rightarrow> string list \<Rightarrow> string list \<Rightarrow> node_type option \<Rightarrow> ec2_instance list list list \<Rightarrow> bool" where
  "answers env w regions state t ans \<longleftrightarrow> length ans = length regions \<and>
     (\<forall>i < length regions. describe_instances env (w @ describes (take i regions) state t) (Describe (regions ! i) state t)
        = Inr (ans ! i))"

lemma get_from_Inr:
  "get_from env state t regions d w = (Inr d', w') \<Longrightarrow> distinct regions \<Longrightarrow>
   w' = w @ describes regions state t \<and>
   (\<exists>ans. answers env w regions state t ans \<and>
      (\<forall>i < length regions. listed (fst d') (regions ! i) = listed (fst d) (regions ! i) @ map instance_id (concat (ans ! i))) \<and>
      (\<forall>r. r \<notin> set regions \<longrightarrow> listed (fst d') r = listed (fst d) r))"
proof (induction regions arbitrary: d w)
  case Nil
  then show ?case by (auto simp: describes_def answers_def)
next
  case (Cons r regions)
  let ?c = "Describe r state t"
  obtain a where a: "describe_instances env w ?c = Inr a"
    and g: "get_from env state t regions (fold (add_instance r) (concat a) d) (w @ [?c]) = (Inr d', w')"
    using Cons.prems(1) by (auto simp: Let_def split: sum.splits)
  from Cons.IH [OF g] Cons.prems(2) obtain ans where w': "w' = (w @ [?c]) @ describes regions state t"
    and ans: "answers env (w @ [?c]) regions state t ans"
    and l: "\<forall>i < length regions. listed (fst d') (regions ! i) =
      listed (fst (fold (add_instance r) (concat a) d)) (regions ! i) @ map instance_id (concat (ans ! i))"
    and o: "\<forall>q. q \<notin> set regions \<longrightarrow> listed (fst d') q = listed (fst (fold (add_instance r) (concat a) d)) q" by auto
  have r: "r \<notin> set regions" using Cons.prems(2) by simp
  have "answers env w (r # regions) state t (a # ans)"
    using ans a by (auto simp: answers_def describes_def less_Suc_eq_0_disj)
  moreover have "\<forall>i < length (r # regions). listed (fst d') ((r # regions) ! i) =
      listed (fst d) ((r # regions) ! i) @ map instance_id (concat ((a # ans) ! i))"
    using l o r by (auto simp: less_Suc_eq_0_disj listed_add_instances)
  moreover have "\<forall>q. q \<notin> set (r # regions) \<longrightarrow> listed (fst d') q = listed (fst d) q"
    using o by (simp add: listed_add_instances)
  ultimately show ?case using w' by (auto simp: describes_def)
qed

lemma get_from_ok:
  "get_from env state t regions d w = (Inr d', w') \<Longrightarrow> dict_ok (fst d) \<Longrightarrow> dict_ok (fst d')"
proof (induction regions arbitrary: d w)
  case (Cons r regions)
  have "dict_ok (fst (fold (add_instance r) xs d))" for xs
    using Cons.prems(2) by (induction xs arbitrary: d) (simp_all add: add_instance_def add_to_def dict_ok_set)
  then show ?case using Cons by (auto simp: Let_def split: sum.splits)
qed simp

lemma total_of_listed: "dict_ok d \<Longrightarrow> total_of d \<noteq> 0 \<Longrightarrow> \<exists>r. listed d r \<noteq> []"
proof -
  assume ok: "dict_ok d" and "total_of d \<noteq> 0"
  then obtain r xs where "(r, xs) \<in> set d" "xs \<noteq> []"
    by (auto simp: total_of_def dict_values_def)
  then show ?thesis using dict_ok_get [OF ok] by (auto simp: listed_def intro!: exI [of _ r])
qed

lemma get_instances_Inr:
  assumes "get_instances env regions state t w = (Inr (ids, ips), w')" "distinct regions"
  shows "w' = w @ describes regions state t"
    and "\<exists>ans. answers env w regions state t ans \<and>
      (\<forall>i < length regions. listed ids (regions ! i) = map instance_id (concat (ans ! i)))"
    and "total_of ids \<noteq> 0 \<Longrightarrow> \<exists>i < length regions. listed ids (regions ! i) \<noteq> []"
proof -
  have g: "get_from env state t regions ([], []) w = ((Inr (ids, ips)), w')"
    using assms(1) by (simp add: get_instances_def)
  note f = get_from_Inr [OF g assms(2)]
  show "w' = w @ describes regions state t" using f by simp
  show "\<exists>ans. answers env w regions state t ans \<and>
      (\<forall>i < length regions. listed ids (regions ! i) = map instance_id (concat (ans ! i)))"
    using f by (auto simp: listed_def [of "[]"])
  assume "total_of ids \<noteq> 0"
  then obtain r where r: "listed ids r \<noteq> []" using total_of_listed get_from_ok [OF g] by auto
  then have "r \<in> set regions" using f by (auto simp: listed_def [of "[]"])
  then show "\<exists>i < length regions. listed ids (regions ! i) \<noteq> []" using r by (metis in_set_conv_nth)
qed

text \<open>Calls that change nothing.\<close>

definition only_looks :: "aws_call \<Rightarrow> bool" where
  "only_looks c = (case c of Sleep _ \<Rightarrow> True | Describe _ _ _ \<Rightarrow> True | DescribeImages _ \<Rightarrow> True | _ \<Rightarrow> False)"

definition looks :: "aws_world \<Rightarrow> aws_world \<Rightarrow> bool" where
  "looks w w' \<longleftrightarrow> (\<exists>v. w' = w @ v \<and> list_all only_looks v)"

lemma looks_trans: "looks w w' \<Longrightarrow> looks w' w'' \<Longrightarrow> looks w w''"
  by (auto simp: looks_def)

lemma looks_step [simp]: "looks w w" "only_looks c \<Longrightarrow> looks w (w @ [c])"
  by (simp_all add: looks_def)

lemma get_from_looks: "looks w (snd (get_from env state t regions d w))"
proof (induction regions arbitrary: d w)
  case (Cons r regions)
  let ?c = "Describe r state t"
  have c: "looks w (w @ [?c])" by (simp add: only_looks_def)
  show ?case
  proof (cases "describe_instances env w ?c")
    case (Inl e)
    then show ?thesis using c by (simp add: Let_def)
  next
    case (Inr a)
    then show ?thesis using looks_trans [OF c Cons.IH] by (simp add: Let_def)
  qed
qed simp

lemma wait_looks: "wait_until_none env regions state w = Some (r, w') \<Longrightarrow> looks w w'"
proof -
  assume ret: "wait_until_none env regions state w = Some (r, w')"
  have "looks w (snd (r, w'))"
  proof (rule wait_until_none.raw_induct [where P = "\<lambda>env regions state w p. looks w (snd p)", OF _ ret])
    fix f :: "aws \<Rightarrow> string list \<Rightarrow> string list \<Rightarrow> aws_world \<Rightarrow> (unit result \<times> aws_world) option"
    fix env regions state w p
    assume IH: "\<And>env regions state w p. f env regions state w = Some p \<Longrightarrow> looks w (snd p)"
      and eq: "(case get_instances env regions state None (w @ [Sleep 1]) of
        (Inl e, w') \<Rightarrow> Some (Inl e, w')
      | (Inr (ids, ips), w') \<Rightarrow> if total_of ids = 0 then Some (Inr (), w') else f env regions state w') = Some p"
    obtain g w1 where g: "get_instances env regions state None (w @ [Sleep 1]) = (g, w1)" by (rule prod.exhaust)
    have "looks (w @ [Sleep 1]) w1"
      using get_from_looks [of "w @ [Sleep 1]" env state None regions "([], [])"] g by (simp add: get_instances_def)
    moreover have "looks w (w @ [Sleep 1])" by (simp add: only_looks_def)
    ultimately have w1: "looks w w1" using looks_trans by blast
    have "f env regions state w1 = Some p \<or> snd p = w1"
      using eq g by (auto split: sum.splits if_splits prod.splits)
    then show "looks w (snd p)" using looks_trans [OF w1 IH] w1 by blast
  qed
  then show ?thesis by simp
qed

lemma do_calls_Inr:
  "io_for (\<lambda>region. if b region then do_call env (c region) else io_return ()) regions w = (Inr (), w') \<Longrightarrow>
   w' = w @ map c (filter b regions)"
proof (induction regions arbitrary: w)
  case (Cons r regions)
  show ?case
  proof (cases "b r")
    case True
    then have "io_for (\<lambda>region. if b region then do_call env (c region) else io_return ()) regions (w @ [c r]) = (Inr (), w')"
      using Cons.prems by (auto simp: io_bind_Inr do_call_def split: if_splits)
    then show ?thesis using Cons.IH True by fastforce
  next
    case False
    then show ?thesis using Cons by simp
  qed
qed simp

lemma terminate_in_alt:
  "terminate_in env ids =
    (\<lambda>region. if listed ids region \<noteq> [] then do_call env (TerminateInstances region (listed ids region)) else io_return ())"
  by (rule ext) (auto simp: terminate_in_def listed_def split: option.splits)

lemma delete_groups:
  "io_for (\<lambda>region. do_call env (DeleteGroup region)) regions w = (Inr (), w') \<Longrightarrow> w' = w @ map DeleteGroup regions"
  using do_calls_Inr [of "\<lambda>_. True" env DeleteGroup regions w w'] by simp

text \<open>A successful run: the listing, and nothing else without instances; otherwise the calls for
  termination, a waiting loop, and the calls that delete the groups.\<close>

definition terminations :: "(string, string list) dict \<Rightarrow> string list \<Rightarrow> aws_call list" where
  "terminations ids regions =
     map (\<lambda>region. TerminateInstances region (listed ids region)) (filter (\<lambda>region. listed ids region \<noteq> []) regions)"

lemma terminate_instances_body:
  assumes "terminate_instances env regions w = Some (Inr (), w')"
  shows "terminate_body env regions w = Some (Inr (), w')"
proof -
  obtain p where "terminate_body env regions w = Some p" "bench_error_of p = (Inr (), w')"
    using assms by (auto simp: terminate_instances_def)
  then show ?thesis by (cases p; cases "fst p") (simp_all add: bench_error_of_def)
qed

lemma terminate_body_Inr:
  assumes "terminate_body env regions w = Some (Inr (), w')"
    and g: "get_instances env regions [''pending'', ''running'', ''stopping'', ''stopped''] None w = (Inr (ids, ips), w1)"
  shows "if total_of ids = 0 then w' = w1
    else \<exists>u. list_all only_looks u \<and> w' = w1 @ terminations ids regions @ u @ map DeleteGroup regions"
proof (cases "total_of ids = 0")
  case True
  then show ?thesis using assms by (simp add: terminate_body_def)
next
  case False
  obtain w2 w3 where t: "io_for (terminate_in env ids) regions w1 = (Inr (), w2)"
    and wt: "wait_until_none env regions [''shutting-down''] w2 = Some (Inr (), w3)"
    and d: "io_for (\<lambda>region. do_call env (DeleteGroup region)) regions w3 = (Inr (), w')"
    using assms False by (auto simp: terminate_body_def io_then_def split: prod.splits sum.splits option.splits)
  have "w2 = w1 @ terminations ids regions"
    using t unfolding terminate_in_alt terminations_def by (rule do_calls_Inr)
  moreover obtain u where "w3 = w2 @ u" "list_all only_looks u" using wait_looks [OF wt] by (auto simp: looks_def)
  ultimately show ?thesis using delete_groups [OF d] False by auto
qed

lemma terminations_set:
  assumes "\<forall>i < length regions. listed ids (regions ! i) = map instance_id (concat (ans ! i))"
  shows "set (terminations ids regions) = {TerminateInstances (regions ! i) (map instance_id (concat (ans ! i))) | i.
    i < length regions \<and> concat (ans ! i) \<noteq> []}"
proof -
  have "set (terminations ids regions) = {TerminateInstances (regions ! i) (listed ids (regions ! i)) | i.
      i < length regions \<and> listed ids (regions ! i) \<noteq> []}"
    by (auto simp: terminations_def in_set_conv_nth)
  also have "\<dots> = {TerminateInstances (regions ! i) (map instance_id (concat (ans ! i))) | i.
      i < length regions \<and> concat (ans ! i) \<noteq> []}"
    using assms by (metis (no_types, lifting) map_is_Nil_conv)
  finally show ?thesis .
qed

lemma describes_look: "list_all only_looks (describes regions state t)"
  by (simp add: describes_def list_all_iff only_looks_def)


section \<open>Waiting for the provider\<close>

definition poll :: "aws \<Rightarrow> string list \<Rightarrow> string list \<Rightarrow> aws_world \<Rightarrow> listing result \<times> aws_world" where
  "poll env regions state w = get_instances env regions state None (w @ [Sleep 1])"

definition world_after :: "aws \<Rightarrow> string list \<Rightarrow> string list \<Rightarrow> aws_world \<Rightarrow> nat \<Rightarrow> aws_world" where
  "world_after env regions state w n = ((\<lambda>v. snd (poll env regions state v)) ^^ n) w"

text \<open>A listing that ends the loop: none of the instances, or an error.\<close>

definition settled :: "listing result \<Rightarrow> bool" where
  "settled r = (case r of Inl e \<Rightarrow> True | Inr d \<Rightarrow> total_of (fst d) = 0)"

lemma world_after_simps:
  "world_after env regions state w 0 = w"
  "world_after env regions state w (Suc n) = world_after env regions state (snd (poll env regions state w)) n"
  by (simp_all add: world_after_def funpow_Suc_right del: funpow.simps(2))

lemma wait_unfold:
  "wait_until_none env regions state w =
     (case poll env regions state w of (r, w') \<Rightarrow>
        if settled r then Some (case r of Inl e \<Rightarrow> Inl e | Inr _ \<Rightarrow> Inr (), w')
        else wait_until_none env regions state w')"
  by (subst wait_until_none.simps) (auto simp: poll_def settled_def split: prod.splits sum.splits)

lemma wait_settles:
  "settled (fst (poll env regions state (world_after env regions state w n))) \<Longrightarrow>
   \<exists>p. wait_until_none env regions state w = Some p"
proof (induction n arbitrary: w)
  case 0
  then show ?case by (subst wait_unfold) (simp add: world_after_simps case_prod_beta)
next
  case (Suc n)
  then have "\<exists>p. wait_until_none env regions state (snd (poll env regions state w)) = Some p"
    by (simp add: world_after_simps)
  then show ?case by (subst wait_unfold) (simp add: case_prod_beta)
qed

lemma wait_settled:
  assumes "wait_until_none env regions state w = Some p"
  shows "\<exists>n. settled (fst (poll env regions state (world_after env regions state w n)))"
proof (rule wait_until_none.raw_induct
    [where P = "\<lambda>env regions state w p. \<exists>n. settled (fst (poll env regions state (world_after env regions state w n)))", OF _ assms])
  fix f :: "aws \<Rightarrow> string list \<Rightarrow> string list \<Rightarrow> aws_world \<Rightarrow> (unit result \<times> aws_world) option"
  fix env regions state w p
  assume IH: "\<And>env regions state w p. f env regions state w = Some p \<Longrightarrow>
      \<exists>n. settled (fst (poll env regions state (world_after env regions state w n)))"
    and eq: "(case get_instances env regions state None (w @ [Sleep 1]) of
      (Inl e, w') \<Rightarrow> Some (Inl e, w')
    | (Inr (ids, ips), w') \<Rightarrow> if total_of ids = 0 then Some (Inr (), w') else f env regions state w') = Some p"
  show "\<exists>n. settled (fst (poll env regions state (world_after env regions state w n)))"
  proof (cases "settled (fst (poll env regions state w))")
    case True
    then show ?thesis by (intro exI [of _ 0]) (simp add: world_after_simps)
  next
    case False
    obtain r w1 where r: "poll env regions state w = (r, w1)" by (rule prod.exhaust)
    then have "f env regions state w1 = Some p"
      using eq False by (auto simp: poll_def settled_def split: sum.splits)
    from IH [OF this] obtain n where "settled (fst (poll env regions state (world_after env regions state w1 n)))" by blast
    then show ?thesis using r by (intro exI [of _ "Suc n"]) (simp add: world_after_simps)
  qed
qed

lemma wait_last:
  assumes "wait_until_none env regions state w = Some p" "fst p = Inr ()"
  shows "\<exists>v d. poll env regions state v = (Inr d, snd p) \<and> total_of (fst d) = 0"
proof -
  have "fst p = Inr () \<longrightarrow> (\<exists>v d. poll env regions state v = (Inr d, snd p) \<and> total_of (fst d) = 0)"
  proof (rule wait_until_none.raw_induct [where P = "\<lambda>env regions state w p. fst p = Inr () \<longrightarrow>
      (\<exists>v d. poll env regions state v = (Inr d, snd p) \<and> total_of (fst d) = 0)", OF _ assms(1)], intro impI)
    fix f :: "aws \<Rightarrow> string list \<Rightarrow> string list \<Rightarrow> aws_world \<Rightarrow> (unit result \<times> aws_world) option"
    fix env regions state w
    fix p :: "unit result \<times> aws_world"
    assume IH: "\<And>env regions state w p. f env regions state w = Some p \<Longrightarrow> fst p = Inr () \<longrightarrow>
        (\<exists>v d. poll env regions state v = (Inr d, snd p) \<and> total_of (fst d) = 0)"
      and eq: "(case get_instances env regions state None (w @ [Sleep 1]) of
        (Inl e, w') \<Rightarrow> Some (Inl e, w')
      | (Inr (ids, ips), w') \<Rightarrow> if total_of ids = 0 then Some (Inr (), w') else f env regions state w') = Some p"
      and p: "fst p = Inr ()"
    obtain r w1 where r: "poll env regions state w = (r, w1)" by (rule prod.exhaust)
    show "\<exists>v d. poll env regions state v = (Inr d, snd p) \<and> total_of (fst d) = 0"
    proof (cases "settled r")
      case True
      then obtain d where "r = Inr d" "w1 = snd p" "total_of (fst d) = 0"
        using eq r p by (auto simp: poll_def settled_def split: sum.splits)
      then show ?thesis using r by blast
    next
      case False
      then have "f env regions state w1 = Some p" using eq r by (auto simp: poll_def settled_def split: sum.splits)
      from IH [OF this] p show ?thesis by blast
    qed
  qed
  then show ?thesis using assms(2) by blast
qed

text \<open>Waiting ends exactly if the instances do. The waiting loop returns if and only if at some time a
  listing of the provider, asked once a second, is empty or fails; if it returns normally, the last
  listing was empty.\<close>

theorem wait_ends_iff:
  "((\<exists>p. wait_until_none env regions state w = Some p) \<longleftrightarrow>
    (\<exists>n. settled (fst (poll env regions state (world_after env regions state w n))))) \<and>
   (\<forall>p. wait_until_none env regions state w = Some p \<and> fst p = Inr () \<longrightarrow>
     (\<exists>v d. poll env regions state v = (Inr d, snd p) \<and> total_of (fst d) = 0))"
  using wait_settles wait_settled wait_last by blast

section \<open>Starting and stopping\<close>

lemma start_in_alt:
  assumes "0 \<le> mx"
  shows "start_in env mx ids region =
    (if listed ids region = [] then io_return 0
     else io_bind (do_call env (StartInstances region (take (nat mx) (listed ids region))))
       (\<lambda>_. io_return (min (nat mx) (length (listed ids region)))))"
  using assms by (auto simp: start_in_def listed_def slice_to_def min_def split: option.splits)

lemma starts_Inr:
  assumes "0 \<le> mx"
  shows "io_collect (start_in env mx ids) regions w = (Inr sizes, w') \<Longrightarrow>
    w' = w @ map (\<lambda>r. StartInstances r (take (nat mx) (listed ids r))) (filter (\<lambda>r. listed ids r \<noteq> []) regions) \<and>
    sizes = map (\<lambda>r. min (nat mx) (length (listed ids r))) regions"
proof (induction regions arbitrary: w sizes)
  case (Cons r regions)
  let ?c = "StartInstances r (take (nat mx) (listed ids r))"
  let ?w = "if listed ids r = [] then w else w @ [?c]"
  obtain y w1 rest where h: "start_in env mx ids r w = (Inr y, w1)"
    "io_collect (start_in env mx ids) regions w1 = (Inr rest, w')" "sizes = y # rest"
    using Cons.prems by (auto simp: io_bind_Inr)
  have "y = min (nat mx) (length (listed ids r)) \<and> w1 = ?w"
    using h(1) by (auto simp: start_in_alt [OF assms] io_bind_Inr do_call_def split: if_splits)
  then show ?case using Cons.IH [OF h(2)] h(3) by auto
qed simp

text \<open>At most so many instances are started. If starting succeeds, the provider was asked to start, in
  every region that lists stopped instances, the first of them, at most the given number, and nothing
  else; and the number reported is the number of these instances.\<close>

theorem started_at_most:
  assumes "distinct regions" "0 \<le> mx" and "start_instances env regions mx w = (Inr n, w')"
  shows "\<exists>ans v. answers env w regions [''stopping'', ''stopped''] None ans \<and> w' = w @ v \<and>
    {c \<in> set v. \<not> only_looks c} =
      {StartInstances (regions ! i) (take (nat mx) (map instance_id (concat (ans ! i)))) | i.
         i < length regions \<and> concat (ans ! i) \<noteq> []} \<and>
    n = (\<Sum>i < length regions. min (nat mx) (length (concat (ans ! i))))"
proof -
  let ?s = "[''stopping'', ''stopped'']"
  obtain ids ips w1 sizes where g: "get_instances env regions ?s None w = (Inr (ids, ips), w1)"
    and c: "io_collect (start_in env mx ids) regions w1 = (Inr sizes, w')" and n: "n = sum_list sizes"
    using assms(3) by (auto simp: start_instances_def or_bench_error_def io_catch_Inr io_bind_Inr)
  obtain ans where ans: "answers env w regions ?s None ans"
    and l: "\<forall>i < length regions. listed ids (regions ! i) = map instance_id (concat (ans ! i))"
    using get_instances_Inr(2) [OF g assms(1)] by blast
  note w1 = get_instances_Inr(1) [OF g assms(1)]
  let ?ts = "map (\<lambda>r. StartInstances r (take (nat mx) (listed ids r))) (filter (\<lambda>r. listed ids r \<noteq> []) regions)"
  note run = starts_Inr [OF assms(2) c]
  have none: "listed ids (regions ! i) = [] \<longleftrightarrow> concat (ans ! i) = []" if "i < length regions" for i
    using l that by simp
  have "set ?ts = {StartInstances (regions ! i) (take (nat mx) (listed ids (regions ! i))) | i.
      i < length regions \<and> listed ids (regions ! i) \<noteq> []}"
    by (auto simp: in_set_conv_nth)
  also have "\<dots> = {StartInstances (regions ! i) (take (nat mx) (map instance_id (concat (ans ! i)))) | i.
      i < length regions \<and> concat (ans ! i) \<noteq> []}"
    using l none by (metis (no_types, lifting))
  finally have "set ?ts = \<dots>" .
  moreover have "{c \<in> set (describes regions ?s None @ ?ts). \<not> only_looks c} = set ?ts"
    by (auto simp: describes_def only_looks_def)
  moreover have "n = (\<Sum>i < length regions. min (nat mx) (length (concat (ans ! i))))"
    using run n l by (simp add: sum_list_sum_nth atLeast0LessThan)
  ultimately show ?thesis using ans run w1
    by (intro exI [of _ ans] exI [of _ "describes regions ?s None @ ?ts"]) simp
qed

text \<open>An error of the provider while instances are stopped becomes a \<open>TypeError\<close>, which no caller expects.\<close>

theorem stop_error_lost:
  assumes "get_instances env regions [''pending'', ''running''] None w = (Inl ClientError, w')"
  shows "stop_instances env regions w = (Inl TypeError, w')"
  using assms by (simp add: stop_instances_def io_catch_def io_bind_def)

section \<open>An example\<close>

text \<open>A provider with one region and one instance, which shuts down at once.\<close>

definition example_aws :: aws where
  "example_aws = \<lparr>describe_instances = (\<lambda>w c. case c of
       Describe r state t \<Rightarrow> if state = [''shutting-down''] then Inr []
         else Inr [[\<lparr>instance_id = ''i-1'', public_ip = Some ''10.0.0.1''\<rparr>]]
     | _ \<Rightarrow> Inl ClientError), error_code = (\<lambda>_ _. None), images = (\<lambda>_ _. Inr [''ami''])\<rparr>"

lemma example_get: "get_instances example_aws [''eu''] state None w =
    (Inr (if state = [''shutting-down''] then ([], []) else ([(''eu'', [''i-1''])], [(''eu'', [''10.0.0.1''])])),
     w @ [Describe ''eu'' state None])"
  by (simp add: example_aws_def get_instances_def add_instance_def add_to_def dict_set_def)

lemma example_call: "do_call example_aws c w = (Inr (), w @ [c])"
  by (simp add: example_aws_def do_call_def)

lemmas example_aws_simps = example_get example_call io_bind_def dict_values_def total_of_def

theorem selected_hosts_witness:
  "node_id_to_ip 3 1 (select_hosts 3 1 [(''eu'', [''a'', ''b'', ''c'']), (''us'', [''d''])] [(''eu'', [''e''])]) = Inl IndexError"
proof -
  let ?vh = "[(''eu'', [''a'', ''b'', ''c'']), (''us'', [''d''])]" and ?ch = "[(''eu'', [''e''])]"
  obtain v c where s: "select_hosts 3 1 ?vh ?ch = (v, c)" by (rule prod.exhaust)
  have h: "(1::int) \<le> 3" "(1::int) \<le> 1" "3 \<le> int (total_of ?vh)" "1 \<le> int (total_of ?ch)"
    by (simp_all add: total_of_def dict_values_def)
  have "length v = 2"
    using selected_hosts [OF h s] by (simp add: shortest_def dict_values_def)
  then show ?thesis using selected_hosts [OF h s] s by simp
qed


theorem wait_ends_iff_witness:
  "\<exists>p. wait_until_none example_aws [''eu''] [''shutting-down''] [] = Some p"
proof -
  have "settled (fst (poll example_aws [''eu''] [''shutting-down''] (world_after example_aws [''eu''] [''shutting-down''] [] 0)))"
    by (simp add: world_after_simps poll_def settled_def example_aws_simps)
  then show ?thesis using wait_ends_iff by blast
qed

theorem started_at_most_witness:
  "\<exists>ans v. start_instances example_aws [''eu''] 50 [] = (Inr 1, v) \<and>
     answers example_aws [] [''eu''] [''stopping'', ''stopped''] None ans \<and>
     (1::nat) = (\<Sum>i < length [''eu'']. min 50 (length (concat (ans ! i))))"
proof -
  have r: "start_instances example_aws [''eu''] 50 [] =
    (Inr 1, [Describe ''eu'' [''stopping'', ''stopped''] None, StartInstances ''eu'' [''i-1'']])"
    by (simp add: start_instances_def or_bench_error_def io_catch_def start_in_def example_aws_simps)
  have "distinct [''eu'']" "(0::int) \<le> 50" by simp_all
  from started_at_most [OF this r] r show ?thesis by auto
qed

end
