(* ===== verification/Remote_Bench.thy ===== *)
theory Remote_Bench
  imports Bench_Base Bench_Hosts
begin

text \<open>
  \<^verbatim>\<open>benchmark_framework/remote.py\<close>: a benchmark on machines in the cloud, reached over SSH. A command
  on a machine is recorded with the machine, like the local ones; what connections raise and print is
  an argument of the model. The threads of a parallel run are taken in order.
\<close>

section \<open>Environment\<close>

record 'r remote_env = local_machine +
  executable :: string
  itcoin_core_directory :: string
  settings_branch :: string
  settings_repo_name :: string
  settings_cmake_options :: string
  genesis_timestamp :: int
  selected_validators :: "string list"
  selected_clients :: "string list"
  all_hosts :: "string list result"
  group_fails :: "bool \<Rightarrow> string list list \<Rightarrow> string \<Rightarrow> bool"
  connection_raises :: "string \<Rightarrow> string \<Rightarrow> py_error option"
  stdout_of :: "string \<Rightarrow> string \<Rightarrow> string"
  parameters_saved :: "unit result"
  logs_result :: "string \<Rightarrow> 'r result"
  print_result :: "'r \<Rightarrow> string \<Rightarrow> unit result"
  out_directory :: string
  skip_local_build :: bool

definition hosts_of :: "'r remote_env \<Rightarrow> string list" where
  "hosts_of env = selected_validators env @ selected_clients env"

text \<open>The constructor leaves the numberings undefined when machines are missing.\<close>

definition ip_to_node_id :: "'r remote_env \<Rightarrow> node_type \<Rightarrow> (string, nat) dict result" where
  "ip_to_node_id env t =
     (if selected_validators env = [] \<or> selected_clients env = [] then Inl AttributeError
      else let hs = (if t = VALIDATOR then selected_validators env else selected_clients env)
           in Inr (dict_of (zip hs [0..<length hs])))"

section \<open>Commands on machines\<close>

definition ssh :: "string \<Rightarrow> string \<Rightarrow> string list" where
  "ssh ip_addr cmd = [''ssh'', ip_addr, cmd]"

text \<open>
  A command on a group runs on all machines, also when it fails on some. With \<open>warn\<close> only machines that
  cannot be reached count as failures, otherwise commands that fail, too.
\<close>

definition group_run :: "'r remote_env \<Rightarrow> bool \<Rightarrow> string list \<Rightarrow> string \<Rightarrow> unit bench" where
  "group_run env warn hs cmd w =
     (if group_fails env warn (trace w) cmd then Inl GroupException else Inr (),
      w\<lparr>trace := trace w @ map (\<lambda>h. ssh h cmd) hs\<rparr>)"

definition on_host :: "'r remote_env \<Rightarrow> string \<Rightarrow> string \<Rightarrow> string bench" where
  "on_host env ip_addr cmd w =
     (case connection_raises env ip_addr cmd of Some e \<Rightarrow> (Inl e, w)
      | None \<Rightarrow> (Inr (stdout_of env ip_addr cmd), w\<lparr>trace := trace w @ [ssh ip_addr cmd]\<rparr>))"

definition start_on :: "'r remote_env \<Rightarrow> string \<Rightarrow> string \<Rightarrow> unit bench" where
  "start_on env ip_addr cmd = io_bind (on_host env ip_addr cmd) (\<lambda>_. io_return ())"

definition group_error_to :: "py_error \<Rightarrow> 'a bench \<Rightarrow> 'a bench" where
  "group_error_to e' m = io_catch m (\<lambda>e. io_raise (if e = GroupException then e' else e))"

definition for_items :: "'r remote_env \<Rightarrow> node_type \<Rightarrow> (string \<Rightarrow> nat \<Rightarrow> unit bench) \<Rightarrow> unit bench" where
  "for_items env t f = io_bind (io_lift (ip_to_node_id env t)) (\<lambda>d. io_for (\<lambda>(ip_addr, node_id). f ip_addr node_id) d)"

section \<open>Stopping\<close>

definition kill_sessions :: string where
  "kill_sessions = ''true && ('' @ kill_tmux_session @ '' || true)''"

definition stop_bitcoind :: "'r remote_env \<Rightarrow> node_type \<Rightarrow> string \<Rightarrow> nat \<Rightarrow> unit bench" where
  "stop_bitcoind env t ip_addr node_id = io_bind (io_lift (ip_to_node_id env t)) (\<lambda>d.
     start_on env ip_addr (kill_bitcoind [] (int node_id) t (int (length d)) True))"

definition kill_nodes :: "'r remote_env \<Rightarrow> unit bench" where
  "kill_nodes env =
     io_bind (if hosts_of env = [] then io_lift (all_hosts env) else io_return (hosts_of env)) (\<lambda>hs.
     io_bind (group_error_to BenchError (group_run env False hs kill_sessions)) (\<lambda>_.
     io_bind (for_items env VALIDATOR (stop_bitcoind env VALIDATOR)) (\<lambda>_.
     io_bind (for_items env CLIENT (stop_bitcoind env CLIENT)) (\<lambda>_.
       subprocess_run env [kill_tmux_session]))))"

section \<open>Preparing\<close>

definition clean_up :: "'r remote_env \<Rightarrow> unit bench" where
  "clean_up env =
     (let cmd = clean_logs @ '' ; '' @ clean_output @ '' ; '' @ mk_log_dir
      in io_bind (subprocess_run env [cmd]) (\<lambda>_.
           group_run env False (hosts_of env) (''cd '' @ remote_benchmark_path @ ''; '' @ cmd)))"

definition update_command :: "'r remote_env \<Rightarrow> string" where
  "update_command env = join '' && ''
     [''cd '' @ settings_repo_name env, ''git fetch -f'', ''git checkout -f '' @ settings_branch env,
      ''git reset --hard origin/'' @ settings_branch env, ''git pull -f'', ''cd build'',
      cmake (settings_cmake_options env), ''make -j4 generated_specs/fast'', ''make -j4 generated_engine/fast'',
      ''make -j4 itcoin-fbft/fast'', ''make -j4 main/fast'']"

definition preamble :: "'r remote_env \<Rightarrow> unit bench" where
  "preamble env =
     io_bind (subprocess_run env [kill_tmux_session]) (\<lambda>_.
     io_bind (group_run env True (hosts_of env) kill_tmux_session) (\<lambda>_.
     io_bind (subprocess_run env [create_tmux_session]) (\<lambda>_.
     io_bind (group_run env False (hosts_of env) create_tmux_session) (\<lambda>_.
       group_error_to BenchError
         (io_bind (if skip_local_build env then io_return ()
             else io_bind (subprocess_run env [''cmake'', ''-DITCOIN_CORE_SRC_DIR=../../itcoin-core'', ''..'', ''..'']) (\<lambda>_.
                    subprocess_run env [''make'', ''-j4'']))
           (\<lambda>_. group_run env False (hosts_of env) (update_command env)))))))"

text \<open>The JSON text of the numbered addresses, and its quotation as an argument of a command.\<close>

definition quote :: char where "quote = CHR 34"

definition json_of_ips :: "(nat \<times> string) list \<Rightarrow> string" where
  "json_of_ips ips = ''['' @ join '','' (map (\<lambda>(i, ip). ''['' @ nat_str i @ '','' @ [quote] @ ip @ [quote] @ '']'') ips) @ '']''"

definition json_quoted :: "string \<Rightarrow> string" where
  "json_quoted s = [quote] @ concat (map (\<lambda>c. if c = quote \<or> c = CHR 92 then [CHR 92, c] else [c]) s) @ [quote]"

definition upload_datadir :: "'r remote_env \<Rightarrow> node_type \<Rightarrow> int \<Rightarrow> string \<Rightarrow> nat \<Rightarrow> unit bench" where
  "upload_datadir env t nb_hosts ip_addr node_id =
     start_on env ip_addr (''rsync '' @ output_path @ ''/'' @ get_node_dirname (int node_id) t nb_hosts @ '' '' @
       remote_benchmark_path @ ''/'' @ output_path)"

definition upload_datadirs :: "'r remote_env \<Rightarrow> string list \<Rightarrow> node_type \<Rightarrow> unit bench" where
  "upload_datadirs env hs t =
     io_for (\<lambda>i. upload_datadir env t (int (length hs)) (hs ! i) i) [0..<length hs]"

definition setup_nodes :: "'r remote_env \<Rightarrow> bench_config \<Rightarrow> unit bench" where
  "setup_nodes env cfg = group_error_to FabricError
     (io_bind (io_lift (node_id_to_ip (nb_nodes cfg) (nb_clients cfg) (selected_validators env, selected_clients env))) (\<lambda>ips.
      io_bind (background_run env ''setup_signet''
        (setup_signet (executable env)
          (''--output-directory '' @ output_path @ '' --itcoin-core-dir '' @ itcoin_core_directory env @
           '' --nb-validators '' @ str_of (nb_nodes cfg) @ '' --nb-clients '' @ str_of (nb_clients cfg) @
           '' --genesis-block-timestamp '' @ str_of (genesis_timestamp env) @
           '' --target-block-time '' @ str_of (target_block_time cfg) @
           '' --remote-config '' @ json_quoted (json_of_ips ips)) @
         '' &> '' @ logs_path @ ''/setup_signet_logs.txt'') True) (\<lambda>_.
      io_bind (upload_datadirs env (selected_validators env) VALIDATOR) (\<lambda>_.
        upload_datadirs env (selected_clients env) CLIENT))))"

section \<open>Starting\<close>

definition remote_background_run_cmd :: "string \<Rightarrow> string \<Rightarrow> string" where
  "remote_background_run_cmd name command =
     ''tmux new-window -t '' @ TMUX_SESSION_NAME @ '' -n '' @ name @ '' '' @ command"

text \<open>The start of the commands that follow: they change to the benchmark directory first.\<close>

definition in_benchmark :: "string \<Rightarrow> string" where
  "in_benchmark cmd = ''cd '' @ remote_benchmark_path @ '' ; '' @ cmd"

definition bitcoin_options :: string where
  "bitcoin_options = ''--bitcoin-path '' @ bitcoin_path @ '' --itcoin-core-test-framework-path '' @
     itcoin_core_test_framework_path"

definition run_bitcoind_cmd :: "node_type \<Rightarrow> nat \<Rightarrow> nat \<Rightarrow> string" where
  "run_bitcoind_cmd t nb_of_type node_id =
     in_benchmark (remote_background_run_cmd (''run-signet-'' @ node_type_value t @ ''-'' @ nat_str node_id)
       (run_signet [] (bitcoin_options @ '' --id '' @ nat_str node_id @ '' --node-type '' @
          (if t = VALIDATOR then ''VALIDATOR'' else ''CLIENT'') @ '' --nb-of-type '' @ nat_str nb_of_type) True))"

definition run_bitcoinds :: "'r remote_env \<Rightarrow> node_type \<Rightarrow> unit bench" where
  "run_bitcoinds env t =
     io_bind (io_bind (io_lift (ip_to_node_id env t)) (\<lambda>d.
       for_items env t (\<lambda>ip_addr node_id. start_on env ip_addr (run_bitcoind_cmd t (length d) node_id)))) (\<lambda>_.
       sleep 6)"

definition run_miner :: "'r remote_env \<Rightarrow> bench_config \<Rightarrow> nat \<Rightarrow> unit bench" where
  "run_miner env cfg node_id =
     (let fault_info = (if int node_id < nb_faults cfg
            then ''--fault-info '' @ str_of (nb_faults cfg) @ '' '' @ fault_time cfg else [])
      in io_bind (io_lift (nth_host (selected_validators env) node_id)) (\<lambda>ip_addr.
           start_on env ip_addr (in_benchmark (remote_background_run_cmd (''run-replica-'' @ nat_str node_id)
             (run_replicas [] (''--itcoin-fbft-path '' @ remote_itcoin_fbft_path @ '' --id '' @ nat_str node_id @
               '' --nb-validators '' @ str_of (nb_nodes cfg) @ '' '' @ fault_info) True)))))"

definition run_validators :: "'r remote_env \<Rightarrow> bench_config \<Rightarrow> unit bench" where
  "run_validators env cfg = for_items env VALIDATOR (\<lambda>ip_addr node_id. run_miner env cfg node_id)"

definition get_address_cmd :: "bench_config \<Rightarrow> nat \<Rightarrow> string" where
  "get_address_cmd cfg node_id =
     bitcoin_path @ ''/bitcoin-cli -datadir='' @ get_remote_datadir (int node_id) CLIENT (nb_clients cfg) @ '' getnewaddress''"

definition get_client_addresses :: "'r remote_env \<Rightarrow> bench_config \<Rightarrow> string list bench" where
  "get_client_addresses env cfg =
     io_bind (io_lift (ip_to_node_id env CLIENT)) (\<lambda>d.
       io_collect (\<lambda>(ip_addr, node_id). io_bind (on_host env ip_addr (get_address_cmd cfg node_id))
         (\<lambda>out. io_return (rstrip out))) d)"

definition run_donor_on :: "'r remote_env \<Rightarrow> bench_config \<Rightarrow> string list \<Rightarrow> nat \<Rightarrow> unit bench" where
  "run_donor_on env cfg client_addrs node_id =
     io_bind (io_lift (nth_host (selected_validators env) node_id)) (\<lambda>ip_addr.
       start_on env ip_addr (in_benchmark (remote_background_run_cmd (''run-donor-'' @ nat_str node_id)
         (run_donor [] (bitcoin_options @ '' --id '' @ nat_str node_id @ '' --nb-validators '' @ str_of (nb_nodes cfg) @
           '' --client-address '' @ join '' --client-address '' client_addrs) True))))"

definition run_donors :: "'r remote_env \<Rightarrow> bench_config \<Rightarrow> string list \<Rightarrow> unit bench" where
  "run_donors env cfg client_addrs = for_items env VALIDATOR (\<lambda>ip_addr node_id. run_donor_on env cfg client_addrs node_id)"

definition run_client_on :: "'r remote_env \<Rightarrow> bench_config \<Rightarrow> nat \<Rightarrow> unit bench" where
  "run_client_on env cfg node_id =
     io_bind (io_lift (nth_host (selected_clients env) node_id)) (\<lambda>ip_addr.
       start_on env ip_addr (in_benchmark (remote_background_run_cmd (''run-client-'' @ nat_str node_id)
         (run_client [] (bitcoin_options @ '' --id '' @ nat_str node_id @ '' --nb-clients '' @ str_of (nb_clients cfg) @
           '' --warmup-duration '' @ str_of (warmup_duration cfg) @ '' --block-time '' @ str_of (target_block_time cfg) @
           '' --target-tx-rate '' @ rate cfg @ '' --tx-size '' @ str_of (tx_size cfg)) True))))"

definition run_clients :: "'r remote_env \<Rightarrow> bench_config \<Rightarrow> unit bench" where
  "run_clients env cfg = for_items env CLIENT (\<lambda>ip_addr node_id. run_client_on env cfg node_id)"

section \<open>The logs\<close>

definition download :: "'r remote_env \<Rightarrow> string list \<Rightarrow> (int \<Rightarrow> string result) \<Rightarrow> unit bench" where
  "download env hs log_file = io_for (\<lambda>i. io_bind (io_lift (log_file (int i))) (\<lambda>f.
     start_on env (hs ! i) (''get '' @ remote_benchmark_path @ ''/'' @ f))) [0..<length hs]"

definition process_logs :: "'r remote_env \<Rightarrow> bench_config \<Rightarrow> string \<Rightarrow> 'r bench" where
  "process_logs env cfg run_directory =
     io_bind (subprocess_run env [clean_logs @ '' ; '' @ mk_log_dir @ '' ; '' @
       mk_node_log_dirs (nb_nodes cfg) (nb_clients cfg)]) (\<lambda>_.
     io_bind (io_lift (parameters_saved env)) (\<lambda>_.
     io_bind (download env (selected_validators env) (\<lambda>i. miner_log_file i (nb_nodes cfg))) (\<lambda>_.
     io_bind (download env (selected_clients env) (\<lambda>i. client_log_file i (nb_clients cfg))) (\<lambda>_.
       io_lift (logs_result env run_directory)))))"

text \<open>The constructor has no parameter for removing the output directory: it is never forced.\<close>

definition RemoteBench :: "'r remote_env \<Rightarrow> bench_config \<Rightarrow> bool \<Rightarrow> 'r bench_ops" where
  "RemoteBench env cfg removal_confirmed =
     \<lparr>op_kill_nodes = kill_nodes env, op_clean_up = clean_up env, op_preamble = preamble env,
      op_setup = setup_nodes env cfg, op_run_validator_bitcoinds = run_bitcoinds env VALIDATOR,
      op_run_validators = run_validators env cfg, op_run_client_bitcoinds = run_bitcoinds env CLIENT,
      op_get_client_addresses = get_client_addresses env cfg, op_run_donors = run_donors env cfg,
      op_run_clients = run_clients env cfg, op_process_logs = process_logs env cfg,
      op_print_result = print_result env, output_directory = out_directory env,
      force = False, confirmed = removal_confirmed\<rparr>"

section \<open>The temporary directory\<close>

lemma group_run_keeps_tmp [io_keeps_intros]: "io_keeps (tmp_is b) (group_run env warn hs cmd)"
  by (simp add: io_keeps_def group_run_def tmp_is_def)

lemma on_host_keeps_tmp [io_keeps_intros]: "io_keeps (tmp_is b) (on_host env ip_addr cmd)"
  by (simp add: io_keeps_def on_host_def tmp_is_def split: option.splits)

lemma start_on_keeps_tmp [io_keeps_intros]: "io_keeps (tmp_is b) (start_on env ip_addr cmd)"
  unfolding start_on_def by (intro io_keeps_intros)

lemma setup_needs_tmp: "setup_nodes env cfg w = (Inr (), w') \<Longrightarrow> tmp_dir w"
  by (auto simp: setup_nodes_def group_error_to_def io_catch_Inr io_bind_Inr background_run_def Let_def split: if_splits)

interpretation remote_tmp: uses_tmp_dir "RemoteBench env cfg c"
proof unfold_locales
  show "io_keeps (tmp_is b) (op_clean_up (RemoteBench env cfg c))" for b
    unfolding RemoteBench_def bench_ops.simps clean_up_def Let_def by (intro io_keeps_intros)
  show "op_setup (RemoteBench env cfg c) w = (Inr (), w') \<Longrightarrow> tmp_dir w" for w w'
    by (simp add: RemoteBench_def setup_needs_tmp)
  show "io_keeps (tmp_is False) (op_process_logs (RemoteBench env cfg c) d)" for d
    unfolding RemoteBench_def bench_ops.simps process_logs_def download_def by (intro io_keeps_intros)
qed

text \<open>As on the local machine, only one run can succeed.\<close>

theorem several_remote_runs_never_succeed:
  assumes "2 \<le> nb_runs cfg"
  shows "\<nexists>rs w'. bench_run (RemoteBench env cfg c) cfg w = (Inr rs, w')"
  using remote_tmp.two_runs_fail [OF assms] by blast

section \<open>Stopping all machines\<close>

text \<open>The commands that stop a benchmark: the sessions on all machines, every node in the directory that
  was uploaded for it, and the local session.\<close>

definition stop_nodes_trace :: "string list \<Rightarrow> node_type \<Rightarrow> string list list" where
  "stop_nodes_trace hs t = map (\<lambda>(ip_addr, node_id). ssh ip_addr
     (kill_bitcoind [] (int node_id) t (int (length (dict_of (zip hs [0..<length hs])))) True))
     (dict_of (zip hs [0..<length hs]))"

definition stop_trace :: "'r remote_env \<Rightarrow> string list list" where
  "stop_trace env = map (\<lambda>h. ssh h kill_sessions) (hosts_of env) @
     stop_nodes_trace (selected_validators env) VALIDATOR @ stop_nodes_trace (selected_clients env) CLIENT @
     [[kill_tmux_session]]"

text \<open>Commands that start nothing on a machine: local ones and downloads.\<close>

definition quiet :: "string list \<Rightarrow> bool" where
  "quiet argv \<longleftrightarrow> (length argv = 3 \<and> argv ! 0 = ''ssh'' \<longrightarrow> prefix ''get '' (argv ! 2))"

definition remote_stopped :: "'r remote_env \<Rightarrow> bench_world \<Rightarrow> bool" where
  "remote_stopped env w \<longleftrightarrow> (\<exists>us vs. trace w = us @ stop_trace env @ vs \<and> list_all quiet vs)"

text \<open>
  What a remote benchmark relies on: it has machines, the commands that stop the nodes can be run,
  the machines can be updated, and nothing outside raises a \<open>BenchError\<close>.
\<close>

definition remote_ok :: "'r remote_env \<Rightarrow> bool" where
  "remote_ok env \<longleftrightarrow> selected_validators env \<noteq> [] \<and> selected_clients env \<noteq> [] \<and>
     (\<forall>tr. \<not> group_fails env False tr kill_sessions \<and> \<not> group_fails env False tr (update_command env)) \<and>
     (\<forall>ip i t n. connection_raises env ip (kill_bitcoind [] i t n True) = None) \<and>
     run_raises env [kill_tmux_session] = None \<and>
     (\<forall>argv. run_raises env argv \<noteq> Some BenchError \<and> run_raises env argv \<noteq> Some GroupException) \<and>
     (\<forall>ip cmd. connection_raises env ip cmd \<noteq> Some BenchError) \<and>
     raises_in (- {BenchError}) (parameters_saved env) \<and> (\<forall>d. raises_in (- {BenchError}) (logs_result env d)) \<and>
     (\<forall>r f. raises_in (- {BenchError}) (print_result env r f))"

lemma start_on_runs:
  "connection_raises env ip_addr cmd = None \<Longrightarrow> start_on env ip_addr cmd w = (Inr (), w\<lparr>trace := trace w @ [ssh ip_addr cmd]\<rparr>)"
  by (simp add: start_on_def on_host_def io_bind_def)

lemma stop_nodes_run:
  assumes "remote_ok env"
  shows "for_items env t (stop_bitcoind env t) w = (Inr (), w\<lparr>trace := trace w @ stop_nodes_trace
     (if t = VALIDATOR then selected_validators env else selected_clients env) t\<rparr>)"
proof -
  let ?hs = "if t = VALIDATOR then selected_validators env else selected_clients env"
  let ?d = "dict_of (zip ?hs [0..<length ?hs])"
  have ids: "ip_to_node_id env t = Inr ?d" using assms by (simp add: ip_to_node_id_def remote_ok_def Let_def)
  have "io_for (\<lambda>(ip_addr, node_id). stop_bitcoind env t ip_addr node_id) d w =
      (Inr (), w\<lparr>trace := trace w @ map (\<lambda>(ip_addr, node_id). ssh ip_addr
        (kill_bitcoind [] (int node_id) t (int (length ?d)) True)) d\<rparr>)" for d w
  proof (induction d arbitrary: w)
    case (Cons p d)
    have "connection_raises env (fst p) (kill_bitcoind [] (int (snd p)) t (int (length ?d)) True) = None"
      using assms by (simp add: remote_ok_def)
    then show ?case using Cons.IH ids
      by (cases p) (simp add: stop_bitcoind_def start_on_runs io_bind_def)
  qed simp
  then show ?thesis using ids by (simp add: for_items_def io_bind_def stop_nodes_trace_def)
qed

lemma kill_nodes_runs:
  assumes "remote_ok env"
  shows "kill_nodes env w = (Inr (), w\<lparr>trace := trace w @ stop_trace env\<rparr>)"
proof -
  have "hosts_of env \<noteq> []" "\<not> group_fails env False tr kill_sessions" "run_raises env [kill_tmux_session] = None" for tr
    using assms by (simp_all add: hosts_of_def remote_ok_def)
  then show ?thesis
    by (simp add: kill_nodes_def io_bind_def group_error_to_def io_catch_def group_run_def stop_nodes_run [OF assms]
        subprocess_run_def stop_trace_def)
qed

lemma quiet_run_keeps [io_keeps_intros]:
  assumes "quiet argv"
  shows "io_keeps (remote_stopped env) (subprocess_run env argv)"
proof -
  have "remote_stopped env (w\<lparr>trace := trace w @ [argv]\<rparr>)" if st: "remote_stopped env w" for w
  proof -
    obtain us vs where v: "trace w = us @ stop_trace env @ vs" "list_all quiet vs"
      using st by (auto simp: remote_stopped_def)
    then show ?thesis using assms unfolding remote_stopped_def
      by (intro exI [of _ us] exI [of _ "vs @ [argv]"]) simp
  qed
  then show ?thesis by (auto simp: io_keeps_def subprocess_run_def split: option.splits)
qed

lemma quiet_start_keeps [io_keeps_intros]:
  assumes "quiet (ssh ip_addr cmd)"
  shows "io_keeps (remote_stopped env) (start_on env ip_addr cmd)"
proof -
  have "remote_stopped env (w\<lparr>trace := trace w @ [ssh ip_addr cmd]\<rparr>)" if st: "remote_stopped env w" for w
  proof -
    obtain us vs where v: "trace w = us @ stop_trace env @ vs" "list_all quiet vs"
      using st by (auto simp: remote_stopped_def)
    then show ?thesis using assms unfolding remote_stopped_def
      by (intro exI [of _ us] exI [of _ "vs @ [ssh ip_addr cmd]"]) simp
  qed
  then show ?thesis by (auto simp: io_keeps_def start_on_def on_host_def io_bind_def split: option.splits)
qed

lemma process_logs_keeps_stopped: "io_keeps (remote_stopped env) (process_logs env cfg d)"
proof -
  have "quiet [x]" "quiet (ssh h (''get '' @ y))" for x h y by (simp_all add: quiet_def ssh_def)
  then show ?thesis unfolding process_logs_def download_def by (intro io_keeps_intros)
qed

lemma dict_loop_raises: "(\<And>i n. io_raises_in E (f i n)) \<Longrightarrow> AttributeError \<in> E \<Longrightarrow> io_raises_in E (for_items env t f)"
  unfolding for_items_def by (intro raises_intros) (auto simp: ip_to_node_id_def raises_in_def Let_def)

lemma group_error_out:
  assumes "io_raises_in (E - {GroupException}) m"
  shows "io_raises_in E (group_error_to e' m)"
  unfolding io_raises_in_def raises_in_def
proof (intro allI impI)
  fix w e
  assume e: "fst (group_error_to e' m w) = Inl e"
  obtain r v where m: "m w = (r, v)" by (rule prod.exhaust)
  have "x \<in> E - {GroupException}" if "r = Inl x" for x
    using assms m that unfolding io_raises_in_def raises_in_def by (metis fst_conv)
  then show "e \<in> E" using e m by (cases r) (auto simp: group_error_to_def io_catch_def)
qed

lemma group_error_in:
  assumes "io_raises_in E m" "e' \<in> E"
  shows "io_raises_in E (group_error_to e' m)"
  unfolding io_raises_in_def raises_in_def
proof (intro allI impI)
  fix w e
  assume e: "fst (group_error_to e' m w) = Inl e"
  obtain r v where m: "m w = (r, v)" by (rule prod.exhaust)
  have "x \<in> E" if "r = Inl x" for x
    using assms(1) m that unfolding io_raises_in_def raises_in_def by (metis fst_conv)
  then show "e \<in> E" using e m assms(2) by (cases r) (auto simp: group_error_to_def io_catch_def split: if_splits)
qed

lemma RemoteBench_no_bench_error:
  assumes "remote_ok env"
  defines "E \<equiv> - {BenchError}"
  shows "io_raises_in E (clean_up env)" "io_raises_in E (setup_nodes env cfg)"
    "io_raises_in E (run_bitcoinds env t)" "io_raises_in E (run_validators env cfg)"
    "io_raises_in E (get_client_addresses env cfg)" "io_raises_in E (run_donors env cfg addrs)"
    "io_raises_in E (run_clients env cfg)" "io_raises_in E (process_logs env cfg d)"
    "raises_in E (print_result env r f)" "io_raises_in E (preamble env)"
proof -
  have "\<forall>argv. run_raises env argv \<noteq> Some BenchError" using assms by (simp add: remote_ok_def)
  note bg = background_run_no_bench_error [OF this] and run = run_no_bench_error [OF this]
  have E: "GroupException \<in> E" "AttributeError \<in> E" "IndexError \<in> E" "AssertionError \<in> E" "FabricError \<in> E"
    by (simp_all add: E_def)
  have run: "io_raises_in E (subprocess_run env argv)" for argv using run by (simp add: E_def)
  have bg: "io_raises_in E (background_run env n cmd b)" for n cmd b using bg by (simp add: E_def)
  have grp: "io_raises_in E (group_run env warn hs cmd)" for warn hs cmd
    using E by (simp add: io_raises_in_def raises_in_def group_run_def)
  have host: "io_raises_in E (on_host env ip cmd)" for ip cmd
    using assms by (auto simp: io_raises_in_def raises_in_def on_host_def remote_ok_def E_def split: option.splits)
  have start: "io_raises_in E (start_on env ip cmd)" for ip cmd
    unfolding start_on_def by (intro raises_intros host)
  have nth: "raises_in E (nth_host hs i)" for hs i using E by (simp add: nth_host_def raises_in_def)
  have ids: "raises_in E (ip_to_node_id env t)" for t using E by (auto simp: ip_to_node_id_def raises_in_def Let_def)
  have rm: "raises_in E (rmap g xs)" if "\<And>x. raises_in E (g x)" for g :: "nat \<Rightarrow> (nat \<times> string) result" and xs
    using that by (induction xs) (auto intro!: raises_intros)
  show "io_raises_in E (clean_up env)" unfolding clean_up_def Let_def by (intro raises_intros run grp)
  show "io_raises_in E (setup_nodes env cfg)"
    unfolding setup_nodes_def node_id_to_ip_def upload_datadirs_def upload_datadir_def
    by (intro group_error_in raises_intros bg start rm nth E)
  show "io_raises_in E (run_bitcoinds env t)"
    unfolding run_bitcoinds_def by (intro raises_intros dict_loop_raises start ids E)
      (simp add: io_raises_in_def raises_in_def sleep_def)
  show "io_raises_in E (run_validators env cfg)"
    unfolding run_validators_def run_miner_def Let_def by (intro dict_loop_raises raises_intros start nth E)
  show "io_raises_in E (run_donors env cfg addrs)"
    unfolding run_donors_def run_donor_on_def by (intro dict_loop_raises raises_intros start nth E)
  show "io_raises_in E (run_clients env cfg)"
    unfolding run_clients_def run_client_on_def by (intro dict_loop_raises raises_intros start nth E)
  show "io_raises_in E (get_client_addresses env cfg)"
    unfolding get_client_addresses_def case_prod_beta by (intro raises_intros host ids)
  have logs: "raises_in E (miner_log_file i n)" "raises_in E (client_log_file i n)" for i n
    using E by (auto simp: miner_log_file_def client_log_file_def raises_in_def rbind_eq_Inl py_assert_def split: if_splits)
  have "raises_in E (parameters_saved env)" "raises_in E (logs_result env d)" using assms by (simp_all add: remote_ok_def E_def)
  then show "io_raises_in E (process_logs env cfg d)"
    unfolding process_logs_def download_def by (intro raises_intros run start logs) assumption+
  show "raises_in E (print_result env r f)" using assms by (simp add: remote_ok_def E_def)
  have quiet_run: "io_raises_in (E - {GroupException}) (subprocess_run env argv)" for argv
    using assms by (auto simp: io_raises_in_def raises_in_def subprocess_run_def remote_ok_def E_def split: option.splits)
  have upd: "io_raises_in (E - {GroupException}) (group_run env False hs (update_command env))" for hs
    using assms by (simp add: io_raises_in_def raises_in_def group_run_def remote_ok_def)
  have "io_raises_in (E - {GroupException})
      (io_bind (if skip_local_build env then io_return () else io_bind (subprocess_run env a) (\<lambda>_. subprocess_run env b))
        (\<lambda>_. group_run env False (hosts_of env) (update_command env)))" for a b
    by (intro raises_intros quiet_run upd)
  then have "io_raises_in E (group_error_to BenchError
      (io_bind (if skip_local_build env then io_return () else io_bind (subprocess_run env a) (\<lambda>_. subprocess_run env b))
        (\<lambda>_. group_run env False (hosts_of env) (update_command env))))" for a b
    by (rule group_error_out)
  then show "io_raises_in E (preamble env)"
    unfolding preamble_def by (intro raises_intros run grp)
qed

interpretation remote_stops: stops_nodes "RemoteBench env cfg c" "remote_stopped env" "remote_ok env"
proof unfold_locales
  assume ok: "remote_ok env"
  show "\<exists>w'. op_kill_nodes (RemoteBench env cfg c) w = (Inr (), w') \<and> remote_stopped env w'" for w
    by (simp add: RemoteBench_def kill_nodes_runs [OF ok] remote_stopped_def)
      (intro exI [of _ "trace w"] exI [of _ "[]"], simp)
qed (simp_all add: RemoteBench_def RemoteBench_no_bench_error process_logs_keeps_stopped remote_stopped_def)


section \<open>A run that returns\<close>

definition remote_works :: "'r remote_env \<Rightarrow> bench_config \<Rightarrow> bool" where
  "remote_works env cfg \<longleftrightarrow> (\<forall>argv. run_raises env argv = None) \<and> (\<forall>n. temp_name env n \<noteq> []) \<and>
     (\<forall>warn tr cmd. \<not> group_fails env warn tr cmd) \<and> (\<forall>ip cmd. connection_raises env ip cmd = None) \<and>
     distinct (selected_validators env) \<and> distinct (selected_clients env) \<and>
     1 \<le> nb_nodes cfg \<and> 1 \<le> nb_clients cfg \<and>
     int (length (selected_validators env)) = nb_nodes cfg \<and> int (length (selected_clients env)) = nb_clients cfg \<and>
     (\<exists>u. parameters_saved env = Inr u) \<and> (\<forall>d. \<exists>r. logs_result env d = Inr r) \<and>
     (\<forall>r f. \<exists>u. print_result env r f = Inr u)"

lemma RemoteBench_total:
  assumes "remote_works env cfg"
  defines "T \<equiv> tmp_is True"
  shows "io_total (tmp_is b) (clean_up env) (tmp_is b)" "io_total T (preamble env) T" "io_total T (setup_nodes env cfg) T"
    "io_total T (run_bitcoinds env t) T" "io_total T (run_validators env cfg) T"
    "io_total T (get_client_addresses env cfg) T" "io_total T (run_donors env cfg addrs) T"
    "io_total T (run_clients env cfg) T" "io_total (tmp_is b) (kill_nodes env) (tmp_is b)"
    "io_total (tmp_is b) (process_logs env cfg d) (tmp_is b)"
proof -
  have works: "\<forall>argv. run_raises env argv = None" "\<forall>n. temp_name env n \<noteq> []"
    and conn: "\<And>warn tr cmd. \<not> group_fails env warn tr cmd" "\<And>ip cmd. connection_raises env ip cmd = None"
    and hs: "selected_validators env \<noteq> []" "selected_clients env \<noteq> []"
    and dist: "distinct (selected_validators env)" "distinct (selected_clients env)"
    and len: "int (length (selected_validators env)) = nb_nodes cfg" "int (length (selected_clients env)) = nb_clients cfg"
    using assms(1) by (auto simp: remote_works_def)
  have run: "io_total (tmp_is b) (subprocess_run env argv) (tmp_is b)" for argv b
    using works by (intro subprocess_total) simp
  have bg: "io_total T (background_run env n cmd b) T" for n cmd b
    unfolding T_def by (rule background_run_total [OF works(1) _ works(2)]) simp
  have grp: "io_total (tmp_is b) (group_run env warn hs cmd) (tmp_is b)" for warn hs cmd b
    using conn(1) by (simp add: io_total_def group_run_def tmp_is_def)
  have host: "io_total (tmp_is b) (on_host env ip cmd) (tmp_is b)" for ip cmd b
    using conn(2) by (simp add: io_total_def on_host_def tmp_is_def)
  have start: "io_total (tmp_is b) (start_on env ip cmd) (tmp_is b)" for ip cmd b
    unfolding start_on_def by (intro total_intros host)
  have err: "io_total P m P \<Longrightarrow> io_total P (group_error_to e m) P" for P e and m :: "unit bench"
    unfolding group_error_to_def by (rule io_total_catch)
  have ids: "ip_to_node_id env t = Inr (dict_of (zip (if t = VALIDATOR then selected_validators env else selected_clients env)
      [0..<length (if t = VALIDATOR then selected_validators env else selected_clients env)]))" for t
    using hs by (simp add: ip_to_node_id_def Let_def)
  have items: "io_total P (for_items env t f) P"
    if "\<And>ip i. i < length (if t = VALIDATOR then selected_validators env else selected_clients env) \<Longrightarrow> io_total P (f ip i) P" for P t f
  proof -
    let ?hs = "if t = VALIDATOR then selected_validators env else selected_clients env"
    have "dict_of (zip ?hs [0..<length ?hs]) = zip ?hs [0..<length ?hs]"
      using dist by (intro dict_of_distinct) simp
    moreover have "io_total P (io_for (\<lambda>(ip_addr, node_id). f ip_addr node_id) (zip ?hs [0..<length ?hs])) P"
      by (rule io_total_for) (auto dest!: set_zip_rightD intro: that)
    moreover have "io_bind (io_lift (Inr d)) k = k d" for d :: "(string, nat) dict" and k :: "_ \<Rightarrow> unit bench"
      by (simp add: fun_eq_iff)
    ultimately show ?thesis by (simp only: for_items_def ids)
  qed
  show "io_total (tmp_is b) (clean_up env) (tmp_is b)" unfolding clean_up_def Let_def by (intro total_intros run grp)
  show "io_total T (preamble env) T"
    unfolding preamble_def T_def by (intro total_intros err run grp)
  have val: "\<exists>h. nth_host (selected_validators env) i = Inr h" if "i < length (selected_validators env)" for i
    using that by (simp add: nth_host_def)
  have cli: "\<exists>h. nth_host (selected_clients env) i = Inr h" if "i < length (selected_clients env)" for i
    using that by (simp add: nth_host_def)
  have "\<exists>ips. node_id_to_ip (nb_nodes cfg) (nb_clients cfg) (selected_validators env, selected_clients env) = Inr ips"
    using len unfolding node_id_to_ip_def nth_hosts by auto
  then obtain ips where ips: "node_id_to_ip (nb_nodes cfg) (nb_clients cfg) (selected_validators env, selected_clients env) = Inr ips"
    by blast
  show "io_total T (setup_nodes env cfg) T"
    unfolding setup_nodes_def upload_datadirs_def upload_datadir_def T_def
    unfolding ips by (intro err total_intros start bg [unfolded T_def]) (rule refl)
  have slp: "io_total T (sleep n) T" for n by (simp add: io_total_def sleep_def T_def tmp_is_def)
  show "io_total T (run_bitcoinds env t) T"
    unfolding run_bitcoinds_def ids by (intro total_intros items slp) (rule refl, simp add: T_def start)
  have lift: "io_total T (io_bind (io_lift r) k) T" if "\<exists>x. r = Inr x" "\<And>x. io_total T (k x) T" for r :: "string result" and k :: "string \<Rightarrow> unit bench"
    using that by (auto intro!: total_intros)
  have start_T: "io_total T (start_on env ip cmd) T" for ip cmd by (simp add: T_def start)
  show "io_total T (run_validators env cfg) T"
    unfolding run_validators_def run_miner_def Let_def by (intro items lift val start_T) simp
  show "io_total T (get_client_addresses env cfg) T"
    unfolding get_client_addresses_def case_prod_beta T_def ids by (intro total_intros host) (rule refl)
  show "io_total T (run_donors env cfg addrs) T"
    unfolding run_donors_def run_donor_on_def by (intro items lift val start_T) simp
  show "io_total T (run_clients env cfg) T"
    unfolding run_clients_def run_client_on_def by (intro items lift cli start_T) simp
  have stop: "io_total (tmp_is b) (stop_bitcoind env t ip i) (tmp_is b)" for t ip i b
    unfolding stop_bitcoind_def ids by (intro total_intros start) (rule refl)
  have "hosts_of env \<noteq> []" using hs by (simp add: hosts_of_def)
  then show "io_total (tmp_is b) (kill_nodes env) (tmp_is b)"
    unfolding kill_nodes_def by simp (intro total_intros err grp items stop run)
  have down: "io_total (tmp_is b) (download env hs f) (tmp_is b)" if "\<And>i. \<exists>x. f (int i) = Inr x" for hs f
  proof -
    have one: "io_total (tmp_is b) (io_bind (io_lift (f (int i))) (\<lambda>x. start_on env (hs ! i) (g x))) (tmp_is b)" for i g
      using that [of i] by (auto intro!: total_intros start)
    show ?thesis unfolding download_def by (intro io_total_for one)
  qed
  obtain u where saved: "parameters_saved env = Inr u" using assms(1) by (auto simp: remote_works_def)
  obtain res where res: "logs_result env d = Inr res" using assms(1) unfolding remote_works_def by blast
  show "io_total (tmp_is b) (process_logs env cfg d) (tmp_is b)"
    unfolding process_logs_def saved res
    by (intro total_intros run down; (rule refl)?) (simp_all add: miner_log_file_def client_log_file_def py_assert_def)
qed

interpretation remote_succeeds: can_succeed "RemoteBench env cfg c" "remote_works env cfg"
  by unfold_locales (simp_all add: RemoteBench_def RemoteBench_total, simp add: remote_works_def)

section \<open>A machine that fails\<close>

text \<open>
  The handler of a run knows failed commands and unreadable logs only. If a client cannot give an
  address, fabric's exception goes through it, and the nodes that were started stay running.
\<close>

theorem remote_failure_leaves_nodes:
  assumes "selected_validators env \<noteq> []" and "selected_clients env = ip_addr # ips"
    and "connection_raises env ip_addr (get_address_cmd cfg 0) = Some UnexpectedExit"
    and "clean_up env w = (Inr (), w1)" "setup_nodes env cfg w1 = (Inr (), w2)"
      "run_bitcoinds env VALIDATOR w2 = (Inr (), w3)" "run_validators env cfg w3 = (Inr (), w4)"
      "run_bitcoinds env CLIENT w4 = (Inr (), w5)"
    and "distinct (selected_clients env)"
  shows "run_once (RemoteBench env cfg c) cfg i w = (Inl UnexpectedExit, w5)"
proof -
  have "dict_of (zip (selected_clients env) [0..<length (selected_clients env)]) =
      zip (selected_clients env) [0..<length (selected_clients env)]"
    using assms(9) by (intro dict_of_distinct) simp
  also have "\<dots> = (ip_addr, 0) # zip ips [1..<length (selected_clients env)]"
    unfolding assms(2) by (subst upt_conv_Cons) (simp_all del: upt_Suc)
  finally have "ip_to_node_id env CLIENT = Inr ((ip_addr, 0) # zip ips [1..<length (selected_clients env)])"
    using assms(1,2) by (simp add: ip_to_node_id_def)
  then have "get_client_addresses env cfg w5 = (Inl UnexpectedExit, w5)"
    using assms(3) by (simp add: get_client_addresses_def on_host_def)
  then have "run_pass (RemoteBench env cfg c) cfg i w = (Inl UnexpectedExit, w5)"
    using assms(4-8) by (simp add: run_pass_def RemoteBench_def)
  then show ?thesis by (simp add: run_once_def io_catch_def)
qed

section \<open>An example\<close>

definition remote_example :: "unit remote_env" where
  "remote_example = \<lparr>run_raises = (\<lambda>_. None), tmp_path = ''./t'', temp_name = (\<lambda>_. ''./t/x''),
     executable = ''python3'', itcoin_core_directory = ''/c'', settings_branch = ''main'', settings_repo_name = ''itcoin-fbft'',
     settings_cmake_options = ''..'', genesis_timestamp = 0, selected_validators = [''v''], selected_clients = [''c''],
     all_hosts = Inr [''v'', ''c''], group_fails = (\<lambda>_ _ _. False), connection_raises = (\<lambda>_ _. None),
     stdout_of = (\<lambda>_ _. ''a''), parameters_saved = Inr (), logs_result = (\<lambda>_. Inr ()), print_result = (\<lambda>_ _. Inr ()),
     out_directory = ''out'', skip_local_build = True\<rparr>"

definition remote_config :: bench_config where
  "remote_config = \<lparr>nb_nodes = 1, nb_clients = 1, nb_runs = 1, duration = 25, nb_faults = 0,
     warmup_duration = 0, target_block_time = 60, tx_size = 9, rate = ''1'', fault_time = []\<rparr>"

definition remote_world :: bench_world where
  "remote_world = \<lparr>tmp_dir = True, output_dir = False, trace = [], slept = []\<rparr>"

lemma remote_example_ok: "remote_ok remote_example"
  by (simp add: remote_ok_def remote_example_def raises_in_def)

lemma remote_example_works: "remote_works remote_example remote_config"
  by (simp add: remote_works_def remote_example_def remote_config_def)


end
