(* ===== verification/Bench_Tasks.thy ===== *)
theory Bench_Tasks
  imports Local_Bench Remote_Bench
begin

text \<open>
  The tasks of \<^verbatim>\<open>benchmark/fabfile.py\<close> that run benchmarks. The parameters read from a file are an argument,
  as in the other theories. Every benchmark has a temporary directory of its own.
\<close>

section \<open>One benchmark\<close>

text \<open>A task reports a \<open>BenchError\<close> and ends.\<close>

definition bench_task :: "'r list bench \<Rightarrow> unit bench" where
  "bench_task m = io_catch (io_bind m (\<lambda>_. io_return ())) (\<lambda>e. if e = BenchError then io_return () else io_raise e)"

definition new_bench :: "unit bench" where
  "new_bench w = (Inr (), w\<lparr>tmp_dir := True\<rparr>)"

definition local_task :: "'r bench_env \<Rightarrow> bench_config result \<Rightarrow> unit bench" where
  "local_task env params = bench_task
     (io_bind (io_lift params) (\<lambda>cfg. io_bind new_bench (\<lambda>_. bench_run (LocalBench (env\<lparr>force_removal := False\<rparr>) cfg) cfg)))"

definition remote_task :: "'r remote_env \<Rightarrow> bench_config result \<Rightarrow> bool \<Rightarrow> unit bench" where
  "remote_task env params remove_ok = bench_task
     (io_bind (io_lift params) (\<lambda>cfg. io_bind new_bench (\<lambda>_. bench_run (RemoteBench (env\<lparr>skip_local_build := True\<rparr>) cfg remove_ok) cfg)))"

section \<open>All experiments\<close>

text \<open>
  The files of a directory, each with the parameters read from it, are run in the reverse order of their names; every
  experiment has a directory of its own in the new output directory.
\<close>

definition new_experiment :: "unit bench" where
  "new_experiment w = (Inr (), w\<lparr>tmp_dir := True, output_dir := False\<rparr>)"

text \<open>The benchmark of one experiment, on the local machine or on remote ones. Its directory is new.\<close>

definition experiment_ops :: "'r bench_env + 'r remote_env \<Rightarrow> string \<Rightarrow> bench_config \<Rightarrow> 'r bench_ops" where
  "experiment_ops machines dir cfg =
     (case machines of
        Inl env \<Rightarrow> LocalBench (env\<lparr>bench_env.out_directory := dir, force_removal := False\<rparr>) cfg
      | Inr env \<Rightarrow> RemoteBench (env\<lparr>remote_env.out_directory := dir, skip_local_build := True\<rparr>) cfg False)"

definition run_experiment :: "'r bench_env + 'r remote_env \<Rightarrow> string \<Rightarrow> string \<times> bench_config result \<Rightarrow> unit bench" where
  "run_experiment machines out_dir = (\<lambda>(stem, params).
     io_bind (io_lift params) (\<lambda>cfg.
     io_bind new_experiment (\<lambda>_.
     io_bind (bench_run (experiment_ops machines (out_dir @ ''/'' @ stem) cfg) cfg) (\<lambda>_.
       io_return ()))))"

definition run_all :: "'r bench_env + 'r remote_env \<Rightarrow> bool \<Rightarrow> bool \<Rightarrow> string \<Rightarrow>
    (string \<times> bench_config result) list \<Rightarrow> unit bench" where
  "run_all machines exists remove_ok out_dir configs w =
     (case remove_dir_or_fail exists False remove_ok of
        Inl e \<Rightarrow> (Inl e, w)
      | Inr _ \<Rightarrow> io_for (run_experiment machines out_dir) (rev (sort_key (\<lambda>(stem, _). stem @ ''.json'') configs)) w)"

lemma run_experiment_returns_iff:
  assumes "local_works env" and "1 \<le> nb_runs cfg"
  shows "(\<exists>w'. run_experiment (Inl env) out (stem, Inr cfg) w = (Inr (), w')) \<longleftrightarrow> nb_runs cfg = 1"
proof -
  let ?env = "env\<lparr>bench_env.out_directory := out @ ''/'' @ stem, force_removal := False\<rparr>" and ?w = "w\<lparr>tmp_dir := True, output_dir := False\<rparr>"
  have works: "local_works ?env" using assms(1) by (simp add: local_works_def)
  have run: "run_experiment (Inl env) out (stem, Inr cfg) w =
      io_bind (bench_run (LocalBench ?env cfg) cfg) (\<lambda>_. io_return ()) ?w"
    by (simp add: run_experiment_def experiment_ops_def new_experiment_def io_bind_def)
  show ?thesis
  proof (cases "nb_runs cfg = 1")
    case True
    have "\<exists>r w'. bench_run (LocalBench ?env cfg) cfg ?w = (Inr [r], w')"
      by (rule local_succeeds.one_run_returns [OF works True]) simp_all
    then show ?thesis using True run by auto
  next
    case False
    then have "2 \<le> nb_runs cfg" using assms(2) by simp
    then have "bench_run (LocalBench ?env cfg) cfg ?w \<noteq> (Inr rs, w')" for rs w' by (rule local_tmp.two_runs_fail)
    then show ?thesis using False run by (auto simp: io_bind_Inr)
  qed
qed

lemma io_for_returns_iff:
  assumes "\<And>x s. x \<in> set xs \<Longrightarrow> (\<exists>s'. f x s = (Inr (), s')) \<longleftrightarrow> P x"
  shows "(\<exists>s'. io_for f xs s = (Inr (), s')) \<longleftrightarrow> (\<forall>x \<in> set xs. P x)"
  using assms
proof (induction xs arbitrary: s)
  case (Cons x xs)
  have "(\<exists>s'. io_for f (x # xs) s = (Inr (), s')) \<longleftrightarrow> (\<exists>t s'. f x s = (Inr (), t) \<and> io_for f xs t = (Inr (), s'))"
    by (auto simp: io_bind_Inr)
  also have "\<dots> \<longleftrightarrow> P x \<and> (\<forall>y \<in> set xs. P y)"
    using Cons.prems [of x s] Cons.IH Cons.prems by (metis list.set_intros(1,2))
  finally show ?case by simp
qed simp

text \<open>A series of experiments ends only if no experiment asks for a second run. On a machine where nothing fails,
  \<open>run_all\<close> works through all files exactly if every one of them has one run; otherwise an exception
  ends it, and the experiments that follow are not run.\<close>

theorem run_all_returns_iff:
  assumes "local_works env" and "\<forall>(stem, params) \<in> set configs. \<exists>cfg. params = Inr cfg \<and> 1 \<le> nb_runs cfg"
    and "remove_ok \<or> \<not> exists"
  shows "(\<exists>w'. run_all (Inl env) exists remove_ok out configs w = (Inr (), w')) \<longleftrightarrow>
    (\<forall>(stem, params) \<in> set configs. \<exists>cfg. params = Inr cfg \<and> nb_runs cfg = 1)"
proof -
  have "\<exists>u. remove_dir_or_fail exists False remove_ok = Inr u"
    using assms(3) by (auto simp: remove_dir_or_fail_def)
  then have "run_all (Inl env) exists remove_ok out configs w =
      io_for (run_experiment (Inl env) out) (rev (sort_key (\<lambda>(stem, _). stem @ ''.json'') configs)) w"
    by (auto simp: run_all_def)
  moreover have "(\<exists>s'. run_experiment (Inl env) out x s = (Inr (), s')) \<longleftrightarrow> (case x of (stem, params) \<Rightarrow> \<exists>cfg. params = Inr cfg \<and> nb_runs cfg = 1)"
    if "x \<in> set configs" for x s
    using that assms(2) run_experiment_returns_iff [OF assms(1)] by fastforce
  ultimately show ?thesis
    using io_for_returns_iff [of "rev (sort_key (\<lambda>(stem, _). stem @ ''.json'') configs)" "run_experiment (Inl env) out"] by auto
qed

theorem run_all_returns_iff_witness:
  "(\<exists>w'. run_all (Inl example_env) False False ''out'' [(''a'', Inr (example_config 1))] example_world = (Inr (), w')) \<and>
   (\<nexists>w'. run_all (Inl example_env) False False ''out'' [(''a'', Inr (example_config 2)), (''b'', Inr (example_config 1))] example_world = (Inr (), w'))"
proof -
  have "\<forall>(stem, params) \<in> set [(''a'', Inr (example_config 1))]. \<exists>cfg. params = Inr cfg \<and> 1 \<le> nb_runs cfg"
    "\<forall>(stem, params) \<in> set [(''a'', Inr (example_config 2)), (''b'', Inr (example_config 1))]. \<exists>cfg. params = Inr cfg \<and> 1 \<le> nb_runs cfg"
    by (simp_all add: example_config_def)
  from this [THEN run_all_returns_iff [OF example_works]] show ?thesis by (simp add: example_config_def)
qed

end
