(* ===== verification/Testbed_Tasks.thy ===== *)
theory Testbed_Tasks
  imports Bench_Hosts
begin

text \<open>
  The tasks of \<^verbatim>\<open>benchmark/fabfile.py\<close> that create, start, stop and destroy a testbed. Every task makes its
  instance manager from the settings, whose document is an argument, and reports a \<open>BenchError\<close>.
\<close>

section \<open>The tasks\<close>

definition report_bench_error :: "unit result \<times> 's \<Rightarrow> unit result \<times> 's" where
  "report_bench_error p = (if fst p = Inl BenchError then (Inr (), snd p) else p)"

definition with_manager ::
  "py_val result \<Rightarrow> (string list \<Rightarrow> aws_world \<Rightarrow> (unit result \<times> aws_world) option) \<Rightarrow>
   aws_world \<Rightarrow> (unit result \<times> aws_world) option" where
  "with_manager document f w =
     (case InstanceManager_make document of Inl e \<Rightarrow> Some (Inl e, w) | Inr regions \<Rightarrow> f regions w)"

text \<open>Instances for the validators and then, if no exception was raised, for the clients.\<close>

definition create_testbed :: "aws \<Rightarrow> py_val result \<Rightarrow> int list \<Rightarrow> int \<Rightarrow> int \<Rightarrow>
    aws_world \<Rightarrow> (unit result \<times> aws_world) option" where
  "create_testbed env document ports nodes clients w =
     (case with_manager document (\<lambda>regions. create_instances env regions ports nodes VALIDATOR) w of
        None \<Rightarrow> None
      | Some (Inl e, w') \<Rightarrow> Some (Inl e, w')
      | Some (Inr _, w') \<Rightarrow> with_manager document (\<lambda>regions. create_instances env regions ports clients CLIENT) w')"

definition create_task :: "aws \<Rightarrow> py_val result \<Rightarrow> int list \<Rightarrow> int \<Rightarrow> int \<Rightarrow>
    aws_world \<Rightarrow> (unit result \<times> aws_world) option" where
  "create_task env document ports nodes clients w =
     map_option report_bench_error (create_testbed env document ports nodes clients w)"

definition destroy_task :: "aws \<Rightarrow> py_val result \<Rightarrow> aws_world \<Rightarrow> (unit result \<times> aws_world) option" where
  "destroy_task env document w = map_option report_bench_error (with_manager document (terminate_instances env) w)"

text \<open>Actions that end, with their printed number dropped.\<close>

definition ends :: "nat on_aws \<Rightarrow> aws_world \<Rightarrow> (unit result \<times> aws_world) option" where
  "ends m w = Some (io_bind m (\<lambda>_. io_return ()) w)"

definition start_task :: "aws \<Rightarrow> py_val result \<Rightarrow> int \<Rightarrow> aws_world \<Rightarrow> (unit result \<times> aws_world) option" where
  "start_task env document mx w =
     map_option report_bench_error (with_manager document (\<lambda>regions. ends (start_instances env regions mx)) w)"

definition stop_task :: "aws \<Rightarrow> py_val result \<Rightarrow> aws_world \<Rightarrow> (unit result \<times> aws_world) option" where
  "stop_task env document w =
     map_option report_bench_error (with_manager document (\<lambda>regions. ends (stop_instances env regions)) w)"

section \<open>What a testbed asks the provider for\<close>

text \<open>The instances that a call asks for, and what no call of the creation does.\<close>

definition asked :: "aws_call \<Rightarrow> (string \<times> int \<times> node_type) option" where
  "asked c = (case c of RunInstances region ami n t \<Rightarrow> Some (region, n, t) | _ \<Rightarrow> None)"

definition removes :: "aws_call \<Rightarrow> bool" where
  "removes c = (case c of TerminateInstances _ _ \<Rightarrow> True | StopInstances _ _ \<Rightarrow> True | StartInstances _ _ \<Rightarrow> True
     | DeleteGroup _ \<Rightarrow> True | _ \<Rightarrow> False)"

text \<open>The calls made between two states ask for the given instances, and remove nothing.\<close>

definition asks :: "aws_world \<Rightarrow> (string \<times> int \<times> node_type) list \<Rightarrow> aws_world \<Rightarrow> bool" where
  "asks w xs w' \<longleftrightarrow> (\<exists>cs. w' = w @ cs \<and> List.map_filter asked cs = xs \<and> \<not> list_ex removes cs)"

text \<open>A request is worked off from its start: all of it if nothing is raised.\<close>

definition works_off :: "(string \<times> int \<times> node_type) list \<Rightarrow> aws_world \<Rightarrow> unit result \<times> aws_world \<Rightarrow> bool" where
  "works_off xs w p \<longleftrightarrow> (\<exists>ys. prefix ys xs \<and> asks w ys (snd p) \<and> (fst p = Inr () \<longrightarrow> ys = xs))"

lemma map_filter_append [simp]: "List.map_filter f (xs @ ys) = List.map_filter f xs @ List.map_filter f ys"
  by (simp add: List.map_filter_def)

lemma asks_trans: "asks w xs w' \<Longrightarrow> asks w' ys w'' \<Longrightarrow> asks w (xs @ ys) w''"
  by (auto simp: asks_def)

lemma asks_refl [simp]: "asks w [] w"
  by (simp add: asks_def map_filter_simps)

lemma looks_asks: "looks w w' \<Longrightarrow> asks w [] w'"
proof -
  have "\<not> removes c \<and> asked c = None" if "only_looks c" for c
    using that by (cases c) (simp_all add: only_looks_def removes_def asked_def)
  then have "list_all only_looks cs \<Longrightarrow> List.map_filter asked cs = [] \<and> \<not> list_ex removes cs" for cs
    by (induction cs) (simp_all add: map_filter_simps)
  then show "looks w w' \<Longrightarrow> ?thesis" by (auto simp: looks_def asks_def)
qed

lemma works_off_then:
  assumes "works_off xs w (r, w1)" and "r = Inr () \<Longrightarrow> works_off ys w1 p" and "r \<noteq> Inr () \<Longrightarrow> p = (r, w1)"
  shows "works_off (xs @ ys) w p"
proof (cases "r = Inr ()")
  case True
  with assms(1) have "asks w xs w1" by (auto simp: works_off_def)
  moreover obtain zs where "prefix zs ys" "asks w1 zs (snd p)" "fst p = Inr () \<longrightarrow> zs = ys"
    using assms(2) True by (auto simp: works_off_def)
  ultimately show ?thesis unfolding works_off_def by (intro exI [of _ "xs @ zs"]) (auto intro: asks_trans)
next
  case False
  then show ?thesis using assms(1,3) by (auto simp: works_off_def intro: prefix_prefix)
qed

lemma no_requests: "concat (map (\<lambda>_. []) xs) = []"
  by simp

lemma works_off_for:
  assumes "\<And>x w. x \<in> set rs \<Longrightarrow> works_off (req x) w (f x w)"
  shows "works_off (concat (map req rs)) w (io_for f rs w)"
  using assms
proof (induction rs arbitrary: w)
  case Nil
  show ?case by (simp add: works_off_def io_return_def)
next
  case (Cons x rs)
  obtain r w1 where f: "f x w = (r, w1)" by (rule prod.exhaust)
  have "works_off (req x) w (r, w1)" using Cons.prems [of x w] f by simp
  moreover have "works_off (concat (map req rs)) w1 (io_for f rs w1)" using Cons by simp
  moreover have "io_for f (x # rs) w = (case r of Inr u \<Rightarrow> io_for f rs w1 | Inl e \<Rightarrow> (Inl e, w1))"
    using f by (simp add: io_bind_def split: sum.split)
  ultimately show ?case unfolding list.map concat.simps
    by (intro works_off_then [of _ w r w1]) (auto split: sum.splits)
qed

lemma group_asks: "works_off [] w (create_security_group env region ports w)"
  by (auto simp: works_off_def asks_def create_security_group_def Let_def asked_def removes_def map_filter_simps
      split: option.splits)

lemma run_in_asks: "works_off [(region, n, t)] w (run_in env n t region w)"
proof (cases "rbind (images env w (DescribeImages region)) (\<lambda>xs. case xs of [] \<Rightarrow> Inl IndexError | x # _ \<Rightarrow> Inr x)")
  case (Inl e)
  then show ?thesis
    by (auto simp: run_in_def get_ami_def io_bind_def works_off_def asks_def asked_def removes_def map_filter_simps)
next
  case (Inr ami)
  then show ?thesis
    by (auto simp: run_in_def get_ami_def io_bind_def do_call_def works_off_def asks_def asked_def removes_def map_filter_simps)
qed

lemma create_instances_asks:
  assumes "create_instances env regions ports n t w = Some p"
  shows "works_off (map (\<lambda>region. (region, n, t)) regions) w p"
proof -
  let ?req = "map (\<lambda>region. (region, n, t)) regions"
  let ?groups = "io_bind (io_lift (py_assert (n > 0))) (\<lambda>_. io_for (\<lambda>region. create_security_group env region ports) regions)"
  obtain r1 w1 where g: "?groups w = (r1, w1)" by (rule prod.exhaust)
  have "works_off (concat (map (\<lambda>_. []) regions)) w (io_for (\<lambda>region. create_security_group env region ports) regions w)"
    by (rule works_off_for) (rule group_asks)
  then have w1: "works_off [] w (r1, w1)"
    using g by (cases "n > 0") (auto simp: io_bind_def io_lift_def py_assert_def works_off_def no_requests)
  obtain r2 w2 where run: "io_for (run_in env n t) regions w1 = (r2, w2)" by (rule prod.exhaust)
  have "works_off (concat (map (\<lambda>region. [(region, n, t)]) regions)) w1 (io_for (run_in env n t) regions w1)"
    by (rule works_off_for) (rule run_in_asks)
  then have w2: "works_off ?req w1 (r2, w2)" using run by (simp add: concat_map_singleton)
  have fin: "works_off ?req w1 p" if "r1 = Inr ()"
  proof -
    have p: "map_option bench_error_of (case r2 of Inl e \<Rightarrow> Some (Inl e, w2) | Inr u \<Rightarrow> wait_until_none env regions [''pending''] w2) = Some p"
      using assms g run that by (simp add: create_instances_def)
    show ?thesis
    proof (cases r2)
      case (Inl e)
      then show ?thesis using p w2 by (auto simp: bench_error_of_def works_off_def)
    next
      case (Inr u)
      then obtain r3 w3 where w3: "wait_until_none env regions [''pending''] w2 = Some (r3, w3)" "p = bench_error_of (r3, w3)"
        using p by auto
      then have "works_off [] w2 p"
        using wait_looks [OF w3(1), THEN looks_asks] by (auto simp: works_off_def bench_error_of_def split: sum.splits)
      then show ?thesis using works_off_then [OF w2, of "[]" p] Inr by simp
    qed
  qed
  have "p = (r1, w1)" if "r1 \<noteq> Inr ()"
    using assms g that by (cases r1) (auto simp: create_instances_def)
  then show ?thesis using works_off_then [OF w1, of ?req p] fin by simp
qed


section \<open>An example\<close>

text \<open>A provider with one region, in which no instance is pending.\<close>

definition example_provider :: aws where
  "example_provider = \<lparr>describe_instances = (\<lambda>_ _. Inr []), error_code = (\<lambda>_ _. None), images = (\<lambda>_ _. Inr [''ami''])\<rparr>"

lemma example_manager: "InstanceManager_make (Inr example_document) = Inr [''eu'']"
  by (simp add: InstanceManager_make_def Settings_load_def load_fields_def example_document_def py_index_def py_index2_def
      Settings_init_def region_names_def InstanceManager_init_def dict_of_def dict_set_def dict_keys_def)

lemma example_created:
  "0 < n \<Longrightarrow> \<exists>w'. create_instances example_provider [''eu''] ports n t w = Some (Inr (), w')"
proof -
  have wait: "\<exists>w'. wait_until_none example_provider [''eu''] [''pending''] v = Some (Inr (), w')" for v
    by (subst wait_until_none.simps)
      (simp add: example_provider_def get_instances_def total_of_def dict_values_def Let_def)
  have groups: "\<exists>w'. create_security_group example_provider ''eu'' ports w = (Inr (), w')"
    by (simp add: create_security_group_def example_provider_def Let_def)
  have run: "\<exists>w'. run_in example_provider n t ''eu'' v = (Inr (), w')" for v
    by (simp add: run_in_def get_ami_def do_call_def example_provider_def io_bind_def Let_def)
  assume "0 < n"
  obtain w1 where w1: "create_security_group example_provider ''eu'' ports w = (Inr (), w1)" using groups by blast
  obtain w2 where w2: "run_in example_provider n t ''eu'' w1 = (Inr (), w2)" using run by blast
  obtain w3 where w3: "wait_until_none example_provider [''eu''] [''pending''] w2 = Some (Inr (), w3)" using wait by blast
  show ?thesis using \<open>0 < n\<close> w1 w2 w3
    by (simp add: create_instances_def io_bind_def io_lift_def py_assert_def io_return_def bench_error_of_def)
qed


end
