(* ===== verification/Signet_Setup.thy ===== *)
theory Signet_Setup
  imports Bench_Paths "HOL-Library.Word"
begin

text \<open>
  \<^verbatim>\<open>benchmark/setup-signet.py\<close>: the configuration of the network of a benchmark. Every node has its
  ports, a list of peers and a directory; some peers are drawn at random, and the random numbers are
  an argument of the model (a sequence of draws). Addresses are written in base 58, for which the
  digest SHA-256 is an argument of the model.
\<close>

section \<open>Base 58\<close>

type_synonym bytes = "8 word list"

definition chars :: string where
  "chars = ''123456789ABCDEFGHJKLMNPQRSTUVWXYZabcdefghijkmnopqrstuvwxyz''"

definition hash256 :: "(bytes \<Rightarrow> bytes) \<Rightarrow> bytes \<Rightarrow> bytes" where
  "hash256 sha256 s = sha256 (sha256 s)"

text \<open>\<open>int.from_bytes(b, "big")\<close>.\<close>

definition from_bytes :: "bytes \<Rightarrow> nat" where
  "from_bytes b = foldl (\<lambda>v x. 256 * v + unat x) 0 b"

text \<open>The two loops of \<open>byte_to_base58\<close>; the second one fails when it runs out of bytes.\<close>

fun value_loop :: "nat \<Rightarrow> string \<Rightarrow> string" where
  "value_loop val res = (if val > 0 then value_loop (val div 58) (chars ! (val mod 58) # res) else res)"

declare value_loop.simps [simp del]

fun zeros_loop :: "bytes \<Rightarrow> string \<Rightarrow> string result" where
  "zeros_loop [] res = Inl IndexError"
| "zeros_loop (x # b) res = (if x = 0 then zeros_loop b (chars ! 0 # res) else Inr res)"

definition with_checksum :: "(bytes \<Rightarrow> bytes) \<Rightarrow> bytes \<Rightarrow> int \<Rightarrow> bytes" where
  "with_checksum sha256 b version =
     (let b = word_of_int version # b in b @ take 4 (hash256 sha256 b))"

definition byte_to_base58 :: "(bytes \<Rightarrow> bytes) \<Rightarrow> bytes \<Rightarrow> int \<Rightarrow> string result" where
  "byte_to_base58 sha256 b version =
     (if \<not> (0 \<le> version \<and> version < 256) then Inl ValueError
      else let b = with_checksum sha256 b version
           in zeros_loop b (value_loop (from_bytes b) []))"

section \<open>Numbers in a base\<close>

text \<open>The digits of a number, the most significant first, and the number of a list of digits.\<close>

fun to_base :: "nat \<Rightarrow> nat \<Rightarrow> nat list" where
  "to_base B n = (if n = 0 \<or> B \<le> 1 then [] else to_base B (n div B) @ [n mod B])"

declare to_base.simps [simp del]

definition of_base :: "nat \<Rightarrow> nat list \<Rightarrow> nat" where
  "of_base B ds = foldl (\<lambda>v d. B * v + d) 0 ds"

lemma of_base_snoc [simp]: "of_base B (ds @ [d]) = B * of_base B ds + d" "of_base B [] = 0"
  by (simp_all add: of_base_def)

lemma of_base_zeros: "of_base B (replicate k 0 @ ds) = of_base B ds"
  unfolding of_base_def by (induction k) simp_all

lemma of_to_base: "2 \<le> B \<Longrightarrow> of_base B (to_base B n) = n"
proof (induction B n rule: to_base.induct)
  case (1 B n)
  then show ?case by (subst to_base.simps) auto
qed

lemma to_base_digits: "2 \<le> B \<Longrightarrow> \<forall>d \<in> set (to_base B n). d < B"
proof (induction B n rule: to_base.induct)
  case (1 B n)
  then show ?case by (subst to_base.simps) auto
qed

lemma to_base_hd: "2 \<le> B \<Longrightarrow> 0 < n \<Longrightarrow> to_base B n \<noteq> [] \<and> hd (to_base B n) \<noteq> 0"
proof (induction B n rule: to_base.induct)
  case (1 B n)
  then show ?case
  proof (cases "n div B = 0")
    case True
    then have "n < B" using 1(2) by (simp add: div_eq_0_iff)
    moreover have "to_base B 0 = []" by (subst to_base.simps) simp
    ultimately show ?thesis using 1(2,3) by (subst (1 2) to_base.simps) simp
  next
    case False
    then have "to_base B (n div B) \<noteq> [] \<and> hd (to_base B (n div B)) \<noteq> 0" using 1 by simp
    then show ?thesis using 1(2,3) by (subst (1 2) to_base.simps) simp
  qed
qed

lemma of_base_pos: "ds \<noteq> [] \<Longrightarrow> hd ds \<noteq> 0 \<Longrightarrow> 1 \<le> B \<Longrightarrow> 0 < of_base B ds"
proof (induction ds rule: rev_induct)
  case (snoc d ds)
  then show ?case
  proof (cases "ds = []")
    case True
    then show ?thesis using snoc.prems by (simp add: of_base_def)
  next
    case False
    then have "0 < of_base B ds" using snoc by simp
    then show ?thesis using snoc.prems(3) by simp
  qed
qed simp

lemma to_of_base:
  "2 \<le> B \<Longrightarrow> \<forall>d \<in> set ds. d < B \<Longrightarrow> ds \<noteq> [] \<Longrightarrow> hd ds \<noteq> 0 \<Longrightarrow> to_base B (of_base B ds) = ds"
proof (induction ds rule: rev_induct)
  case (snoc d ds)
  have pos: "0 < of_base B (ds @ [d])" by (rule of_base_pos) (use snoc.prems in auto)
  have "to_base B (of_base B ds) = ds"
  proof (cases "ds = []")
    case True
    then show ?thesis by (simp add: to_base.simps)
  next
    case False
    then show ?thesis using snoc by simp
  qed
  moreover have "d < B" using snoc.prems by simp
  ultimately show ?case using pos snoc.prems(1) by (subst to_base.simps) simp
qed simp

section \<open>Reading base 58\<close>

text \<open>The reader: the initial ones are zero bytes, and the number has the remaining bytes.\<close>

definition char_index :: "char \<Rightarrow> nat" where
  "char_index c = length (takeWhile (\<lambda>x. x \<noteq> c) chars)"

definition from_base58 :: "string \<Rightarrow> bytes" where
  "from_base58 s = replicate (length (takeWhile (\<lambda>c. c = CHR ''1'') s)) 0 @
     map of_nat (to_base 256 (of_base 58 (map char_index s)))"

lemma char_index_chars: "i < 58 \<Longrightarrow> char_index (chars ! i) = i"
proof -
  have "\<forall>i \<in> set [0..<58]. char_index (chars ! i) = i" by code_simp
  then show "i < 58 \<Longrightarrow> char_index (chars ! i) = i" by simp
qed

lemma chars_1: "i < 58 \<Longrightarrow> chars ! i = CHR ''1'' \<longleftrightarrow> i = 0"
proof -
  have "char_index (CHR ''1'') = 0" "chars ! 0 = CHR ''1''" by code_simp+
  then show "i < 58 \<Longrightarrow> chars ! i = CHR ''1'' \<longleftrightarrow> i = 0" using char_index_chars by metis
qed

lemma value_loop_digits: "value_loop n res = map ((!) chars) (to_base 58 n) @ res"
proof (induction n res rule: value_loop.induct)
  case (1 n res)
  show ?case
  proof (cases "n > 0")
    case True
    then show ?thesis using 1 [OF True] by (subst value_loop.simps, subst to_base.simps) simp
  next
    case False
    then show ?thesis by (simp add: value_loop.simps to_base.simps)
  qed
qed

lemma zeros_loop_Inr:
  "zeros_loop b res = Inr s \<longleftrightarrow>
     (\<exists>k c. b = replicate k 0 @ c \<and> c \<noteq> [] \<and> hd c \<noteq> 0 \<and> s = replicate k (CHR ''1'') @ res)"
proof (induction b arbitrary: res)
  case (Cons x b)
  have one: "chars ! 0 = CHR ''1''" by (simp add: chars_def)
  show ?case
  proof (cases "x = 0")
    case True
    have "(\<exists>k c. 0 # b = replicate k 0 @ c \<and> c \<noteq> [] \<and> hd c \<noteq> 0 \<and> s = replicate k (CHR ''1'') @ res) \<longleftrightarrow>
        (\<exists>k c. b = replicate k 0 @ c \<and> c \<noteq> [] \<and> hd c \<noteq> 0 \<and> s = replicate k (CHR ''1'') @ CHR ''1'' # res)"
      (is "(\<exists>k c. ?L k c) \<longleftrightarrow> (\<exists>k c. ?R k c)")
    proof
      assume "\<exists>k c. ?L k c"
      then obtain k c where L: "?L k c" by blast
      then have "k \<noteq> 0" by (cases k) auto
      then obtain j where "k = Suc j" using not0_implies_Suc by blast
      then have "?R j c" using L by (simp add: replicate_app_Cons_same)
      then show "\<exists>k c. ?R k c" by blast
    next
      assume "\<exists>k c. ?R k c"
      then obtain k c where "?R k c" by blast
      then have "?L (Suc k) c" by (simp add: replicate_app_Cons_same)
      then show "\<exists>k c. ?L k c" by blast
    qed
    then show ?thesis using Cons.IH [of "CHR ''1'' # res"] True one by simp
  next
    case False
    have "(\<exists>k c. x # b = replicate k 0 @ c \<and> c \<noteq> [] \<and> hd c \<noteq> 0 \<and> s = replicate k (CHR ''1'') @ res) \<longleftrightarrow> s = res"
    proof
      assume "\<exists>k c. x # b = replicate k 0 @ c \<and> c \<noteq> [] \<and> hd c \<noteq> 0 \<and> s = replicate k (CHR ''1'') @ res"
      then obtain k c where k: "x # b = replicate k 0 @ c" "s = replicate k (CHR ''1'') @ res" by blast
      then have "k = 0" using False by (cases k) auto
      then show "s = res" using k by simp
    next
      assume "s = res"
      then show "\<exists>k c. x # b = replicate k 0 @ c \<and> c \<noteq> [] \<and> hd c \<noteq> 0 \<and> s = replicate k (CHR ''1'') @ res"
        using False by (intro exI [of _ 0] exI [of _ "x # b"]) simp
    qed
    then show ?thesis using False by auto
  qed
qed simp

lemma from_bytes_base: "from_bytes b = of_base 256 (map unat b)"
  by (simp add: from_bytes_def of_base_def foldl_map)

text \<open>Zero bytes and a number are read back.\<close>

lemma from_base58_parts:
  assumes "c \<noteq> []" "hd c \<noteq> 0"
  shows "from_base58 (replicate k (CHR ''1'') @ value_loop (from_bytes (replicate k 0 @ c)) []) = replicate k 0 @ c"
proof -
  have bytes: "\<forall>d \<in> set (map unat c). d < 256"
  proof -
    have "unat (x :: 8 word) < 256" for x using unsigned_less [of x, where ?'a = nat] by simp
    then show ?thesis by simp
  qed
  have hd: "hd (map unat c) \<noteq> 0" "map unat c \<noteq> []"
    using assms by (simp_all add: hd_map unat_eq_0)
  let ?n = "of_base 256 (map unat c)"
  have n: "from_bytes (replicate k 0 @ c) = ?n" by (simp add: from_bytes_base of_base_zeros)
  have pos: "0 < ?n" by (rule of_base_pos) (use hd in simp_all)
  let ?ds = "to_base 58 ?n"
  have ds: "\<forall>d \<in> set ?ds. d < 58" "?ds \<noteq> []" "hd ?ds \<noteq> 0" "of_base 58 ?ds = ?n"
    using to_base_digits [of 58 ?n] to_base_hd [of 58 ?n] of_to_base [of 58 ?n] pos by simp_all
  let ?t = "map ((!) chars) ?ds"
  have "hd ?t \<noteq> CHR ''1''" using ds(1,2,3) chars_1 [of "hd ?ds"] by (simp add: hd_map)
  then have tw: "takeWhile (\<lambda>c. c = CHR ''1'') (replicate k (CHR ''1'') @ ?t) = replicate k (CHR ''1'')"
    using ds(2) by (cases ?ds) (simp_all add: takeWhile_append)
  have "char_index (CHR ''1'') = 0" using chars_1 [of 0] char_index_chars [of 0] by simp
  moreover have "map (char_index \<circ> (!) chars) ?ds = ?ds"
    using ds(1) by (intro map_idI) (simp add: char_index_chars)
  ultimately have "of_base 58 (map char_index (replicate k (CHR ''1'') @ ?t)) = ?n"
    using ds(4) by (simp add: of_base_zeros)
  moreover have "map of_nat (to_base 256 ?n) = c"
    using to_of_base [OF _ bytes hd(2,1)] by (simp add: comp_def)
  ultimately show ?thesis unfolding from_base58_def n value_loop_digits
    using tw by simp
qed

text \<open>Addresses are read back. For every digest, payload and version, what \<open>byte_to_base58\<close> returns is
  a text over the alphabet of base 58 from which the version, the payload and the checksum are read
  back, whatever zeros they begin with. It fails only for a version that is no byte and where version,
  payload and checksum are all zero.\<close>

theorem base58_round_trip:
  "case byte_to_base58 sha256 b version of
     Inr s \<Rightarrow> set s \<subseteq> set chars \<and> from_base58 s = with_checksum sha256 b version
   | Inl e \<Rightarrow> (e = ValueError \<and> version \<notin> {0..255}) \<or>
       (e = IndexError \<and> set (with_checksum sha256 b version) = {0})"
proof (cases "version \<in> {0..255}")
  case True
  let ?b = "with_checksum sha256 b version"
  let ?r = "value_loop (from_bytes ?b) []"
  have enc: "byte_to_base58 sha256 b version = zeros_loop ?b ?r"
    using True by (simp add: byte_to_base58_def Let_def)
  show ?thesis
  proof (cases "zeros_loop ?b ?r")
    case (Inr s)
    then obtain k c where k: "?b = replicate k 0 @ c" "c \<noteq> []" "hd c \<noteq> 0" "s = replicate k (CHR ''1'') @ ?r"
      by (auto simp: zeros_loop_Inr)
    then have "from_base58 s = ?b" using from_base58_parts [OF k(2,3), of k] by simp
    moreover have "set ?r \<subseteq> set chars"
    proof -
      have "chars ! d \<in> set chars" if "d < 58" for d using that by (intro nth_mem) (simp add: chars_def)
      then show ?thesis using to_base_digits [of 58] by (auto simp: value_loop_digits)
    qed
    moreover have "CHR ''1'' \<in> set chars" by (simp add: chars_def)
    ultimately show ?thesis using enc Inr k(4) by auto
  next
    case (Inl e)
    have "zeros_loop d res = Inl e \<Longrightarrow> e = IndexError \<and> set d \<subseteq> {0}" for d res
      by (induction d arbitrary: res) (auto split: if_splits)
    then have "e = IndexError \<and> set ?b \<subseteq> {0}" using Inl by blast
    moreover have "?b \<noteq> []" by (simp add: with_checksum_def Let_def)
    ultimately show ?thesis using enc Inl by (auto simp: subset_singleton_iff)
  qed
next
  case False
  then show ?thesis by (auto simp: byte_to_base58_def)
qed

section \<open>Ports\<close>

definition PORT_START :: int where "PORT_START = 38000"
definition RPC_PORT_START :: int where "RPC_PORT_START = 37000"
definition FBFT_REPLICA_SET_PORT_START :: int where "FBFT_REPLICA_SET_PORT_START = 13000"
definition ZMQ_PORT_START_PUBHASHTX :: int where "ZMQ_PORT_START_PUBHASHTX = 29000"
definition ZMQ_PORT_START_PUBITCOINBLOCK :: int where "ZMQ_PORT_START_PUBITCOINBLOCK = 30000"

datatype service = P2P | RPC | PUBHASHTX | PUBITCOINBLOCK | REPLICA

definition port_start :: "service \<Rightarrow> int" where
  "port_start s = (case s of P2P \<Rightarrow> PORT_START | RPC \<Rightarrow> RPC_PORT_START | PUBHASHTX \<Rightarrow> ZMQ_PORT_START_PUBHASHTX
     | PUBITCOINBLOCK \<Rightarrow> ZMQ_PORT_START_PUBITCOINBLOCK | REPLICA \<Rightarrow> FBFT_REPLICA_SET_PORT_START)"

text \<open>Nodes on machines of their own all use the first port; on one machine the number is added.\<close>

definition port_of :: "bool \<Rightarrow> service \<Rightarrow> nat \<Rightarrow> int" where
  "port_of use_remote_config s node_id =
     (if use_remote_config then port_start s else port_start s + int node_id)"

text \<open>Ports do not collide. On one machine the ports of a network are different for all nodes and all
  services exactly if there are at most 1000 nodes.\<close>

theorem local_ports_distinct_iff:
  "(\<forall>i < n. \<forall>j < n. \<forall>s t. port_of False s i = port_of False t j \<longleftrightarrow> i = j \<and> s = t) \<longleftrightarrow> n \<le> 1000"
  (is "?P \<longleftrightarrow> _")
proof
  assume n: "n \<le> 1000"
  have "i = j \<and> s = t" if "i < n" "j < n" "port_of False s i = port_of False t j" for i j s t
    using that n
    by (cases s; cases t)
      (simp_all add: port_of_def port_start_def PORT_START_def RPC_PORT_START_def ZMQ_PORT_START_PUBHASHTX_def
        ZMQ_PORT_START_PUBITCOINBLOCK_def FBFT_REPLICA_SET_PORT_START_def)
  then show ?P by blast
next
  assume P: ?P
  show "n \<le> 1000"
  proof (rule ccontr)
    assume "\<not> n \<le> 1000"
    then have "0 < n" "1000 < n" by simp_all
    then have "port_of False P2P 0 = port_of False RPC 1000 \<longleftrightarrow> (0::nat) = 1000 \<and> P2P = RPC" using P by blast
    then show False by (simp add: port_of_def port_start_def PORT_START_def RPC_PORT_START_def)
  qed
qed

section \<open>Peers\<close>

definition LOCALHOST :: string where "LOCALHOST = ''127.0.0.1''"
definition MAX_BITCOIND_OUTBOUND_CONNECTIONS :: nat where "MAX_BITCOIND_OUTBOUND_CONNECTIONS = 10"

text \<open>
  The network: the numbers of validators and clients, and for machines of their own the addresses of
  the nodes.
\<close>

record network =
  validators :: nat
  clients :: nat
  remote_config :: "(nat, string) dict option"

definition addnode_line :: "network \<Rightarrow> nat \<Rightarrow> string result" where
  "addnode_line nw i =
     (case remote_config nw of
        Some hosts \<Rightarrow> rbind (dict_index hosts i) (\<lambda>host.
          Inr (''addnode='' @ host @ '':'' @ int_str (port_of True P2P i)))
      | None \<Rightarrow> Inr (''addnode='' @ LOCALHOST @ '':'' @ int_str (port_of False P2P i)))"

definition nb_validator_connections :: "network \<Rightarrow> nat" where
  "nb_validator_connections nw = min (validators nw) MAX_BITCOIND_OUTBOUND_CONNECTIONS"

definition validator_peers :: "network \<Rightarrow> nat \<Rightarrow> nat list" where
  "validator_peers nw node_id =
     map (\<lambda>i. i mod validators nw) [node_id..<node_id + nb_validator_connections nw]"

definition nb_client_connections :: "network \<Rightarrow> nat" where
  "nb_client_connections nw =
     min (clients nw) (MAX_BITCOIND_OUTBOUND_CONNECTIONS - nb_validator_connections nw)"

text \<open>
  The inner loop draws until the client is new; \<open>draws k\<close> is the result of the \<open>k\<close>-th call of
  \<open>randrange\<close>. It need not end, and \<open>None\<close> says so.
\<close>

partial_function (option) draw_client :: "(nat \<Rightarrow> nat) \<Rightarrow> nat \<Rightarrow> nat list \<Rightarrow> nat \<Rightarrow> (nat \<times> nat) option" where
  "draw_client draws nb_validators selected k =
     (let node_i = nb_validators + draws k
      in if node_i \<in> set selected then draw_client draws nb_validators selected (Suc k)
         else Some (node_i, Suc k))"

fun client_peers :: "(nat \<Rightarrow> nat) \<Rightarrow> network \<Rightarrow> nat \<Rightarrow> nat list \<Rightarrow> string list \<Rightarrow> nat \<Rightarrow>
    (string list result \<times> nat list \<times> nat) option" where
  "client_peers draws nw 0 selected lines k = Some (Inr lines, selected, k)"
| "client_peers draws nw (Suc n) selected lines k =
     (case draw_client draws (validators nw) selected k of
        None \<Rightarrow> None
      | Some (node_i, k') \<Rightarrow>
          (case addnode_line nw node_i of
             Inl e \<Rightarrow> Some (Inl e, selected @ [node_i], k')
           | Inr l \<Rightarrow> client_peers draws nw n (selected @ [node_i]) (lines @ [l]) k'))"

text \<open>The lines of the peers of a node, the numbers of the clients among them, and the next draw.\<close>

definition addnode_lines :: "(nat \<Rightarrow> nat) \<Rightarrow> network \<Rightarrow> nat \<Rightarrow> nat \<Rightarrow> (string list result \<times> nat list \<times> nat) option" where
  "addnode_lines draws nw node_id k =
     (case rmap (addnode_line nw) (validator_peers nw node_id) of
        Inl e \<Rightarrow> Some (Inl e, [], k)
      | Inr lines \<Rightarrow> client_peers draws nw (nb_client_connections nw) [] lines k)"

section \<open>Every node finds its peers\<close>

lemma validator_peers_distinct: "distinct (validator_peers nw node_id)"
proof -
  have "i = j" if "i \<in> {node_id..<node_id + nb_validator_connections nw}"
    "j \<in> {node_id..<node_id + nb_validator_connections nw}" "i mod validators nw = j mod validators nw" for i j
  proof -
    have eq: "a = b" if "a \<le> b" "b < a + validators nw" "a mod validators nw = b mod validators nw" for a b
    proof (rule ccontr)
      assume "a \<noteq> b"
      have "validators nw dvd b - a" using that mod_eq_dvd_iff_nat [of a b "validators nw"] by simp
      then have "validators nw \<le> b - a" using \<open>a \<noteq> b\<close> that(1) by (intro dvd_imp_le) simp_all
      then show False using that by simp
    qed
    have "nb_validator_connections nw \<le> validators nw" by (simp add: nb_validator_connections_def)
    then have b: "j < i + validators nw" "i < j + validators nw" using that(1,2) by simp_all
    show ?thesis
    proof (cases "i \<le> j")
      case True
      then show ?thesis using eq b(1) that(3) by blast
    next
      case False
      then show ?thesis using eq [of j i] b(2) that(3) by simp
    qed
  qed
  then show ?thesis by (auto simp: validator_peers_def distinct_map inj_on_def)
qed

lemma validator_peers_bound: "i \<in> set (validator_peers nw node_id) \<Longrightarrow> i < validators nw"
  by (auto simp: validator_peers_def nb_validator_connections_def)

lemma validator_peers_length: "length (validator_peers nw node_id) = nb_validator_connections nw"
  by (simp add: validator_peers_def)

text \<open>The connections that the configurations ask for among the validators.\<close>

definition linked :: "network \<Rightarrow> (nat \<times> nat) set" where
  "linked nw = {(a, b). a < validators nw + clients nw \<and> b \<in> set (validator_peers nw a)}"

lemma linked_step:
  assumes "a < validators nw" "2 \<le> validators nw"
  shows "(a, Suc a mod validators nw) \<in> linked nw"
proof -
  have "Suc a \<in> {a..<a + nb_validator_connections nw}"
    using assms by (simp add: nb_validator_connections_def MAX_BITCOIND_OUTBOUND_CONNECTIONS_def)
  then show ?thesis using assms(1) by (auto simp: linked_def validator_peers_def)
qed

lemma linked_around:
  assumes "a < validators nw" "2 \<le> validators nw"
  shows "(a, (a + m) mod validators nw) \<in> (linked nw)\<^sup>*"
proof (induction m)
  case 0
  then show ?case using assms by simp
next
  case (Suc m)
  have "((a + m) mod validators nw, Suc ((a + m) mod validators nw) mod validators nw) \<in> linked nw"
    using assms by (intro linked_step) simp_all
  then show ?case using Suc by (simp add: mod_Suc_eq rtrancl.rtrancl_into_rtrancl)
qed

text \<open>C30: The network is connected. Whatever the numbers of validators and clients, every node, whether a
  validator or a client, reaches every validator over the connections that the configurations ask
  for, although each node asks for at most ten.\<close>

theorem network_connected:
  assumes "i < validators nw + clients nw" and "j < validators nw"
  shows "(i, j) \<in> (linked nw)\<^sup>* \<and> length (validator_peers nw i) \<le> 10"
proof
  let ?a = "i mod validators nw"
  have "i \<in> {i..<i + nb_validator_connections nw}"
    using assms(2) by (simp add: nb_validator_connections_def MAX_BITCOIND_OUTBOUND_CONNECTIONS_def)
  then have first: "(i, ?a) \<in> linked nw" using assms(1) by (auto simp: linked_def validator_peers_def)
  have a: "?a < validators nw" using assms(2) by simp
  show "(i, j) \<in> (linked nw)\<^sup>*"
  proof (cases "2 \<le> validators nw")
    case True
    have "?a + (validators nw - ?a + j) = validators nw + j" using a by simp
    then have "(?a + (validators nw - ?a + j)) mod validators nw = j" using assms(2) by (metis mod_add_self1 mod_less)
    then have "(?a, j) \<in> (linked nw)\<^sup>*" using linked_around [OF a True] by metis
    then show ?thesis using first by (rule converse_rtrancl_into_rtrancl [rotated])
  next
    case False
    then have "validators nw = 1" using assms(2) by simp
    then have "?a = j" using assms(2) by simp
    then show ?thesis using first by auto
  qed
  show "length (validator_peers nw i) \<le> 10"
    by (simp add: validator_peers_length nb_validator_connections_def MAX_BITCOIND_OUTBOUND_CONNECTIONS_def)
qed

section \<open>Drawing clients\<close>

lemma draw_client_returns:
  assumes "k \<le> m" "nb + draws m \<notin> set selected"
  shows "\<exists>k'. draw_client draws nb selected k = Some (nb + draws k', Suc k') \<and> k \<le> k' \<and> nb + draws k' \<notin> set selected"
  using assms
proof (induction "m - k" arbitrary: k)
  case 0
  then have "k = m" by simp
  then show ?case using 0 by (subst draw_client.simps) auto
next
  case (Suc d)
  show ?case
  proof (cases "nb + draws k \<in> set selected")
    case True
    then have "Suc k \<le> m" using Suc.prems by (metis le_neq_implies_less Suc_leI)
    moreover have "d = m - Suc k" using Suc.hyps(2) by simp
    ultimately obtain k' where "draw_client draws nb selected (Suc k) = Some (nb + draws k', Suc k')"
      "Suc k \<le> k'" "nb + draws k' \<notin> set selected"
      using Suc.hyps(1) [of "Suc k"] Suc.prems(2) by blast
    then show ?thesis using True by (subst draw_client.simps) auto
  next
    case False
    then show ?thesis by (subst draw_client.simps) auto
  qed
qed

text \<open>The generator draws a client, and every client again and again.\<close>

definition fair :: "(nat \<Rightarrow> nat) \<Rightarrow> nat \<Rightarrow> bool" where
  "fair draws nb_clients \<longleftrightarrow> (\<forall>k. draws k < nb_clients) \<and> (\<forall>c < nb_clients. \<forall>k. \<exists>m \<ge> k. draws m = c)"

lemma client_peers_return:
  assumes "fair draws (clients nw)"
  shows "length selected + n \<le> clients nw \<Longrightarrow> distinct selected \<Longrightarrow>
    set selected \<subseteq> {validators nw..<validators nw + clients nw} \<Longrightarrow>
    lines = first @ own \<Longrightarrow> rmap (addnode_line nw) selected = Inr own \<Longrightarrow>
    \<exists>r selected' k'. client_peers draws nw n selected lines k = Some (r, selected', k') \<and> distinct selected' \<and>
      set selected' \<subseteq> {validators nw..<validators nw + clients nw} \<and>
      (case r of Inl e \<Rightarrow> (\<exists>c \<in> set selected'. addnode_line nw c = Inl e)
       | Inr ls \<Rightarrow> length selected' = length selected + n \<and>
           (\<exists>own'. ls = first @ own' \<and> rmap (addnode_line nw) selected' = Inr own'))"
proof (induction n arbitrary: selected lines own k)
  case (Suc n)
  let ?V = "validators nw" and ?C = "clients nw"
  have "card (set selected) < card {?V..<?V + ?C}"
    using Suc.prems(1,2) by (simp add: distinct_card)
  then obtain x where x: "x \<in> {?V..<?V + ?C}" "x \<notin> set selected"
    by (metis (no_types) card_mono finite_set linorder_not_less subsetI)
  then have "x - ?V < ?C" by auto
  then obtain m where m: "m \<ge> k" "draws m = x - ?V" using assms unfolding fair_def by blast
  then have "?V + draws m \<notin> set selected" using x by simp
  then obtain k1 where d: "draw_client draws ?V selected k = Some (?V + draws k1, Suc k1)"
    "?V + draws k1 \<notin> set selected" using draw_client_returns [OF m(1)] by blast
  let ?c = "?V + draws k1"
  have c: "distinct (selected @ [?c])" "set (selected @ [?c]) \<subseteq> {?V..<?V + ?C}"
    using Suc.prems d(2) assms by (auto simp: fair_def)
  show ?case
  proof (cases "addnode_line nw ?c")
    case (Inl e)
    have "client_peers draws nw (Suc n) selected lines k = Some (Inl e, selected @ [?c], Suc k1)"
      using d Inl by simp
    moreover have "\<exists>a \<in> set (selected @ [?c]). addnode_line nw a = Inl e" using Inl by simp
    ultimately show ?thesis using c by fastforce
  next
    case (Inr l)
    have len: "length (selected @ [?c]) + n \<le> ?C" using Suc.prems(1) by simp
    have lines: "lines @ [l] = first @ (own @ [l])" using Suc.prems(4) by simp
    have own: "rmap (addnode_line nw) (selected @ [?c]) = Inr (own @ [l])"
      using Suc.prems(5) Inr by (simp add: rmap_append)
    have run: "client_peers draws nw (Suc n) selected lines k =
        client_peers draws nw n (selected @ [?c]) (lines @ [l]) (Suc k1)" using d Inr by simp
    have eq: "length selected + Suc n = length (selected @ [?c]) + n" by simp
    show ?thesis unfolding run eq using Suc.IH [OF len c lines own] .
  qed
qed auto


section \<open>The files of the network\<close>

text \<open>
  What is written: for every node the text of its configuration, for every validator the dictionary
  that is dumped as JSON. The surroundings give the credentials, the keys and the challenge.
\<close>

record replica =
  host :: string
  replica_port :: int
  p2pkh :: string
  pubkey :: string

record miner_config =
  miner_id :: nat
  genesis_block_hash :: string
  genesis_block_timestamp :: int
  target_block_time :: int
  fbft_replica_set :: "replica list"

datatype config_file = Bitcoind string | Miner miner_config

record signet_env =
  draw :: "nat \<Rightarrow> nat"
  rpc_credentials :: "nat \<Rightarrow> (string \<times> string) result"
  signet_key_pairs :: "(string \<times> string) list"
  frost_pubkey :: "nat \<Rightarrow> string result"
  signet_challenge :: string
  genesis_timestamp :: int
  block_time :: int
  output_directory :: string

definition GENESIS_BLOCK_HASH :: string where
  "GENESIS_BLOCK_HASH = ''49dc109285f9a914c1d16a6b03bb139ef298e97c1d561bc805dad5e8463ec26f''"

definition get_node_config_dir :: "network \<Rightarrow> nat \<Rightarrow> string" where
  "get_node_config_dir nw node_id =
     (if node_id < validators nw then get_node_dirname (int node_id) VALIDATOR (int (validators nw))
      else get_node_dirname (int (node_id - validators nw)) CLIENT (int (clients nw)))"

definition get_bitcoind_config_file_path :: "string \<Rightarrow> network \<Rightarrow> nat \<Rightarrow> string" where
  "get_bitcoind_config_file_path out_dir nw node_id =
     out_dir @ ''/'' @ get_node_config_dir nw node_id @ ''/bitcoin.conf''"

definition get_miner_config_file_path :: "string \<Rightarrow> network \<Rightarrow> nat \<Rightarrow> string result" where
  "get_miner_config_file_path out_dir nw node_id =
     rbind (py_assert (node_id < validators nw)) (\<lambda>_.
       Inr (out_dir @ ''/'' @ get_node_dirname (int node_id) VALIDATOR (int (validators nw)) @ ''/miner.conf.json''))"

definition config_file_contents :: "bool \<Rightarrow> nat \<Rightarrow> string \<Rightarrow> string \<times> string \<Rightarrow> string list \<Rightarrow> string" where
  "config_file_contents remote node_id challenge cred lines =
     join [LF]
      ([''signet=1'', [], ''[signet]'', ''signetchallenge='' @ challenge,
        ''port='' @ int_str (port_of remote P2P node_id),
        ''rpcport='' @ int_str (port_of remote RPC node_id),
        ''rpcuser='' @ fst cred, ''rpcpassword='' @ snd cred,
        ''rpcbind=127.0.0.1'', ''rpcallowip=127.0.0.1/0'',
        ''zmqpubhashtx=tcp://127.0.0.1:'' @ int_str (port_of remote PUBHASHTX node_id),
        ''zmqpubitcoinblock=tcp://127.0.0.1:'' @ int_str (port_of remote PUBITCOINBLOCK node_id),
        ''debug=leveldb'', ''debug=reindex'', ''debug=coindb'', ''debug=prune'', ''debug=net'', ''debug=http'',
        ''debug=zmq'', [], ''# connect to peers'', join [LF] lines])"

definition replica_of :: "signet_env \<Rightarrow> network \<Rightarrow> nat \<times> string \<times> string \<Rightarrow> replica result" where
  "replica_of env nw = (\<lambda>(replica_id, address, privkey).
     rbind (case remote_config nw of Some hosts \<Rightarrow> dict_index hosts replica_id | None \<Rightarrow> Inr LOCALHOST) (\<lambda>h.
     rbind (frost_pubkey env replica_id) (\<lambda>pk.
       Inr \<lparr>host = h, replica_port = port_of (remote_config nw \<noteq> None) REPLICA replica_id,
            p2pkh = address, pubkey = pk\<rparr>)))"

definition create_miner_config :: "signet_env \<Rightarrow> network \<Rightarrow> nat \<Rightarrow> (string \<times> config_file) result" where
  "create_miner_config env nw node_id =
     rbind (get_miner_config_file_path (output_directory env) nw node_id) (\<lambda>p.
     rbind (rmap (replica_of env nw) (enumerate 0 (signet_key_pairs env))) (\<lambda>replicas.
       Inr (p, Miner \<lparr>miner_id = node_id, genesis_block_hash = GENESIS_BLOCK_HASH,
         genesis_block_timestamp = genesis_timestamp env, target_block_time = block_time env,
         fbft_replica_set = replicas\<rparr>)))"

definition create_bitcoind_config ::
  "signet_env \<Rightarrow> network \<Rightarrow> nat \<Rightarrow> nat \<Rightarrow> ((string \<times> config_file) result \<times> nat) option" where
  "create_bitcoind_config env nw node_id k =
     (case rpc_credentials env node_id of
        Inl e \<Rightarrow> Some (Inl e, k)
      | Inr cred \<Rightarrow> (case addnode_lines (draw env) nw node_id k of
          None \<Rightarrow> None
        | Some (Inl e, _, k') \<Rightarrow> Some (Inl e, k')
        | Some (Inr lines, _, k') \<Rightarrow>
            Some (Inr (get_bitcoind_config_file_path (output_directory env) nw node_id,
              Bitcoind (config_file_contents (remote_config nw \<noteq> None) node_id (signet_challenge env) cred lines)), k')))"

text \<open>The last loop of \<open>build\<close>, with the files written so far, also when it fails.\<close>

fun create_configs ::
  "signet_env \<Rightarrow> network \<Rightarrow> nat list \<Rightarrow> nat \<Rightarrow> (string \<times> config_file) list \<Rightarrow>
    (unit result \<times> (string \<times> config_file) list) option" where
  "create_configs env nw [] k files = Some (Inr (), files)"
| "create_configs env nw (node_id # ids) k files =
     (case create_bitcoind_config env nw node_id k of
        None \<Rightarrow> None
      | Some (Inl e, k') \<Rightarrow> Some (Inl e, files)
      | Some (Inr f, k') \<Rightarrow>
          if node_id < validators nw then
            (case create_miner_config env nw node_id of
               Inl e \<Rightarrow> Some (Inl e, files @ [f])
             | Inr g \<Rightarrow> create_configs env nw ids k' (files @ [f, g]))
          else create_configs env nw ids k' (files @ [f]))"

text \<open>\<open>build\<close> can be called once; the flag is the state of the builder.\<close>

definition build_network ::
  "signet_env \<Rightarrow> network \<Rightarrow> bool \<Rightarrow> ((unit result \<times> (string \<times> config_file) list) \<times> bool) option" where
  "build_network env nw build_called =
     (if build_called then Some ((Inl ValueError, []), True)
      else map_option (\<lambda>r. (r, True)) (create_configs env nw [0..<validators nw + clients nw] 0 []))"

section \<open>One file for each program\<close>

definition config_names :: "string \<Rightarrow> network \<Rightarrow> nat \<Rightarrow> string list" where
  "config_names out_dir nw i =
     get_bitcoind_config_file_path out_dir nw i #
       (if i < validators nw then [out_dir @ ''/'' @ get_node_config_dir nw i @ ''/miner.conf.json''] else [])"

lemma node_config_dir_inj:
  assumes "i < validators nw + clients nw" "j < validators nw + clients nw"
    and eq: "get_node_config_dir nw i = get_node_config_dir nw j"
  shows "i = j"
proof -
  have V: "a = b" if "get_node_dirname (int a) t (int n) = get_node_dirname (int b) t (int n)" "a < n" "b < n" for a b t n
    using node_dirname_eq_iff [of "int a" "int n" "int b" t] that by simp
  have T: "get_node_dirname a VALIDATOR n \<noteq> get_node_dirname b CLIENT m" for a b n m
    using node_dirname_type by blast
  show ?thesis
  proof (cases "i < validators nw"; cases "j < validators nw")
    assume "i < validators nw" "j < validators nw"
    then show ?thesis using eq V by (simp add: get_node_config_dir_def)
  next
    assume "i < validators nw" "\<not> j < validators nw"
    then show ?thesis using eq T by (simp add: get_node_config_dir_def)
  next
    assume "\<not> i < validators nw" "j < validators nw"
    then show ?thesis using eq T by (simp add: get_node_config_dir_def) metis
  next
    assume ij: "\<not> i < validators nw" "\<not> j < validators nw"
    then have "i - validators nw = j - validators nw" using eq assms(1,2)
      by (intro V [of _ CLIENT "clients nw"]) (simp_all add: get_node_config_dir_def)
    then show ?thesis using ij by simp
  qed
qed

lemma config_names_distinct: "distinct (concat (map (config_names out_dir nw) [0..<validators nw + clients nw]))"
proof (rule distinct_concat)
  let ?N = "validators nw + clients nw"
  have last: "a @ ''/bitcoin.conf'' \<noteq> b @ ''/miner.conf.json''" for a b
    by (rule notI, drule arg_cong [where f = last]) simp
  have disj: "set (config_names out_dir nw i) \<inter> set (config_names out_dir nw j) = {}" if "i < ?N" "j < ?N" "i \<noteq> j" for i j
    using that node_config_dir_inj [of i nw j] last [of "out_dir @ CHR ''/'' # x" "out_dir @ CHR ''/'' # y" for x y]
    by (auto simp: config_names_def get_bitcoind_config_file_path_def dest: sym)
  have "inj_on (config_names out_dir nw) {0..<?N}"
  proof (rule inj_onI)
    fix i j
    assume ij: "i \<in> {0..<?N}" "j \<in> {0..<?N}" "config_names out_dir nw i = config_names out_dir nw j"
    have "set (config_names out_dir nw i) \<noteq> {}" by (simp add: config_names_def)
    then show "i = j" using disj [of i j] ij by auto
  qed
  then show "distinct (map (config_names out_dir nw) [0..<?N])" by (simp add: distinct_map)
  show "distinct ys" if "ys \<in> set (map (config_names out_dir nw) [0..<?N])" for ys
    using that last [of "out_dir @ CHR ''/'' # x" "out_dir @ CHR ''/'' # y" for x y]
    by (auto simp: config_names_def get_bitcoind_config_file_path_def)
  fix ys zs
  assume "ys \<in> set (map (config_names out_dir nw) [0..<?N])" "zs \<in> set (map (config_names out_dir nw) [0..<?N])"
    and ne: "ys \<noteq> zs"
  then obtain i j where "ys = config_names out_dir nw i" "zs = config_names out_dir nw j" "i < ?N" "j < ?N"
    by auto
  then show "set ys \<inter> set zs = {}" using disj [of i j] ne by blast
qed

text \<open>The surroundings give credentials and a public key for every node.\<close>

definition signet_env_ok :: "signet_env \<Rightarrow> bool" where
  "signet_env_ok env \<longleftrightarrow> (\<forall>i. \<exists>c. rpc_credentials env i = Inr c) \<and> (\<forall>i. \<exists>p. frost_pubkey env i = Inr p)"

lemma replicas_exist:
  assumes "signet_env_ok env" "remote_config nw = None"
  shows "\<exists>rs. rmap (replica_of env nw) (enumerate k ps) = Inr rs \<and>
    map replica_port rs = map (\<lambda>i. 13000 + int i) [k..<k + length ps] \<and> map p2pkh rs = map fst ps"
proof (induction ps arbitrary: k)
  case (Cons p ps)
  obtain pk where "frost_pubkey env k = Inr pk" using assms(1) by (auto simp: signet_env_ok_def)
  then have "replica_of env nw (k, p) = Inr \<lparr>host = LOCALHOST, replica_port = 13000 + int k, p2pkh = fst p, pubkey = pk\<rparr>"
    using assms(2) by (simp add: replica_of_def port_of_def port_start_def FBFT_REPLICA_SET_PORT_START_def split: prod.splits)
  moreover have "[k..<k + length (p # ps)] = k # [Suc k..<Suc k + length ps]" by (simp add: upt_conv_Cons del: upt_Suc)
  ultimately show ?case using Cons.IH [of "Suc k"] by auto
qed simp

lemma create_bitcoind_config_runs:
  assumes "signet_env_ok env" "remote_config nw = None" "fair (draw env) (clients nw)"
  shows "\<exists>t k'. create_bitcoind_config env nw i k =
    Some (Inr (get_bitcoind_config_file_path (output_directory env) nw i, Bitcoind t), k')"
proof -
  obtain c where c: "rpc_credentials env i = Inr c" using assms(1) unfolding signet_env_ok_def by blast
  let ?f = "addnode_line nw"
  have ok: "\<exists>l. ?f c = Inr l" for c using assms(2) by (simp add: addnode_line_def)
  then have first: "\<exists>ls. rmap ?f xs = Inr ls" for xs by (induction xs) (auto, metis rbind_simps(2))
  then obtain ls where ls: "rmap ?f (validator_peers nw i) = Inr ls" by blast
  have n: "length ([] :: nat list) + nb_client_connections nw \<le> clients nw" by (simp add: nb_client_connections_def)
  obtain r s k' where run: "client_peers (draw env) nw (nb_client_connections nw) [] ls k = Some (r, s, k')"
    and r: "case r of Inl e \<Rightarrow> (\<exists>c \<in> set s. ?f c = Inl e)
      | Inr xs \<Rightarrow> length s = length ([] :: nat list) + nb_client_connections nw \<and>
          (\<exists>own. xs = ls @ own \<and> rmap ?f s = Inr own)"
    using client_peers_return [OF assms(3) n, of ls ls "[]" k] by auto
  have "\<exists>ls'. r = Inr ls'"
  proof (cases r)
    case (Inl e)
    then obtain c where "?f c = Inl e" using r by auto
    then show ?thesis using ok [of c] by simp
  qed simp
  then obtain ls' where "r = Inr ls'" by blast
  then show ?thesis using c ls run by (simp add: create_bitcoind_config_def addnode_lines_def)
qed

lemma create_configs_run:
  assumes "signet_env_ok env" "remote_config nw = None" "fair (draw env) (clients nw)"
    and rs: "rmap (replica_of env nw) (enumerate 0 (signet_key_pairs env)) = Inr rs"
  shows "\<exists>new. create_configs env nw ids k files = Some (Inr (), files @ new) \<and>
    map fst new = concat (map (config_names (output_directory env) nw) ids) \<and>
    (\<forall>p m. (p, Miner m) \<in> set new \<longrightarrow> fbft_replica_set m = rs)"
proof (induction ids arbitrary: k files)
  case (Cons i ids)
  let ?p = "get_bitcoind_config_file_path (output_directory env) nw i"
  obtain t k' where b: "create_bitcoind_config env nw i k = Some (Inr (?p, Bitcoind t), k')"
    using create_bitcoind_config_runs [OF assms(1-3)] by blast
  show ?case
  proof (cases "i < validators nw")
    case True
    let ?q = "output_directory env @ ''/'' @ get_node_config_dir nw i @ ''/miner.conf.json''"
    obtain m where m: "create_miner_config env nw i = Inr (?q, Miner m)" "fbft_replica_set m = rs"
      using rs True by (simp add: create_miner_config_def get_miner_config_file_path_def get_node_config_dir_def)
    obtain new where "create_configs env nw ids k' (files @ [(?p, Bitcoind t), (?q, Miner m)]) =
        Some (Inr (), (files @ [(?p, Bitcoind t), (?q, Miner m)]) @ new)"
      "map fst new = concat (map (config_names (output_directory env) nw) ids)"
      "\<forall>p m. (p, Miner m) \<in> set new \<longrightarrow> fbft_replica_set m = rs" using Cons.IH by blast
    moreover have "config_names (output_directory env) nw i = [?p, ?q]" using True by (simp add: config_names_def)
    ultimately show ?thesis using b m True
      by (intro exI [of _ "(?p, Bitcoind t) # (?q, Miner m) # new"]) auto
  next
    case False
    obtain new where "create_configs env nw ids k' (files @ [(?p, Bitcoind t)]) =
        Some (Inr (), (files @ [(?p, Bitcoind t)]) @ new)"
      "map fst new = concat (map (config_names (output_directory env) nw) ids)"
      "\<forall>p m. (p, Miner m) \<in> set new \<longrightarrow> fbft_replica_set m = rs" using Cons.IH by blast
    moreover have "config_names (output_directory env) nw i = [?p]" using False by (simp add: config_names_def)
    ultimately show ?thesis using b False
      by (intro exI [of _ "(?p, Bitcoind t) # new"]) auto
  qed
qed simp

text \<open>The network is set up. On one machine, with a generator that draws every client again and again,
  building the network ends and writes exactly one configuration for every node and one more for
  every validator, under different names, in the directories the benchmark uses for these nodes; the
  validators agree on the list of replicas, one for each key, with different ports. A second call is
  rejected.\<close>

theorem network_files:
  assumes "signet_env_ok env" "remote_config nw = None" "fair (draw env) (clients nw)"
    and "output_directory env = output_path"
  shows "\<exists>files rs. build_network env nw False = Some ((Inr (), files), True) \<and> distinct (map fst files) \<and>
    set (map fst files) =
      {get_local_datadir (int i) VALIDATOR (int (validators nw)) @ x | i x. i < validators nw \<and>
         x \<in> {''/bitcoin.conf'', ''/miner.conf.json''}} \<union>
      {get_local_datadir (int i) CLIENT (int (clients nw)) @ ''/bitcoin.conf'' | i. i < clients nw} \<and>
    (\<forall>p m. (p, Miner m) \<in> set files \<longrightarrow> fbft_replica_set m = rs) \<and> distinct (map replica_port rs) \<and>
    map p2pkh rs = map fst (signet_key_pairs env) \<and>
    build_network env nw True = Some ((Inl ValueError, []), True)"
proof -
  let ?V = "validators nw" and ?C = "clients nw"
  obtain rs where rs: "rmap (replica_of env nw) (enumerate 0 (signet_key_pairs env)) = Inr rs"
    "map replica_port rs = map (\<lambda>i. 13000 + int i) [0..<length (signet_key_pairs env)]"
    "map p2pkh rs = map fst (signet_key_pairs env)"
    using replicas_exist [OF assms(1,2), of 0 "signet_key_pairs env"] by auto
  obtain files where run: "create_configs env nw [0..<?V + ?C] 0 [] = Some (Inr (), files)"
    and names: "map fst files = concat (map (config_names output_path nw) [0..<?V + ?C])"
    and agree: "\<forall>p m. (p, Miner m) \<in> set files \<longrightarrow> fbft_replica_set m = rs"
    using create_configs_run [OF assms(1-3) rs(1), of "[0..<?V + ?C]" 0 "[]"] assms(4) by auto
  have "distinct (map replica_port rs)" unfolding rs(2) by (simp add: distinct_map inj_on_def)
  moreover have "set (map fst files) =
      {get_local_datadir (int i) VALIDATOR (int ?V) @ x | i x. i < ?V \<and> x \<in> {''/bitcoin.conf'', ''/miner.conf.json''}} \<union>
      {get_local_datadir (int i) CLIENT (int ?C) @ ''/bitcoin.conf'' | i. i < ?C}" (is "_ = ?A \<union> ?B")
  proof -
    have v: "set (config_names output_path nw i) = {get_local_datadir (int i) VALIDATOR (int ?V) @ x | x.
        x \<in> {''/bitcoin.conf'', ''/miner.conf.json''}}" if "i < ?V" for i
      using that by (auto simp: config_names_def get_bitcoind_config_file_path_def get_node_config_dir_def get_local_datadir_def)
    have c: "set (config_names output_path nw (?V + i)) = {get_local_datadir (int i) CLIENT (int ?C) @ ''/bitcoin.conf''}" for i
      by (simp add: config_names_def get_bitcoind_config_file_path_def get_node_config_dir_def get_local_datadir_def)
    have dec: "{0..<?V + ?C} = {0..<?V} \<union> (+) ?V ` {0..<?C}" by auto
    have "set (map fst files) = (\<Union>i \<in> {0..<?V + ?C}. set (config_names output_path nw i))"
      unfolding names by simp
    also have "\<dots> = (\<Union>i \<in> {0..<?V}. set (config_names output_path nw i)) \<union>
        (\<Union>i \<in> {0..<?C}. set (config_names output_path nw (?V + i)))"
      by (simp only: dec UN_Un SUP_image comp_def)
    also have "(\<Union>i \<in> {0..<?V}. set (config_names output_path nw i)) = ?A" using v by fastforce
    also have "(\<Union>i \<in> {0..<?C}. set (config_names output_path nw (?V + i))) = ?B" using c by auto
    finally show ?thesis .
  qed
  ultimately show ?thesis
    using run agree rs(3) config_names_distinct [of output_path nw] names
    by (intro exI [of _ files] exI [of _ rs]) (simp add: build_network_def)
qed

section \<open>An example\<close>

definition example_network :: network where
  "example_network = \<lparr>validators = 4, clients = 12, remote_config = None\<rparr>"

definition example_signet :: signet_env where
  "example_signet = \<lparr>draw = (\<lambda>k. k mod 12), rpc_credentials = (\<lambda>_. Inr (''u'', ''p'')),
     signet_key_pairs = [(''a'', ''k''), (''b'', ''l'')], frost_pubkey = (\<lambda>_. Inr ''q''), signet_challenge = ''51'',
     genesis_timestamp = 1600000000, block_time = 60, output_directory = output_path\<rparr>"

lemma round_robin_fair: "0 < n \<Longrightarrow> fair (\<lambda>k. k mod n) n"
proof -
  assume n: "0 < n"
  have "\<exists>m \<ge> k. m mod n = c" if "c < n" for c k
  proof (intro exI conjI)
    have "k \<le> k * n" using n by simp
    then show "k \<le> k * n + c" by (rule trans_le_add1)
    show "(k * n + c) mod n = c" using that by simp
  qed
  then show ?thesis using n by (simp add: fair_def)
qed

theorem local_ports_distinct_iff_witness:
  "port_of False P2P 0 \<noteq> port_of False RPC 999 \<and> port_of False P2P 0 = port_of False RPC 1000"
proof
  have all: "\<forall>i < (1000::nat). \<forall>j < 1000. \<forall>s t. port_of False s i = port_of False t j \<longleftrightarrow> i = j \<and> s = t"
    using local_ports_distinct_iff [of 1000] by (rule iffD2) simp
  have "(0::nat) < 1000" "(999::nat) < 1000" by simp_all
  then show "port_of False P2P 0 \<noteq> port_of False RPC 999" using all by (metis service.distinct(1))
  show "port_of False P2P 0 = port_of False RPC 1000" by code_simp
qed

theorem network_connected_witness:
  "(9, 3) \<in> (linked example_network)\<^sup>*"
  using network_connected [of 9 example_network 3] by (simp add: example_network_def)


theorem network_files_witness:
  "\<exists>files. build_network example_signet example_network False = Some ((Inr (), files), True) \<and>
     distinct (map fst files)"
proof -
  have h: "signet_env_ok example_signet" "remote_config example_network = None"
    "fair (draw example_signet) (clients example_network)" "output_directory example_signet = output_path"
    by (simp_all add: signet_env_ok_def example_signet_def example_network_def round_robin_fair)
  from network_files [OF h] show ?thesis by blast
qed

end
