(* ===== verification/Node_Programs.thy ===== *)
theory Node_Programs
  imports Bench_Paths Node_Log Py_State Py_Utf8
begin

text \<open>
  The programs that run next to a node, \<^verbatim>\<open>benchmark/run-signet.py\<close>, \<^verbatim>\<open>run-replicas.py\<close> and
  \<^verbatim>\<open>run-donor.py\<close>: they start a process in a new window and then talk to a node through the command
  line interface of the test framework. Its answers are an argument of the model, one for each call.
\<close>

section \<open>Answers of a node\<close>

text \<open>A call returns, or raises \<open>JSONRPCException\<close> with a code, or \<open>CalledProcessError\<close>.\<close>

datatype 'a answer = Reply 'a | Rpc_error int | Process_error

text \<open>What a program has done: the commands it ran, how often it called the node, its pauses in seconds.\<close>

record node_world =
  ran :: "string list list"
  calls :: nat
  pauses :: "rat list"

definition ran_cmd :: "string list \<Rightarrow> node_world \<Rightarrow> node_world" where
  "ran_cmd argv w = w\<lparr>ran := ran w @ [argv]\<rparr>"

definition called :: "rat \<Rightarrow> node_world \<Rightarrow> node_world" where
  "called pause w = w\<lparr>calls := Suc (calls w), pauses := pauses w @ [pause]\<rparr>"

section \<open>\<^verbatim>\<open>run-signet.py\<close>\<close>

text \<open>One pass of the loop that waits for the node: the code -28 says that it is warming up.\<close>

definition ready_step ::
  "(nat \<Rightarrow> unit answer) \<Rightarrow> node_world \<Rightarrow> (unit result \<times> node_world) + node_world" where
  "ready_step getblockchaininfo w =
     (case getblockchaininfo (calls w) of
        Reply _ \<Rightarrow> Inl (Inr (), called (1 / 5) w)
      | Rpc_error code \<Rightarrow>
          if code \<noteq> -28 then Inl (Inl JSONRPCException, w\<lparr>calls := Suc (calls w)\<rparr>)
          else Inr (called (1 / 5) w)
      | Process_error \<Rightarrow> Inr (called (1 / 5) w))"

definition new_window :: "string \<Rightarrow> string \<Rightarrow> string list" where
  "new_window name command = [''tmux'', ''new-window'', ''-t'', TMUX_SESSION_NAME, ''-n'', name, command]"

definition run_signet_main :: "(nat \<Rightarrow> unit answer) \<Rightarrow> (string \<Rightarrow> string) \<Rightarrow> string \<Rightarrow> int \<Rightarrow> node_type \<Rightarrow> int \<Rightarrow>
    node_world \<Rightarrow> (unit result \<times> node_world) option" where
  "run_signet_main getblockchaininfo absolute bin_path i t nb_of_type w =
     (let node_name = get_node_dirname i t nb_of_type;
          filename = node_logs_path node_name @ ''/bitcoind_logs.txt'';
          datadir = absolute output_path @ ''/'' @ node_name;
          command = bin_path @ ''/bitcoind'' @ '' -datadir='' @ datadir @ '' &> '' @ filename
      in loop (ready_step getblockchaininfo)
           (ran_cmd (new_window (''bitcoind-'' @ node_type_value t @ ''-'' @ int_str i) command)
             (ran_cmd [''makedirs'', node_logs_path node_name] w)))"

section \<open>\<^verbatim>\<open>run-replicas.py\<close>\<close>

text \<open>The lines of an open text file.\<close>

fun file_lines_from :: "string \<Rightarrow> string \<Rightarrow> string list" where
  "file_lines_from [] acc = (if acc = [] then [] else [rev acc])"
| "file_lines_from (c # cs) acc =
     (if c = LF then rev (c # acc) # file_lines_from cs [] else file_lines_from cs (c # acc))"

definition file_lines :: "string \<Rightarrow> string list" where
  "file_lines s = file_lines_from s []"

definition view_re :: regex where
  "view_re = [dot_star, Lit ''V='', digits_cap, dot_star]"

definition view_step :: "string \<Rightarrow> int \<Rightarrow> int result" where
  "view_step line view_nb =
     (case re_search view_re line of None \<Rightarrow> Inr view_nb
      | Some g \<Rightarrow> rbind (py_int (g ! 0)) (\<lambda>v. Inr (max view_nb v)))"

definition last_view :: "string \<Rightarrow> int result" where
  "last_view text = rfold view_step (file_lines text) 0"

definition killed_msg :: "int \<Rightarrow> int \<Rightarrow> int \<Rightarrow> string" where
  "killed_msg i view_nb nb_faults =
     ''Killed replica R'' @ int_str i @ '' at view V='' @ int_str view_nb @ '' when '' @ int_str nb_faults @
     '' fault(s) needed.''"

text \<open>A row of \<open>get_logger\<close>.\<close>

definition logger_row :: "string \<Rightarrow> string \<Rightarrow> string \<Rightarrow> string" where
  "logger_row ts level msg = ''['' @ ts @ ''] ['' @ level @ ''] '' @ msg @ [LF]"

text \<open>What is appended to the log of the miner after it was killed; \<open>ts\<close> is the time of the logger.\<close>

definition report_kill :: "string \<Rightarrow> int \<Rightarrow> int \<Rightarrow> int \<Rightarrow> string \<Rightarrow> string result" where
  "report_kill ts i nb_validators nb_faults raw =
     rbind (decode_text raw) (\<lambda>text.
     rbind (last_view text) (\<lambda>view_nb.
       Inr (raw @ logger_row ts (if view_nb mod nb_validators \<le> i then ''INFO'' else ''ERROR'')
         (killed_msg i view_nb nb_faults))))"

text \<open>
  The main program: what it ran, and the log of the miner in the end. What the miner itself has written
  when the log is read is an argument, and so is the function that makes a path absolute.
\<close>

definition run_replicas_main :: "string \<Rightarrow> (string \<Rightarrow> string) \<Rightarrow> string \<Rightarrow> int \<Rightarrow> int \<Rightarrow> (int \<times> rat) option \<Rightarrow> string \<Rightarrow>
    node_world \<Rightarrow> string result \<times> node_world" where
  "run_replicas_main ts absolute itcoin_fbft_path i nb_validators fault_info written w =
     (let node_name = get_node_dirname i VALIDATOR nb_validators;
          filename = node_logs_path node_name @ ''/miner_logs.txt'';
          fbftd = absolute (itcoin_fbft_path @ ''/build/src/main'');
          lib_dir = absolute (itcoin_fbft_path @ ''/build/usrlocal/lib'');
          datadir = itcoin_fbft_path @ ''/'' @ benchmark_path @ ''/'' @ output_path @ ''/'' @ node_name;
          command = fbftd @ '' -datadir='' @ datadir @ '' &> '' @ filename;
          window = ''miner-'' @ int_str i;
          w1 = ran_cmd [''tmux'', ''new-window'', ''-t'', TMUX_SESSION_NAME, ''-n'', window, ''-e'',
                 ''LD_LIBRARY_PATH='' @ lib_dir, command] (ran_cmd [''makedirs'', node_logs_path node_name] w)
      in case fault_info of
           None \<Rightarrow> (Inr written, w1)
         | Some (nb_faults, fault_time) \<Rightarrow>
             (report_kill ts i nb_validators nb_faults written,
              ran_cmd [''tmux'', ''kill-window'', ''-t'', window] (w1\<lparr>pauses := pauses w1 @ [fault_time]\<rparr>)))"

section \<open>\<^verbatim>\<open>run-donor.py\<close>\<close>

text \<open>
  The answers to \<open>getwalletinfo\<close> (the balance) and to \<open>sendtoaddress\<close> (the transaction), each by the
  number of calls made so far, and whether a stop signal arrives during the n-th pause.
\<close>

record donor_env =
  wallet :: "nat \<Rightarrow> rat answer"
  pay :: "nat \<Rightarrow> string \<Rightarrow> string answer"
  signals :: "nat \<Rightarrow> bool"

text \<open>
  The variable \<open>stop_sig_received\<close> of the main program and the one that the handler of signals sets:
  the handler declares it \<open>global\<close>, so that it is another one.
\<close>

record donor =
  stop_sig_received :: bool
  global_stop_sig_received :: bool
  donor_ready :: bool
  txid :: "string option"
  wallet_calls :: nat
  pay_calls :: nat
  paid :: "(string \<times> string) list"
  slept_rounds :: nat

definition start_donor :: donor where
  "start_donor = \<lparr>stop_sig_received = False, global_stop_sig_received = False, donor_ready = False,
     txid = None, wallet_calls = 0, pay_calls = 0, paid = [], slept_rounds = 0\<rparr>"

definition donor_pause :: "donor_env \<Rightarrow> donor \<Rightarrow> donor" where
  "donor_pause env s =
     s\<lparr>slept_rounds := Suc (slept_rounds s),
       global_stop_sig_received := (global_stop_sig_received s \<or> signals env (slept_rounds s))\<rparr>"

definition fund_step :: "donor_env \<Rightarrow> donor \<Rightarrow> donor + donor" where
  "fund_step env s =
     (if donor_ready s \<or> stop_sig_received s then Inl s
      else let s' = s\<lparr>wallet_calls := Suc (wallet_calls s)\<rparr>
        in Inr (donor_pause env
          (case wallet env (wallet_calls s) of
             Reply balance \<Rightarrow> if balance > 50 then s'\<lparr>donor_ready := True\<rparr> else s'
           | _ \<Rightarrow> s')))"

text \<open>
  The payments of one round. An error ends the round; the message for a \<open>JSONRPCException\<close> names the last
  transaction, which need not exist yet.
\<close>

fun pay_clients :: "donor_env \<Rightarrow> string list \<Rightarrow> donor \<Rightarrow> unit result \<times> donor" where
  "pay_clients env [] s = (Inr (), s)"
| "pay_clients env (address # addresses) s =
     (let s' = s\<lparr>pay_calls := Suc (pay_calls s)\<rparr>
      in case pay env (pay_calls s) address of
           Reply t \<Rightarrow> pay_clients env addresses (s'\<lparr>txid := Some t, paid := paid s @ [(address, t)]\<rparr>)
         | Rpc_error _ \<Rightarrow> (if txid s = None then Inl UnboundLocalError else Inr (), s')
         | Process_error \<Rightarrow> (Inr (), s'))"

definition pay_step :: "donor_env \<Rightarrow> string list \<Rightarrow> donor \<Rightarrow> (unit result \<times> donor) + donor" where
  "pay_step env addresses s =
     (if stop_sig_received s then Inl (Inr (), s)
      else case pay_clients env addresses s of
             (Inl e, s') \<Rightarrow> Inl (Inl e, s')
           | (Inr _, s') \<Rightarrow> Inr (donor_pause env s'))"

definition run_donor_main :: "donor_env \<Rightarrow> string list \<Rightarrow> (unit result \<times> donor) option" where
  "run_donor_main env addresses =
     (case loop (fund_step env) start_donor of None \<Rightarrow> None | Some s \<Rightarrow> loop (pay_step env addresses) s)"

section \<open>Waiting for a node\<close>

text \<open>The answers of a node that is still starting.\<close>

definition starting :: "unit answer \<Rightarrow> bool" where
  "starting a \<longleftrightarrow> a = Process_error \<or> a = Rpc_error (- 28)"

definition is_reply :: "'a answer \<Rightarrow> bool" where
  "is_reply a \<longleftrightarrow> (\<exists>x. a = Reply x)"

text \<open>The number of the first answer, from the k-th on, that has a property.\<close>

definition first_from :: "nat \<Rightarrow> (nat \<Rightarrow> bool) \<Rightarrow> nat" where
  "first_from k P = (LEAST n. k \<le> n \<and> P n)"

lemma first_fromI:
  assumes "k \<le> n" "P n"
  shows "k \<le> first_from k P" "P (first_from k P)" "j < first_from k P \<Longrightarrow> k \<le> j \<Longrightarrow> \<not> P j"
proof -
  have "k \<le> (LEAST n. k \<le> n \<and> P n) \<and> P (LEAST n. k \<le> n \<and> P n)" by (rule LeastI [of _ n]) (use assms in blast)
  then show "k \<le> first_from k P" "P (first_from k P)" by (simp_all add: first_from_def)
  show "\<not> P j" if "j < first_from k P" "k \<le> j" using not_less_Least [of j "\<lambda>n. k \<le> n \<and> P n"] that by (auto simp: first_from_def)
qed

lemma calls_after [simp]: "calls ((called p ^^ n) w) = calls w + n"
  by (induction n) (simp_all add: called_def)

lemma ran_cmd_calls [simp]: "calls (ran_cmd argv w) = calls w"
  by (simp add: ran_cmd_def)

lemma wait_for_node:
  "map_option fst (loop (ready_step ans) w) =
    (if \<exists>n \<ge> calls w. \<not> starting (ans n)
     then Some (if is_reply (ans (first_from (calls w) (\<lambda>n. \<not> starting (ans n)))) then Inr () else Inl JSONRPCException)
     else None)"
proof -
  let ?st = "\<lambda>k. (called (1 / 5) ^^ k) w"
  have go: "ready_step ans (?st k) = Inr (?st (Suc k))" if "starting (ans (calls w + k))" for k
    using that by (auto simp: ready_step_def starting_def)
  show ?thesis
  proof (cases "\<exists>n \<ge> calls w. \<not> starting (ans n)")
    case True
    then obtain n where n: "calls w \<le> n" "\<not> starting (ans n)" by blast
    let ?N = "first_from (calls w) (\<lambda>n. \<not> starting (ans n))"
    note N = first_fromI [of "calls w" n "\<lambda>n. \<not> starting (ans n)", OF n]
    have "ready_step ans (?st k) = Inr (?st (Suc k))" if "k < ?N - calls w" for k
      by (rule go) (use N(3) [of "calls w + k"] that in auto)
    then have "loop (ready_step ans) (?st 0) = loop (ready_step ans) (?st (?N - calls w))" by (rule loop_reach)
    moreover have "\<exists>w'. ready_step ans (?st (?N - calls w)) = Inl (if is_reply (ans ?N) then Inr () else Inl JSONRPCException, w')"
      using N(1,2) by (auto simp: ready_step_def starting_def is_reply_def split: answer.split)
    ultimately have "\<exists>w'. loop (ready_step ans) w = Some (if is_reply (ans ?N) then Inr () else Inl JSONRPCException, w')"
      using loop_ends by fastforce
    then show ?thesis using True by auto
  next
    case False
    then have "loop (ready_step ans) (?st 0) = None" by (intro loop_never go) auto
    then show ?thesis using False by simp
  qed
qed

text \<open>C26: A node is waited for as long as it takes. \<^verbatim>\<open>run-signet.py\<close> runs as long as the node cannot be
  reached or is warming up; it returns with the first answer of the node, and raises the exception of
  the node if that answer is another error. It runs forever exactly if the node never answers.\<close>

theorem signet_waits_for_node:
  "map_option fst (run_signet_main ans absolute bin_path i t nb w) =
    (if \<exists>n \<ge> calls w. \<not> starting (ans n)
     then Some (if is_reply (ans (first_from (calls w) (\<lambda>n. \<not> starting (ans n)))) then Inr () else Inl JSONRPCException)
     else None)"
  by (simp add: run_signet_main_def Let_def wait_for_node)

section \<open>The donor\<close>

definition rich :: "rat answer \<Rightarrow> bool" where
  "rich a \<longleftrightarrow> (\<exists>b. a = Reply b \<and> b > 50)"

definition fund_state :: "donor_env \<Rightarrow> nat \<Rightarrow> donor" where
  "fund_state env n = start_donor\<lparr>donor_ready := (\<exists>k. n = Suc k \<and> rich (wallet env k)), wallet_calls := n,
     slept_rounds := n, global_stop_sig_received := (\<exists>j < n. signals env j)\<rparr>"

lemma fund_state_step:
  "\<not> donor_ready (fund_state env n) \<Longrightarrow> fund_step env (fund_state env n) = Inr (fund_state env (Suc n))"
  by (cases "wallet env n")
    (auto simp: fund_step_def fund_state_def start_donor_def donor_pause_def rich_def less_Suc_eq Let_def)

lemma donor_funded:
  "loop (fund_step env) start_donor =
     (if \<exists>n. rich (wallet env n) then Some (fund_state env (Suc (LEAST n. rich (wallet env n)))) else None)"
proof -
  have start: "start_donor = fund_state env 0" by (simp add: fund_state_def start_donor_def)
  show ?thesis
  proof (cases "\<exists>n. rich (wallet env n)")
    case True
    let ?N = "LEAST n. rich (wallet env n)"
    have N1: "rich (wallet env ?N)" by (rule LeastI_ex [OF True])
    have N2: "\<not> rich (wallet env k)" if "k < ?N" for k using that by (rule not_less_Least)
    have "loop (fund_step env) (fund_state env 0) = loop (fund_step env) (fund_state env (Suc ?N))"
    proof (rule loop_reach, rule fund_state_step)
      fix k
      assume "k < Suc ?N"
      then show "\<not> donor_ready (fund_state env k)" using N2 [of "k - 1"] by (cases k) (simp_all add: fund_state_def)
    qed
    moreover have "fund_step env (fund_state env (Suc ?N)) = Inl (fund_state env (Suc ?N))"
      using N1 by (simp add: fund_step_def fund_state_def)
    ultimately show ?thesis using True start loop_ends by fastforce
  next
    case False
    then have "loop (fund_step env) (fund_state env 0) = None"
      by (intro loop_never fund_state_step) (simp add: fund_state_def start_donor_def)
    then show ?thesis using False start by simp
  qed
qed

text \<open>Once a payment was made, no error ends the donor, and no signal does.\<close>

lemma pay_clients_goes_on:
  "txid s \<noteq> None \<Longrightarrow> \<exists>s'. pay_clients env addresses s = (Inr (), s') \<and> txid s' \<noteq> None \<and>
     stop_sig_received s' = stop_sig_received s"
proof (induction addresses arbitrary: s)
  case (Cons address addresses)
  show ?case
  proof (cases "pay env (pay_calls s) address")
    case (Reply t)
    then show ?thesis using Cons.IH [of "s\<lparr>pay_calls := Suc (pay_calls s), txid := Some t, paid := paid s @ [(address, t)]\<rparr>"] by simp
  qed (use Cons.prems in auto)
qed simp

lemma donor_pays_forever:
  assumes "txid s \<noteq> None" "\<not> stop_sig_received s"
  shows "loop (pay_step env addresses) s = None"
proof (rule loop_forever [where P = "\<lambda>s. txid s \<noteq> None \<and> \<not> stop_sig_received s"])
  fix u :: donor
  assume u: "txid u \<noteq> None \<and> \<not> stop_sig_received u"
  then obtain u' where "pay_clients env addresses u = (Inr (), u')" "txid u' \<noteq> None" "\<not> stop_sig_received u'"
    using pay_clients_goes_on [of u env addresses] by auto
  then show "\<exists>u'. pay_step env addresses u = Inr u' \<and> txid u' \<noteq> None \<and> \<not> stop_sig_received u'"
    using u by (auto simp: pay_step_def donor_pause_def)
qed (use assms in blast)

definition unpaid_round :: "donor_env \<Rightarrow> donor \<Rightarrow> donor" where
  "unpaid_round env s = donor_pause env (s\<lparr>pay_calls := Suc (pay_calls s)\<rparr>)"

lemma unpaid_rounds [simp]:
  "pay_calls ((unpaid_round env ^^ n) s) = pay_calls s + n" "txid ((unpaid_round env ^^ n) s) = txid s"
  "stop_sig_received ((unpaid_round env ^^ n) s) = stop_sig_received s"
  by (induction n) (simp_all add: unpaid_round_def donor_pause_def)

lemma unpaid_round_step:
  assumes "\<not> stop_sig_received s" "pay env (pay_calls s) a = Process_error"
  shows "pay_step env (a # as) s = Inr (unpaid_round env s)"
  using assms by (simp add: pay_step_def unpaid_round_def)

lemma donor_pays:
  assumes "pay_calls s = 0" "txid s = None" "\<not> stop_sig_received s"
  shows "map_option fst (loop (pay_step env (a # as)) s) =
    (if \<exists>n c. pay env n a = Rpc_error c \<and> (\<forall>j < n. pay env j a = Process_error) then Some (Inl UnboundLocalError) else None)"
proof -
  let ?st = "\<lambda>n. (unpaid_round env ^^ n) s" and ?body = "pay_step env (a # as)"
  have go: "?body (?st n) = Inr (?st (Suc n))" if "pay env n a = Process_error" for n
    using unpaid_round_step [of "?st n"] that assms by simp
  show ?thesis
  proof (cases "\<exists>n. pay env n a \<noteq> Process_error")
    case False
    then have "loop ?body (?st 0) = None" by (intro loop_never go) blast
    then show ?thesis using False by simp
  next
    case True
    define N where "N = (LEAST n. pay env n a \<noteq> Process_error)"
    have N1: "pay env N a \<noteq> Process_error" unfolding N_def by (rule LeastI_ex [OF True])
    have N2: "pay env k a = Process_error" if "k < N" for k using not_less_Least that unfolding N_def by blast
    have only_N: "n = N" if "pay env n a = Rpc_error c" "\<forall>j < n. pay env j a = Process_error" for n c
      using that N1 N2 by (metis answer.distinct(5) linorder_neqE_nat)
    have reach: "loop ?body (?st 0) = loop ?body (?st N)" by (rule loop_reach, rule go, rule N2)
    show ?thesis
    proof (cases "pay env N a")
      case (Reply t)
      let ?u = "?st N\<lparr>pay_calls := Suc N, txid := Some t, paid := paid (?st N) @ [(a, t)]\<rparr>"
      obtain s' where s': "pay_clients env as ?u = (Inr (), s')" "txid s' \<noteq> None" "\<not> stop_sig_received s'"
        using pay_clients_goes_on [of ?u env as] assms by auto
      then have "?body (?st N) = Inr (donor_pause env s')" using Reply assms by (simp add: pay_step_def)
      then have "loop ?body (?st N) = loop ?body (donor_pause env s')" by (subst loop.simps) simp
      also have "\<dots> = None" by (rule donor_pays_forever) (use s' in \<open>simp_all add: donor_pause_def\<close>)
      finally show ?thesis using reach Reply only_N by auto
    next
      case (Rpc_error c)
      then have "?body (?st N) = Inl (Inl UnboundLocalError, ?st N\<lparr>pay_calls := Suc N\<rparr>)" using assms by (simp add: pay_step_def)
      then have "loop ?body s = Some (Inl UnboundLocalError, ?st N\<lparr>pay_calls := Suc N\<rparr>)" using reach loop_ends by fastforce
      then show ?thesis using Rpc_error N2 by auto
    qed (use N1 in simp)
  qed
qed

text \<open>C16: A donor cannot be stopped. Whatever signals arrive, \<^verbatim>\<open>run-donor.py\<close> never returns: the handler of
  signals sets another variable than the one the loops ask. It ends exactly if its wallet is filled
  and the very first payment the node answers is refused, and then by an \<open>UnboundLocalError\<close> in the
  handler that is meant to report the refusal; after one payment no error ends it.\<close>

theorem donor_ends_iff:
  "map_option fst (run_donor_main env (a # as)) =
    (if (\<exists>n. rich (wallet env n)) \<and>
        (\<exists>n c. pay env n a = Rpc_error c \<and> (\<forall>j < n. pay env j a = Process_error))
     then Some (Inl UnboundLocalError) else None)"
proof -
  let ?s = "fund_state env (Suc (LEAST n. rich (wallet env n)))"
  have "pay_calls ?s = 0" "txid ?s = None" "\<not> stop_sig_received ?s" by (simp_all add: fund_state_def start_donor_def)
  note p = donor_pays [OF this, of env a as]
  show ?thesis unfolding run_donor_main_def donor_funded
    by (cases "\<exists>n. rich (wallet env n)") (simp_all only: if_True if_False option.case p simp_thms option.map)
qed

text \<open>A round in which every payment is accepted pays every client once, in order.\<close>

lemma pay_clients_all:
  assumes "\<And>i. i < length addresses \<Longrightarrow> pay env (pay_calls s + i) (addresses ! i) = Reply (ts i)"
  shows "\<exists>s'. pay_clients env addresses s = (Inr (), s') \<and>
    paid s' = paid s @ map (\<lambda>i. (addresses ! i, ts i)) [0..<length addresses]"
  using assms
proof (induction addresses arbitrary: s ts)
  case (Cons a as)
  let ?s = "s\<lparr>pay_calls := Suc (pay_calls s), txid := Some (ts 0), paid := paid s @ [(a, ts 0)]\<rparr>"
  have "pay env (pay_calls ?s + i) (as ! i) = Reply (ts (Suc i))" if "i < length as" for i
    using Cons.prems [of "Suc i"] that by simp
  from Cons.IH [of ?s "\<lambda>i. ts (Suc i)", OF this] obtain s' where "pay_clients env as ?s = (Inr (), s')"
    "paid s' = paid ?s @ map (\<lambda>i. (as ! i, ts (Suc i))) [0..<length as]" by blast
  moreover have "map (\<lambda>i. ((a # as) ! i, ts i)) [0..<length (a # as)] =
      (a, ts 0) # map (\<lambda>i. (as ! i, ts (Suc i))) [0..<length as]"
    by (subst length_Cons, subst map_upt_Suc) simp
  moreover have "pay_clients env (a # as) s = pay_clients env as ?s" using Cons.prems [of 0] by simp
  ultimately show ?case by simp
qed simp

section \<open>The report of a killed replica\<close>

lemma file_lines_line: "LF \<notin> set l \<Longrightarrow> file_lines_from (l @ LF # s) acc = (rev acc @ l @ [LF]) # file_lines s"
  by (induction l arbitrary: acc) (auto simp: file_lines_def)

lemma file_lines_log:
  "\<forall>r \<in> set rows. LF \<notin> set (row_text r) \<Longrightarrow> file_lines (log_text rows) = map (\<lambda>r. row_text r @ [LF]) rows"
proof (induction rows)
  case (Cons r rows)
  then show ?case using file_lines_line [of "row_text r" "log_text rows" "[]"]
    by (simp add: log_text_def file_lines_def)
qed (simp add: log_text_def file_lines_def)

text \<open>The view that a row mentions.\<close>

fun row_view :: "log_row \<Rightarrow> int option" where
  "row_view (Event i y m d h mi s us (NPbft cls ht t v n r)) = Some (int v)"
| "row_view _ = None"

text \<open>
  A log of a miner as far as its reports go: rows of the node and other rows; only rows of the protocol
  mention a view, and no row imitates the report.
\<close>

definition miner_row :: "log_row \<Rightarrow> bool" where
  "miner_row r \<longleftrightarrow> row_ok r \<and> (row_view r = None \<longrightarrow> \<not> contains ''V='' (row_text r)) \<and>
     \<not> contains ''Killed replica R'' (row_text r)"

definition max_view :: "log_row list \<Rightarrow> int" where
  "max_view rows = Max (insert 0 (set (List.map_filter row_view rows)))"

lemma re_search_from: "re_search r s \<noteq> None \<longleftrightarrow> (\<exists>k \<le> length s. rx r (drop k s) \<noteq> None)"
proof (induction s)
  case (Cons c s)
  have "(\<exists>k \<le> length (c # s). rx r (drop k (c # s)) \<noteq> None) \<longleftrightarrow>
      rx r (c # s) \<noteq> None \<or> (\<exists>k \<le> length s. rx r (drop k s) \<noteq> None)"
    by (metis Suc_le_mono drop0 drop_Suc_Cons length_Cons le0 not0_implies_Suc)
  then show ?case using Cons by (auto split: option.splits)
qed simp

lemma rx_dot_star_end: "\<exists>r. rx [dot_star] s = Some ([], r)"
proof -
  have "rep_counts any_char 0 None True s = length (takeWhile any_char s) # rev [0..<length (takeWhile any_char s)]"
    by (simp add: rep_counts_def Let_def)
  then show ?thesis by simp
qed

lemma rx_dot_star_skip: "rx rs s \<noteq> None \<Longrightarrow> rx (dot_star # rs) s \<noteq> None"
proof
  assume ne: "rx rs s \<noteq> None" and no: "rx (dot_star # rs) s = None"
  have "0 \<in> set (rep_counts any_char 0 None True s)" by (auto simp: rep_counts_def Let_def)
  then show False using ne no unfolding rx.simps(3) first_some_None_iff by fastforce
qed

lemma view_search:
  assumes "list_all any_char pre" and "CHR ''V'' \<notin> set rest" and "rest = [] \<or> \<not> is_digit (hd rest)"
  shows "re_search view_re (pre @ ''V='' @ nat_str v @ rest) = Some [nat_str v]"
proof -
  obtain r where "rx [dot_star] rest = Some ([], r)" using rx_dot_star_end by blast
  then have "rx [digits_cap, dot_star] (nat_str v @ rest) = Some ([nat_str v], r)" using rx_digits assms(3) by blast
  then have "rx view_re (pre @ ([] @ CHR ''V'' # ''='') @ nat_str v @ rest) = Some ([nat_str v], r)"
    unfolding view_re_def
    using rx_greedy_until [where a = "[]" and cap = False, OF assms(1), of "CHR ''V''" "''=''"] assms(2)
    by (simp add: digit_not is_digit_def del: rx.simps)
  then show ?thesis by (cases pre) simp_all
qed

lemma view_step_row:
  assumes "miner_row r"
  shows "view_step (row_text r @ [LF]) v = Inr (case row_view r of None \<Rightarrow> v | Some x \<Rightarrow> max v x)"
proof (cases "row_view r")
  case None
  then have "\<not> contains ''V='' (row_text r)" using assms by (simp add: miner_row_def)
  then have "\<not> contains ''V='' (row_text r @ [LF])" by (auto simp: contains_iff_sublist sublist_append sublist_Cons_right prefix_Cons suffix_def Cons_eq_append_conv append_eq_Cons_conv)
  then have "re_search view_re (row_text r @ [LF]) = None"
    using rx_Lit_contained contains_drop re_search_from [of view_re]
    by (metis list.set_intros(1,2) option.exhaust view_re_def)
  then show ?thesis using None by (simp add: view_step_def)
next
  case (Some x)
  then obtain i y m d h mi s us cls ht t k n q where r: "r = Event i y m d h mi s us (NPbft cls ht t k n q)"
    and x: "x = int k" by (cases r rule: row_view.cases) auto
  let ?pre = "log_line i (ptime_str y m d h mi s us) (''R'' @ nat_str q @ '' applying <'' @ ACTION_NAME cls @
      '', Request=(H='' @ nat_str ht @ '', T='' @ nat_str t @ ''), '')"
  let ?rest = "'', N='' @ nat_str n @ '', R='' @ nat_str q @ ''> effect.'' @ [LF]"
  have "row_text r @ [LF] = ?pre @ ''V='' @ nat_str k @ ?rest"
    by (simp add: r log_line_def applying_msg_def identify_def)
  moreover have "list_all any_char ?pre"
  proof -
    have "row_ok r" using assms by (simp add: miner_row_def)
    then have "list_all any_char (ptime_str y m d h mi s us)"
      by (intro stamp_chars_any ptime_str_chars) (simp_all add: r)
    moreover have "list_all any_char (ACTION_NAME cls)" using action_name_one_line [of cls] one_line_any_char
      by (auto simp: list_all_iff)
    ultimately show ?thesis by (simp add: log_line_def) (simp add: any_char_def)
  qed
  moreover have "CHR ''V'' \<notin> set ?rest" by (simp add: digit_not is_digit_def)
  moreover have "?rest = [] \<or> \<not> is_digit (hd ?rest)" by (simp add: is_digit_def)
  ultimately have "re_search view_re (row_text r @ [LF]) = Some [nat_str k]" using view_search by metis
  then show ?thesis using Some x by (simp add: view_step_def)
qed

lemma last_view_rows:
  assumes "list_all miner_row rows"
  shows "last_view (log_text rows) = Inr (max_view rows)"
proof -
  have "LF \<notin> set (row_text r)" if "r \<in> set rows" for r
    using row_text_one_line [of r] assms that one_line_any_char
    by (auto simp: list_all_iff miner_row_def is_linebreak_def)
  then have lines: "file_lines (log_text rows) = map (\<lambda>r. row_text r @ [LF]) rows" by (simp add: file_lines_log)
  have "rfold view_step (map (\<lambda>r. row_text r @ [LF]) rows) v = Inr (fold max (List.map_filter row_view rows) v)" for v
    using assms by (induction rows arbitrary: v) (auto simp: view_step_row map_filter_simps max.commute split: option.splits)
  then show ?thesis unfolding last_view_def lines max_view_def by (simp add: fold_max_Max)
qed

lemma contains_append_fresh: "c \<notin> set l \<Longrightarrow> l \<noteq> [] \<Longrightarrow> contains l (s @ c # t) \<longleftrightarrow> contains l s \<or> contains l t"
proof (induction s)
  case (Cons x s)
  have "prefix l (x # s @ c # t) \<longleftrightarrow> prefix l (x # s)"
    using Cons.prems(1) by (auto simp: prefix_def append_eq_append_conv2 append_eq_Cons_conv Cons_eq_append_conv)
  then show ?case using Cons by auto
qed (cases l; auto)

lemma contains_part: "contains (a @ l @ b) s \<Longrightarrow> contains l s"
  unfolding contains_iff_sublist sublist_def by (metis append.assoc)

lemma contains_log_text:
  assumes "\<forall>r \<in> set rows. \<not> contains l (row_text r)" "LF \<notin> set l" "l \<noteq> []"
  shows "\<not> contains l (log_text rows)"
  using assms by (induction rows) (auto simp: log_text_def contains_append_fresh)

lemma killed_msg_digits:
  "0 \<le> v \<Longrightarrow> killed_msg (int i) v (int f) = ''Killed replica R'' @ nat_str i @ '' at view V='' @ nat_str (nat v) @
     '' when '' @ nat_str f @ '' fault(s) needed.''"
  by (simp add: killed_msg_def int_str_def)

lemma killed_row_other_level:
  assumes "\<not> contains ''Killed replica R'' t" "set ts \<subseteq> stamp_chars" "0 \<le> v"
  shows "\<not> contains ''ERROR] Killed replica R'' (t @ logger_row ts ''INFO'' (killed_msg (int i) v (int f)))"
    "\<not> contains ''INFO] Killed replica R'' (t @ logger_row ts ''ERROR'' (killed_msg (int i) v (int f)))"
proof -
  have t: "\<not> contains (m @ ''] Killed replica R'') t" for m
    using contains_part [of "m @ ''] ''" "''Killed replica R''" "[]" t] assms(1) by auto
  have ts: "\<not> contains (m @ ''] Killed replica R'') (ts @ ''] '')" for m
  proof
    assume "contains (m @ ''] Killed replica R'') (ts @ ''] '')"
    then have "CHR ''K'' \<in> set (ts @ ''] '')" using contains_set by fastforce
    then show False using assms(2) by (auto simp: stamp_chars_def)
  qed
  have split: "contains (m @ ''] Killed replica R'') (t @ logger_row ts level msg) \<longleftrightarrow>
      contains (m @ ''] Killed replica R'') (level @ ''] '' @ msg @ [LF])" if "CHR ''['' \<notin> set m" for m level msg
    using that t [of m] ts [of m] contains_append_fresh [of "CHR ''[''" "m @ ''] Killed replica R''" t "ts @ ''] [''@ level @ ''] '' @ msg @ [LF]"]
      contains_append_fresh [of "CHR ''[''" "m @ ''] Killed replica R''" "ts @ ''] ''" "level @ ''] '' @ msg @ [LF]"]
    by (simp add: logger_row_def)
  have d: "CHR ''E'' \<notin> set (nat_str n)" "CHR ''N'' \<notin> set (nat_str n)" for n by (simp_all add: digit_not is_digit_def)
  have "CHR ''E'' \<notin> set (''INFO'' @ ''] '' @ killed_msg (int i) v (int f) @ [LF])"
    using d by (simp add: killed_msg_digits [OF assms(3)])
  then have "\<not> contains (''ERROR'' @ ''] Killed replica R'') (''INFO'' @ ''] '' @ killed_msg (int i) v (int f) @ [LF])"
    using contains_set [of "''ERROR'' @ ''] Killed replica R''"] by (metis append_Cons insert_subset list.simps(15))
  then show "\<not> contains ''ERROR] Killed replica R'' (t @ logger_row ts ''INFO'' (killed_msg (int i) v (int f)))"
    using split [of "''ERROR''"] by simp
  have "CHR ''N'' \<notin> set (''ERROR'' @ ''] '' @ killed_msg (int i) v (int f) @ [LF])"
    using d by (simp add: killed_msg_digits [OF assms(3)])
  then have "\<not> contains (''INFO'' @ ''] Killed replica R'') (''ERROR'' @ ''] '' @ killed_msg (int i) v (int f) @ [LF])"
    using contains_set [of "''INFO'' @ ''] Killed replica R''"] by (metis append_Cons insert_subset list.simps(15))
  then show "\<not> contains ''INFO] Killed replica R'' (t @ logger_row ts ''ERROR'' (killed_msg (int i) v (int f)))"
    using split [of "''INFO''"] by simp
qed

lemma killed_row_found:
  assumes "0 \<le> v"
  shows "re_search killed_error_re (t @ logger_row ts ''ERROR'' (killed_msg (int i) v (int f))) \<noteq> None"
    "re_search killed_info_re (t @ logger_row ts ''INFO'' (killed_msg (int i) v (int f))) \<noteq> None"
proof -
  let ?rest = "'' when '' @ nat_str f @ '' fault(s) needed.'' @ [LF]"
  have "rx [digits_cap] (nat_str (nat v) @ ?rest) = Some ([nat_str (nat v)], ?rest)"
    by (rule rx_digits) (simp_all add: is_digit_def)
  then have "rx [Lit '' at view V='', digits_cap] ('' at view V='' @ nat_str (nat v) @ ?rest) = Some ([nat_str (nat v)], ?rest)"
    by (rule rx_Lit_step)
  then have "rx [digits_cap, Lit '' at view V='', digits_cap] (nat_str i @ '' at view V='' @ nat_str (nat v) @ ?rest) =
      Some ([nat_str i, nat_str (nat v)], ?rest)"
    by (rule rx_digits) (simp add: is_digit_def)
  then have any: "rx (Lit l # [digits_cap, Lit '' at view V='', digits_cap]) (l @ nat_str i @ '' at view V='' @ nat_str (nat v) @ ?rest) \<noteq> None" for l
    using rx_Lit_step by fastforce
  have found: "re_search r (u @ w) \<noteq> None" if "rx r w \<noteq> None" for r u w
    unfolding re_search_from by (rule exI [of _ "length u"]) (use that in simp)
  have "rx killed_error_re ('' [ERROR] Killed replica R'' @ nat_str i @ '' at view V='' @ nat_str (nat v) @ ?rest) \<noteq> None"
    unfolding killed_error_re_def by (rule rx_dot_star_skip, rule any)
  from found [OF this, of "t @ ''['' @ ts @ '']''"]
  show "re_search killed_error_re (t @ logger_row ts ''ERROR'' (killed_msg (int i) v (int f))) \<noteq> None"
    by (simp add: logger_row_def killed_msg_digits [OF assms])
  have "rx killed_info_re (''[INFO] Killed replica R'' @ nat_str i @ '' at view V='' @ nat_str (nat v) @ ?rest) \<noteq> None"
    unfolding killed_info_re_def by (rule any)
  from found [OF this, of "t @ ''['' @ ts @ ''] ''"]
  show "re_search killed_info_re (t @ logger_row ts ''INFO'' (killed_msg (int i) v (int f))) \<noteq> None"
    by (simp add: logger_row_def killed_msg_digits [OF assms])
qed

lemma killed_row_not_found:
  assumes "\<not> contains ''Killed replica R'' t" "set ts \<subseteq> stamp_chars" "0 \<le> v"
  shows "re_search killed_error_re (t @ logger_row ts ''INFO'' (killed_msg (int i) v (int f))) = None"
    "re_search killed_info_re (t @ logger_row ts ''ERROR'' (killed_msg (int i) v (int f))) = None"
proof -
  have none: "re_search rs s = None" if "Lit l \<in> set rs" "\<not> contains l s" for rs l s
    using that rx_Lit_contained contains_drop re_search_from [of rs s] by (metis option.exhaust)
  have "\<not> contains '' [ERROR] Killed replica R'' (t @ logger_row ts ''INFO'' (killed_msg (int i) v (int f)))"
    using killed_row_other_level(1) [OF assms] contains_part [of "'' [''" "''ERROR] Killed replica R''" "[]"] by fastforce
  then show "re_search killed_error_re (t @ logger_row ts ''INFO'' (killed_msg (int i) v (int f))) = None"
    by (rule none [rotated]) (simp add: killed_error_re_def)
  have "\<not> contains ''[INFO] Killed replica R'' (t @ logger_row ts ''ERROR'' (killed_msg (int i) v (int f)))"
    using killed_row_other_level(2) [OF assms] contains_part [of "''[''" "''INFO] Killed replica R''" "[]"] by fastforce
  then show "re_search killed_info_re (t @ logger_row ts ''ERROR'' (killed_msg (int i) v (int f))) = None"
    by (rule none [rotated]) (simp add: killed_info_re_def)
qed

lemma find_pattern_none: "\<forall>p \<in> set ps. \<not> contains (fst p) s \<Longrightarrow> find_pattern ps s = None"
proof (induction s)
  case Nil
  then have "List.find (\<lambda>p. fst p = []) ps = None" by (auto simp: find_None_iff)
  then show ?case by simp
next
  case (Cons c s)
  then have "List.find (\<lambda>p. prefix (fst p) (c # s)) ps = None" by (auto simp: find_None_iff)
  then show ?case using Cons by simp
qed

text \<open>The report is a row of its own, which no expression of the log parser takes for an event.\<close>

lemma killed_row_ok:
  assumes "set ts \<subseteq> stamp_chars" "0 \<le> v" "level \<in> {''INFO'', ''ERROR''}"
  shows "\<exists>k. logger_row ts level (killed_msg (int i) v (int f)) = k @ [LF] \<and> row_ok (Other k)"
proof (intro exI conjI)
  let ?k = "''['' @ ts @ ''] ['' @ level @ ''] '' @ killed_msg (int i) v (int f)"
  show "logger_row ts level (killed_msg (int i) v (int f)) = ?k @ [LF]" by (simp add: logger_row_def)
  have "CHR ''B'' \<notin> stamp_chars" "CHR ''<'' \<notin> stamp_chars" by (simp_all add: stamp_chars_def)
  then have no: "CHR ''B'' \<notin> set ?k" "CHR ''<'' \<notin> set ?k"
    using assms(1,3) by (auto simp: killed_msg_digits [OF assms(2)] digit_not is_digit_def)
  have "\<not> contains (fst p) ?k" if "p \<in> set patterns" for p
  proof
    assume "contains (fst p) ?k"
    then have "set (fst p) \<subseteq> set ?k" by (rule contains_set)
    moreover have "CHR ''<'' \<in> set (fst p) \<or> CHR ''B'' \<in> set (fst p)" using patterns_shape [OF that] by fastforce
    ultimately show False using no by blast
  qed
  then have "find_pattern patterns ?k = None" by (intro find_pattern_none) blast
  moreover have "list_all (\<lambda>c. \<not> is_linebreak c) ?k"
    using no_linebreak_chars(3) [OF assms(1)] assms(3) by (auto simp: killed_msg_digits [OF assms(2)] no_linebreak_chars) (auto simp: is_linebreak_def)
  ultimately show "row_ok (Other ?k)" by simp
qed

lemma max_view_nonneg: "0 \<le> max_view rows"
  by (simp add: max_view_def)


section \<open>Examples\<close>

definition example_miner_rows :: "log_row list" where
  "example_miner_rows = [Event 1 2023 5 16 10 11 12 345678 (NPbft ExecuteActionLog 7 1684231872 3 8 2)]"

lemma example_miner_rows_ok: "list_all miner_row example_miner_rows" "utf8_ok (log_text example_miner_rows)"
    "max_view example_miner_rows = 3"
proof -
  have r: "row_text (hd example_miner_rows) = ''1 [2023-May-16 10:11:12.345678] [debug] R2 applying <EXECUTE, Request=(H=7, T=1684231872), V=3, N=8, R=2> effect.''"
    by (simp add: example_miner_rows_def log_line_def ptime_str_def stamp_def two_digits_def pad_zeros_def nat_str_small
        nat_str_large digit_char_def month_caps_def applying_msg_def identify_def ACTION_NAME_def)
  have "\<not> contains ''Killed replica R'' (row_text (hd example_miner_rows))" unfolding r by simp
  then show "list_all miner_row example_miner_rows"
    by (simp add: example_miner_rows_def miner_row_def valid_date_def valid_time_def days_in_month_def del: row_text.simps)
  have "log_text example_miner_rows = row_text (hd example_miner_rows) @ [LF]" by (simp add: log_text_def example_miner_rows_def)
  then show "utf8_ok (log_text example_miner_rows)" unfolding r by (simp add: utf8_ok_def lead_byte_def)
  show "max_view example_miner_rows = 3" by (simp add: max_view_def example_miner_rows_def map_filter_simps)
qed

definition example_donor :: donor_env where
  "example_donor = \<lparr>wallet = (\<lambda>_. Reply 51), pay = (\<lambda>_ _. Rpc_error (- 6)), signals = (\<lambda>_. True)\<rparr>"

theorem donor_ends_iff_witness:
  "map_option fst (run_donor_main example_donor [''a'']) = Some (Inl UnboundLocalError)"
proof -
  have "rich (wallet example_donor 0)" by (simp add: rich_def example_donor_def)
  moreover have "pay example_donor 0 ''a'' = Rpc_error (- 6)" by (simp add: example_donor_def)
  ultimately show ?thesis unfolding donor_ends_iff by (intro if_P) blast
qed


end
