(* ===== verification/Client_Program.thy ===== *)
theory Client_Program
  imports Log_Parser Node_Programs Sha1
begin

text \<open>
  \<^verbatim>\<open>benchmark/run-client.py\<close>: the program that loads the network with transactions. One round of its loop
  is a function of what the outside gives it in this round (the wallet, the clock, the random draws,
  the answers of the node); a run is any sequence of rounds. Amounts are whole satoshis, which is what
  the program rounds them to; the pause between rounds is counted in tenths of a second. The
  time measurements of a round are only printed.
\<close>

section \<open>Coins and transactions\<close>

record utxo =
  coin_txid :: string
  vout :: nat
  amount :: int

definition outpoint :: "utxo \<Rightarrow> string \<times> nat" where
  "outpoint c = (coin_txid c, vout c)"

record client_tx =
  tx_ins :: "utxo list"
  tx_outs :: "(string \<times> int) list"
  tx_bytes :: rat

text \<open>The parameters of a client and its addresses.\<close>

record client_config =
  nb_warmup_rounds :: int
  target_tx_rate :: rat
  target_tx_size :: int
  target_addresses :: "string list"

text \<open>The main program derives the parameters of one client from those of the benchmark.\<close>

definition client_parameters :: "int \<Rightarrow> int \<Rightarrow> rat \<Rightarrow> int \<Rightarrow> int \<Rightarrow> string list \<Rightarrow> client_config result" where
  "client_parameters warmup_duration block_time target_rate nb_clients tx_len addresses =
     (if block_time = 0 then Inl ZeroDivisionError
      else Inr \<lparr>nb_warmup_rounds = py_trunc (rat_of_int warmup_duration / rat_of_int block_time),
        target_tx_rate = target_rate / rat_of_int nb_clients, target_tx_size = tx_len, target_addresses = addresses\<rparr>)"

text \<open>The variables of the loop.\<close>

record client =
  warmup_rounds :: int
  query_unspent :: bool
  unspent_coins :: "utxo list"
  coin_selected_idxs :: "nat list"
  sleep_time :: int
  total_bytes_sent :: rat
  counter :: nat

definition start_client :: client where
  "start_client = \<lparr>warmup_rounds = 0, query_unspent = True, unspent_coins = [], coin_selected_idxs = [],
     sleep_time = 1, total_bytes_sent = 0, counter = 0\<rparr>"

text \<open>What the outside gives in one round: the draws of \<open>randrange\<close> are numbers of which the remainder counts.\<close>

record round_input =
  listunspent :: "utxo list answer"
  elapsed :: rat
  draws :: "nat list"
  signrawtransaction :: "string answer"
  sendrawtransaction :: "string answer"

datatype failure = Rpc_failure | Process_failure | Other_failure py_error

fun answer_of :: "'a answer \<Rightarrow> failure + 'a" where
  "answer_of (Reply x) = Inr x"
| "answer_of (Rpc_error c) = Inl Rpc_failure"
| "answer_of Process_error = Inl Process_failure"

datatype client_event = Sent client_tx | Refused failure | Insufficient | Rate_reached

section \<open>One round\<close>

text \<open>The coins of the last round that were not selected.\<close>

definition remaining_coins :: "client \<Rightarrow> utxo list" where
  "remaining_coins st = map snd (filter (\<lambda>(i, c). i \<notin> set (coin_selected_idxs st))
     (zip [0..<length (unspent_coins st)] (unspent_coins st)))"

definition update_coins :: "round_input \<Rightarrow> client \<Rightarrow> failure + client" where
  "update_coins r st =
     (if query_unspent st
      then case answer_of (listunspent r) of Inl f \<Rightarrow> Inl f
           | Inr cs \<Rightarrow> Inr (st\<lparr>unspent_coins := cs, coin_selected_idxs := []\<rparr>)
      else Inr (st\<lparr>unspent_coins := remaining_coins st, coin_selected_idxs := []\<rparr>))"

definition nb_tx_outputs :: "client_config \<Rightarrow> client \<Rightarrow> int" where
  "nb_tx_outputs cfg st =
     (if warmup_rounds st < nb_warmup_rounds cfg then 200
      else py_trunc (rat_of_int (target_tx_size cfg) / 180) + 1)"

definition amount_sent_per_output :: int where "amount_sent_per_output = 100000"

definition target_byte_rate :: "client_config \<Rightarrow> rat" where
  "target_byte_rate cfg = target_tx_rate cfg * rat_of_int (target_tx_size cfg)"

text \<open>
  Coins are drawn until they cover what is needed; a coin that was already selected is drawn again.
  The result is \<open>None\<close> if the loop has not ended after the given draws.
\<close>

fun select_coins :: "int \<Rightarrow> utxo list \<Rightarrow> nat list \<Rightarrow> nat list \<Rightarrow> int \<Rightarrow> (nat list \<times> int) option" where
  "select_coins need coins [] sel covered = (if covered < need then None else Some (sel, covered))"
| "select_coins need coins (d # ds) sel covered =
     (if covered < need then
        let i = d mod length coins
        in if i \<in> set sel then select_coins need coins ds sel covered
           else select_coins need coins ds (sel @ [i]) (covered + amount (coins ! i))
      else Some (sel, covered))"

definition tx_fee :: "nat \<Rightarrow> int \<Rightarrow> int" where
  "tx_fee n_inputs n_outputs = 5 * (10 + 148 * int n_inputs + 34 * n_outputs)"

text \<open>All outputs get the same amount, and the first one the change, too.\<close>

definition make_outputs :: "string list \<Rightarrow> nat \<Rightarrow> int \<Rightarrow> (string \<times> int) list" where
  "make_outputs addresses n change =
     map (\<lambda>i. (addresses ! (i mod length addresses),
       if i = 0 then amount_sent_per_output + change else amount_sent_per_output)) [0..<n]"

definition send_transaction :: "client_config \<Rightarrow> round_input \<Rightarrow> client \<Rightarrow> (client_event \<times> client) option" where
  "send_transaction cfg r st =
     (let n = nb_tx_outputs cfg st;
          st1 = st\<lparr>warmup_rounds := (if warmup_rounds st < nb_warmup_rounds cfg then warmup_rounds st + 1 else warmup_rounds st),
                   query_unspent := False\<rparr>
      in case select_coins ((n + 1) * amount_sent_per_output) (unspent_coins st) (draws r) [] 0 of
           None \<Rightarrow> None
         | Some (sel, covered) \<Rightarrow>
             let st2 = st1\<lparr>coin_selected_idxs := sel\<rparr>;
                 ins = map ((!) (unspent_coins st)) sel;
                 change = covered - n * amount_sent_per_output - tx_fee (length ins) n
             in Some
               (if n \<le> 0 then (Refused (Other_failure IndexError), st2)
                else case answer_of (signrawtransaction r) of Inl f \<Rightarrow> (Refused f, st2)
                | Inr hex \<Rightarrow> case answer_of (sendrawtransaction r) of Inl f \<Rightarrow> (Refused f, st2)
                | Inr txhash \<Rightarrow>
                    let tx_byte_len = rat_of_nat (length hex) / 2
                    in (Sent \<lparr>tx_ins = ins, tx_outs = make_outputs (target_addresses cfg) (nat n) change, tx_bytes = tx_byte_len\<rparr>,
                        st2\<lparr>total_bytes_sent := total_bytes_sent st2 + tx_byte_len, counter := Suc (counter st2),
                            sleep_time := sleep_time st2 - 1\<rparr>)))"

text \<open>
  One pass of the loop; every exception is caught, and leaves the variables as they are at this point.
\<close>

definition client_round :: "client_config \<Rightarrow> round_input \<Rightarrow> client \<Rightarrow> (client_event \<times> client) option" where
  "client_round cfg r st =
     (case update_coins r st of
        Inl f \<Rightarrow> Some (Refused f, st)
      | Inr st \<Rightarrow>
          let current_balance = sum_list (map amount (unspent_coins st));
              required_balance = (nb_tx_outputs cfg st + 1) * amount_sent_per_output
          in if elapsed r = 0 then Some (Refused (Other_failure ZeroDivisionError), st)
             else if current_balance < required_balance
             then Some (Insufficient, st\<lparr>query_unspent := True, sleep_time := 5\<rparr>)
             else if total_bytes_sent st / elapsed r < target_byte_rate cfg then send_transaction cfg r st
             else Some (Rate_reached, st\<lparr>sleep_time := sleep_time st + 1\<rparr>))"

text \<open>What the handlers log; \<open>e\<close> is the text of the exception.\<close>

fun failure_msg :: "failure \<Rightarrow> string \<Rightarrow> string" where
  "failure_msg Rpc_failure e = ''Error sending transactions '' @ e @ ''.''"
| "failure_msg Process_failure e = ''failed to interact with bitcoind''"
| "failure_msg (Other_failure x) e = ''Some other error: '' @ e @ ''.''"

section \<open>Notifications\<close>

fun from_bytes_little :: "string \<Rightarrow> nat" where
  "from_bytes_little [] = 0"
| "from_bytes_little (b # bs) = of_char b + 256 * from_bytes_little bs"

definition bytes_hex :: "string \<Rightarrow> string" where
  "bytes_hex bs = concat (map (\<lambda>b. hex_digits 2 (of_char b)) bs)"

definition notification_msg :: "string \<Rightarrow> string \<Rightarrow> string" where
  "notification_msg tx_hash_bytes seqnumber_bytes =
     ''seqnumber: '' @ nat_str (from_bytes_little seqnumber_bytes) @ '', tx hash='' @ bytes_hex tx_hash_bytes"

section \<open>Runs\<close>

fun sent_by :: "client_event \<Rightarrow> client_tx list" where
  "sent_by (Sent tx) = [tx]"
| "sent_by _ = []"

text \<open>Coins that may be spent: all different, and none an input of our transactions.\<close>

definition fresh_coins :: "client_tx list \<Rightarrow> utxo list \<Rightarrow> bool" where
  "fresh_coins txs cs \<longleftrightarrow> distinct (map outpoint cs) \<and> outpoint ` set cs \<inter> outpoint ` set (concat (map tx_ins txs)) = {}"

text \<open>What the node's wallet promises: it lists no coin twice, and none that one of our transactions spends.\<close>

definition honest_wallet :: "client_tx list \<Rightarrow> round_input \<Rightarrow> bool" where
  "honest_wallet txs r \<longleftrightarrow> (\<forall>cs. listunspent r = Reply cs \<longrightarrow> fresh_coins txs cs)"

text \<open>The states of a client, with the time since its start and the transactions it has sent.\<close>

inductive client_run :: "client_config \<Rightarrow> client \<Rightarrow> rat \<Rightarrow> client_tx list \<Rightarrow> bool" for cfg where
  start: "client_run cfg start_client 0 []"
| pass: "client_run cfg st' (elapsed r) (txs @ sent_by ev)"
    if "client_run cfg st t txs" and "t \<le> elapsed r" and "honest_wallet txs r"
      and "client_round cfg r st = Some (ev, st')"

section \<open>Selecting coins\<close>

definition covered_by :: "utxo list \<Rightarrow> nat list \<Rightarrow> int" where
  "covered_by coins sel = (\<Sum>i\<leftarrow>sel. amount (coins ! i))"

lemma select_coins_Some:
  assumes "select_coins need coins ds sel (covered_by coins sel) = Some (sel', covered)"
    and "distinct sel" "set sel \<subseteq> {..<length coins}" "coins \<noteq> []"
    and "sel \<noteq> [] \<longrightarrow> covered_by coins (butlast sel) < need"
  shows "covered = covered_by coins sel' \<and> need \<le> covered \<and> distinct sel' \<and> set sel' \<subseteq> {..<length coins} \<and>
    (sel' \<noteq> [] \<longrightarrow> covered_by coins (butlast sel') < need)"
  using assms
proof (induction ds arbitrary: sel)
  case (Cons d ds)
  let ?i = "d mod length coins"
  show ?case
  proof (cases "covered_by coins sel < need \<and> ?i \<notin> set sel")
    case True
    moreover have "covered_by coins (sel @ [?i]) = covered_by coins sel + amount (coins ! ?i)" by (simp add: covered_by_def)
    ultimately show ?thesis using Cons.IH [of "sel @ [?i]"] Cons.prems by (simp add: Let_def)
  next
    case False
    then show ?thesis using Cons by (auto simp: Let_def split: if_splits)
  qed
qed (auto split: if_splits)

text \<open>While the loop goes on, the coins drawn so far do not suffice.\<close>

lemma select_coins_None:
  assumes "select_coins need coins ds sel (covered_by coins sel) = None" and "distinct sel"
  shows "(\<Sum>i \<in> set sel \<union> (\<lambda>d. d mod length coins) ` set ds. amount (coins ! i)) < need"
  using assms
proof (induction ds arbitrary: sel)
  case Nil
  then show ?case by (simp add: covered_by_def sum_list_distinct_conv_sum_set split: if_splits)
next
  case (Cons d ds)
  let ?i = "d mod length coins"
  show ?case
  proof (cases "?i \<in> set sel")
    case True
    then have "set sel \<union> (\<lambda>d. d mod length coins) ` set (d # ds) = set sel \<union> (\<lambda>d. d mod length coins) ` set ds" by auto
    then show ?thesis using Cons True by (simp add: Let_def split: if_splits)
  next
    case False
    moreover have "covered_by coins (sel @ [?i]) = covered_by coins sel + amount (coins ! ?i)" by (simp add: covered_by_def)
    moreover have "set (sel @ [?i]) \<union> (\<lambda>d. d mod length coins) ` set ds = set sel \<union> (\<lambda>d. d mod length coins) ` set (d # ds)" by auto
    ultimately show ?thesis using Cons.IH [of "sel @ [?i]"] Cons.prems by (simp add: Let_def split: if_splits)
  qed
qed

lemma select_coins_more: "select_coins need coins ds sel c = Some x \<Longrightarrow> select_coins need coins (ds @ es) sel c = Some x"
proof (induction ds arbitrary: sel c)
  case Nil
  then show ?case by (cases es) (auto split: if_splits)
qed (auto split: if_splits simp: Let_def)

text \<open>C18: The selection of coins ends. If the coins suffice and the random generator draws every coin at
  some time, the loop ends after finitely many draws, whatever their order, with different coins of
  the wallet that cover what is needed and of which the last one is needed.\<close>

theorem coin_selection_ends:
  assumes "need \<le> sum_list (map amount coins)" and "coins \<noteq> []"
    and "\<forall>i < length coins. \<exists>k. draw k mod length coins = i"
  shows "\<exists>m sel covered. (\<forall>k \<ge> m. select_coins need coins (map draw [0..<k]) [] 0 = Some (sel, covered)) \<and>
    covered = covered_by coins sel \<and> need \<le> covered \<and> distinct sel \<and> set sel \<subseteq> {..<length coins} \<and>
    (sel \<noteq> [] \<longrightarrow> covered_by coins (butlast sel) < need)"
proof -
  obtain f where f: "\<And>i. i < length coins \<Longrightarrow> draw (f i) mod length coins = i" using assms(3) by metis
  define m where "m = Suc (Max (f ` {..<length coins}))"
  have "f i < m" if "i < length coins" for i using that unfolding m_def by (simp add: le_imp_less_Suc)
  then have "(\<lambda>d. d mod length coins) ` set (map draw [0..<m]) = {..<length coins}"
    using f assms(2) by (force simp: image_iff)
  then have all: "(\<Sum>i \<in> set [] \<union> (\<lambda>d. d mod length coins) ` set (map draw [0..<m]). amount (coins ! i)) = sum_list (map amount coins)"
    by (simp add: sum_list_sum_nth atLeast0LessThan)
  have zero: "0 = covered_by coins []" by (simp add: covered_by_def)
  have "select_coins need coins (map draw [0..<m]) [] 0 \<noteq> None"
  proof
    assume "select_coins need coins (map draw [0..<m]) [] 0 = None"
    from select_coins_None [OF this [unfolded zero]] show False using all assms(1) by simp
  qed
  then obtain sel covered where s: "select_coins need coins (map draw [0..<m]) [] 0 = Some (sel, covered)" by auto
  have "select_coins need coins (map draw [0..<k]) [] 0 = Some (sel, covered)" if "m \<le> k" for k
  proof -
    have "map draw [0..<k] = map draw [0..<m] @ map draw [m..<k]"
      using that by (metis le0 le_add_diff_inverse map_append upt_add_eq_append)
    then show ?thesis using select_coins_more [OF s] by simp
  qed
  then show ?thesis using select_coins_Some [OF s [unfolded zero]] assms(2) by (intro exI [of _ m] exI [of _ sel] exI [of _ covered]) simp
qed

section \<open>The transactions\<close>

lemma make_outputs_simps [simp]:
  "length (make_outputs addrs n change) = n"
  "k < n \<Longrightarrow> snd (make_outputs addrs n change ! k) = (if k = 0 then amount_sent_per_output + change else amount_sent_per_output)"
  by (simp_all add: make_outputs_def)

lemma make_outputs_sum:
  "0 < n \<Longrightarrow> sum_list (map snd (make_outputs addrs n change)) = int n * amount_sent_per_output + change"
proof (cases n)
  case (Suc m)
  have "[0..<Suc m] = 0 # map Suc [0..<m]" by (metis map_Suc_upt upt_conv_Cons zero_less_Suc)
  then have "map snd (make_outputs addrs (Suc m) change) = (amount_sent_per_output + change) # map (\<lambda>_. amount_sent_per_output) [0..<m]"
    by (simp add: make_outputs_def del: upt_Suc)
  then show ?thesis using Suc by (simp add: sum_list_triv algebra_simps)
qed simp

lemma update_coins_frame:
  "update_coins r st = Inr st1 \<Longrightarrow> warmup_rounds st1 = warmup_rounds st \<and> total_bytes_sent st1 = total_bytes_sent st \<and>
     query_unspent st1 = query_unspent st \<and> coin_selected_idxs st1 = []"
  by (auto simp: update_coins_def split: if_splits sum.splits)

lemma nb_tx_outputs_cong: "warmup_rounds st = warmup_rounds st' \<Longrightarrow> nb_tx_outputs cfg st = nb_tx_outputs cfg st'"
  by (simp add: nb_tx_outputs_def)

text \<open>The coins of a round, and what is known of the ones selected.\<close>

definition selection :: "client_config \<Rightarrow> client \<Rightarrow> utxo list \<Rightarrow> nat list \<Rightarrow> bool" where
  "selection cfg st coins sel \<longleftrightarrow> distinct sel \<and> set sel \<subseteq> {..<length coins} \<and>
     (nb_tx_outputs cfg st + 1) * amount_sent_per_output \<le> covered_by coins sel \<and>
     (sel \<noteq> [] \<longrightarrow> covered_by coins (butlast sel) < (nb_tx_outputs cfg st + 1) * amount_sent_per_output)"

text \<open>A round that sends a transaction: the state after the update of the coins, and the selected ones.\<close>

definition sent_from :: "client_config \<Rightarrow> round_input \<Rightarrow> client \<Rightarrow> client_tx \<Rightarrow> client \<Rightarrow> client \<Rightarrow> nat list \<Rightarrow> bool" where
  "sent_from cfg r st tx st' st1 sel \<longleftrightarrow>
     update_coins r st = Inr st1 \<and> selection cfg st (unspent_coins st1) sel \<and> 0 < nb_tx_outputs cfg st \<and>
     elapsed r \<noteq> 0 \<and> total_bytes_sent st / elapsed r < target_byte_rate cfg \<and>
     tx_ins tx = map ((!) (unspent_coins st1)) sel \<and>
     tx_outs tx = make_outputs (target_addresses cfg) (nat (nb_tx_outputs cfg st))
       (covered_by (unspent_coins st1) sel - nb_tx_outputs cfg st * amount_sent_per_output - tx_fee (length sel) (nb_tx_outputs cfg st)) \<and>
     unspent_coins st' = unspent_coins st1 \<and> coin_selected_idxs st' = sel \<and> \<not> query_unspent st' \<and>
     total_bytes_sent st' = total_bytes_sent st + tx_bytes tx \<and> 0 \<le> tx_bytes tx \<and>
     warmup_rounds st' = (if warmup_rounds st < nb_warmup_rounds cfg then warmup_rounds st + 1 else warmup_rounds st)"

lemma client_round_Sent:
  assumes "client_round cfg r st = Some (Sent tx, st')"
  shows "\<exists>st1 sel. sent_from cfg r st tx st' st1 sel"
proof -
  obtain st1 where st1: "update_coins r st = Inr st1" using assms by (auto simp: client_round_def split: sum.splits)
  note fr = update_coins_frame [OF st1]
  have n: "nb_tx_outputs cfg st1 = nb_tx_outputs cfg st" using fr by (intro nb_tx_outputs_cong) simp
  let ?need = "(nb_tx_outputs cfg st + 1) * amount_sent_per_output"
  have el: "elapsed r \<noteq> 0" and bal: "?need \<le> sum_list (map amount (unspent_coins st1))"
    and rate: "total_bytes_sent st / elapsed r < target_byte_rate cfg"
    and send: "send_transaction cfg r st1 = Some (Sent tx, st')"
    using assms st1 fr n by (auto simp: client_round_def Let_def split: if_splits)
  obtain sel covered where s: "select_coins ?need (unspent_coins st1) (draws r) [] 0 = Some (sel, covered)"
    using send n by (auto simp: send_transaction_def Let_def split: option.splits)
  obtain hex h where hex: "answer_of (signrawtransaction r) = Inr hex" "answer_of (sendrawtransaction r) = Inr h" and pos: "0 < nb_tx_outputs cfg st"
    using send n s by (auto simp: send_transaction_def Let_def split: if_splits sum.splits)
  have "0 < ?need" using pos by (simp add: amount_sent_per_output_def)
  then have "unspent_coins st1 \<noteq> []" using bal by auto
  moreover have zero: "0 = covered_by (unspent_coins st1) []" by (simp add: covered_by_def)
  ultimately have "covered = covered_by (unspent_coins st1) sel" "selection cfg st (unspent_coins st1) sel"
    using select_coins_Some [OF s [unfolded zero]] by (simp_all add: selection_def)
  then show ?thesis using st1 el rate pos send s hex n fr unfolding sent_from_def
    by (intro exI [of _ st1] exI [of _ sel]) (auto simp: send_transaction_def Let_def)
qed


section \<open>Invariants of a run\<close>

lemma remaining_nth:
  "c \<in> set (remaining_coins st) \<Longrightarrow>
     \<exists>i < length (unspent_coins st). i \<notin> set (coin_selected_idxs st) \<and> c = unspent_coins st ! i"
  unfolding remaining_coins_def by (auto simp: set_zip)

lemma remaining_distinct:
  "distinct (map outpoint (unspent_coins st)) \<Longrightarrow> distinct (map outpoint (remaining_coins st))"
proof -
  let ?z = "zip [0..<length (unspent_coins st)] (unspent_coins st)"
  assume "distinct (map outpoint (unspent_coins st))"
  then have "distinct (map (\<lambda>p. outpoint (snd p)) ?z)" by (simp add: map_map [of outpoint snd, unfolded comp_def, symmetric])
  then have "distinct (map (\<lambda>p. outpoint (snd p)) (filter (\<lambda>(i, c). i \<notin> set (coin_selected_idxs st)) ?z))"
    by (rule distinct_map_filter)
  then show ?thesis by (simp add: remaining_coins_def comp_def)
qed

definition client_inv :: "client \<Rightarrow> client_tx list \<Rightarrow> bool" where
  "client_inv st txs \<longleftrightarrow> distinct (map outpoint (concat (map tx_ins txs))) \<and>
     (query_unspent st \<or> fresh_coins txs (remaining_coins st))"

lemma fresh_remaining: "fresh_coins txs (unspent_coins st) \<Longrightarrow> fresh_coins txs (remaining_coins st)"
proof -
  have "set (remaining_coins st) \<subseteq> set (unspent_coins st)" by (auto dest!: remaining_nth)
  then show "fresh_coins txs (unspent_coins st) \<Longrightarrow> fresh_coins txs (remaining_coins st)"
    using remaining_distinct [of st] unfolding fresh_coins_def by blast
qed

lemma fresh_update:
  "client_inv st txs \<Longrightarrow> honest_wallet txs r \<Longrightarrow> update_coins r st = Inr st1 \<Longrightarrow> fresh_coins txs (unspent_coins st1)"
  by (cases "listunspent r") (auto simp: update_coins_def client_inv_def honest_wallet_def split: if_splits)

lemma client_round_quiet:
  assumes "client_round cfg r st = Some (ev, st')" and "sent_by ev = []"
  shows "warmup_rounds st \<le> warmup_rounds st' \<and> total_bytes_sent st' = total_bytes_sent st \<and>
    (st' = st \<or> (\<exists>st1. update_coins r st = Inr st1 \<and> unspent_coins st' = unspent_coins st1))"
  using assms
  by (auto simp: client_round_def send_transaction_def Let_def dest!: update_coins_frame
      split: sum.splits if_splits option.splits)

lemma client_inv_round:
  assumes inv: "client_inv st txs" and wallet: "honest_wallet txs r" and rnd: "client_round cfg r st = Some (ev, st')"
  shows "client_inv st' (txs @ sent_by ev)"
proof (cases "sent_by ev")
  case Nil
  from client_round_quiet [OF rnd Nil] consider "st' = st"
    | st1 where "update_coins r st = Inr st1" "unspent_coins st' = unspent_coins st1" by blast
  then show ?thesis
  proof cases
    case 2
    then have "fresh_coins txs (unspent_coins st')" using fresh_update [OF inv wallet] by simp
    then show ?thesis using inv fresh_remaining Nil by (simp add: client_inv_def)
  qed (use inv Nil in simp)
next
  case (Cons tx rest)
  then have ev: "ev = Sent tx" "sent_by ev = [tx]" by (cases ev; simp)+
  obtain st1 sel where sent: "sent_from cfg r st tx st' st1 sel" using client_round_Sent rnd ev(1) by blast
  let ?cs = "unspent_coins st1"
  have ins: "tx_ins tx = map ((!) ?cs) sel" "unspent_coins st' = ?cs" "coin_selected_idxs st' = sel" "update_coins r st = Inr st1"
    and sel: "distinct sel" "set sel \<subseteq> {..<length ?cs}"
    using sent by (simp_all add: sent_from_def selection_def)
  have fr: "fresh_coins txs ?cs" by (rule fresh_update [OF inv wallet ins(4)])
  have idx: "outpoint (?cs ! i) = outpoint (?cs ! j) \<longleftrightarrow> i = j" if "i < length ?cs" "j < length ?cs" for i j
    using nth_eq_iff_index_eq [of "map outpoint ?cs" i j] fr that by (simp add: fresh_coins_def)
  have sub: "set (tx_ins tx) \<subseteq> set ?cs" using sel(2) by (auto simp: ins(1))
  have "inj_on (\<lambda>i. outpoint (?cs ! i)) (set sel)" using idx sel(2) by (auto simp: inj_on_def subset_iff)
  then have dist: "distinct (map outpoint (tx_ins tx))" using sel(1) by (simp add: ins(1) distinct_map comp_def)
  have old: "outpoint ` set (tx_ins tx) \<inter> outpoint ` set (concat (map tx_ins txs)) = {}"
    using fr sub unfolding fresh_coins_def by blast
  have "outpoint c \<notin> outpoint ` set (tx_ins tx)" if "c \<in> set (remaining_coins st')" for c
    using remaining_nth [OF that] idx sel(2) ins by (auto simp: subset_iff)
  then have left: "outpoint ` set (remaining_coins st') \<inter> outpoint ` set (tx_ins tx) = {}" by blast
  have all: "concat (map tx_ins (txs @ [tx])) = concat (map tx_ins txs) @ tx_ins tx" by simp
  have "fresh_coins txs (remaining_coins st')" using fresh_remaining [of txs st'] fr ins(2) by simp
  then have "fresh_coins (txs @ [tx]) (remaining_coins st')"
    using left unfolding fresh_coins_def all set_append image_Un by blast
  moreover have "distinct (map outpoint (concat (map tx_ins txs) @ tx_ins tx))"
    unfolding map_append distinct_append set_map using inv dist old by (simp only: client_inv_def Int_commute simp_thms)
  then have "distinct (map outpoint (concat (map tx_ins (txs @ [tx]))))" by (simp only: all)
  ultimately show ?thesis unfolding client_inv_def ev(2) by blast
qed

lemma client_run_inv: "client_run cfg st t txs \<Longrightarrow> client_inv st txs"
proof (induction rule: client_run.induct)
  case start
  show ?case by (simp add: client_inv_def start_client_def)
qed (rule client_inv_round)

text \<open>C14: A client never spends a coin twice. Whatever the rounds of a run are, in which order transactions are
  sent, refused or delayed and the wallet is asked again or not, no coin is an input of two of the
  transactions that were sent, or twice of one, if the wallet lists coins once and no spent ones.\<close>

theorem client_never_double_spends:
  assumes "client_run cfg st t txs"
  shows "distinct (map outpoint (concat (map tx_ins txs)))"
  using client_run_inv [OF assms] by (simp add: client_inv_def)

lemma client_run_bytes:
  "client_run cfg st t txs \<Longrightarrow> 0 \<le> target_byte_rate cfg \<Longrightarrow>
   0 \<le> t \<and> total_bytes_sent st = sum_list (map tx_bytes txs) \<and>
   sum_list (map tx_bytes (butlast txs)) \<le> target_byte_rate cfg * t"
proof (induction rule: client_run.induct)
  case (pass st t txs r ev st')
  then have t: "0 \<le> t" "0 \<le> elapsed r" and sum: "total_bytes_sent st = sum_list (map tx_bytes txs)"
    and bound: "sum_list (map tx_bytes (butlast txs)) \<le> target_byte_rate cfg * t" by auto
  have mono: "target_byte_rate cfg * t \<le> target_byte_rate cfg * elapsed r"
    using pass.hyps(2) pass.prems by (intro mult_left_mono)
  show ?case
  proof (cases "sent_by ev")
    case Nil
    then show ?thesis using client_round_quiet [OF pass.hyps(4)] t sum bound mono by auto
  next
    case (Cons tx rest)
    then have ev: "ev = Sent tx" "sent_by ev = [tx]" by (cases ev; simp)+
    obtain st1 sel where "sent_from cfg r st tx st' st1 sel" using client_round_Sent pass.hyps(4) ev(1) by blast
    then have "elapsed r \<noteq> 0" "total_bytes_sent st / elapsed r < target_byte_rate cfg" "total_bytes_sent st' = total_bytes_sent st + tx_bytes tx"
      by (simp_all add: sent_from_def)
    moreover from this have "total_bytes_sent st < target_byte_rate cfg * elapsed r"
      using t(2) by (simp add: pos_divide_less_eq)
    ultimately show ?thesis using sum t ev(2) by simp
  qed
qed (simp add: start_client_def)

text \<open>C27: A client keeps its rate. At any time of a run, the bytes it has sent, without the last transaction, are
  at most the target rate times the time since the start.\<close>

theorem client_rate_bounded:
  assumes "client_run cfg st t txs" and "0 \<le> target_tx_rate cfg" and "0 \<le> target_tx_size cfg"
  shows "total_bytes_sent st = sum_list (map tx_bytes txs) \<and>
    sum_list (map tx_bytes (butlast txs)) \<le> target_tx_rate cfg * rat_of_int (target_tx_size cfg) * t"
  using client_run_bytes [OF assms(1)] assms(2,3) by (simp add: target_byte_rate_def)

text \<open>The first transactions of a run, as many as there are rounds of warm-up, may be large; all later ones have the
  number of outputs that the size asks for.\<close>

theorem warmup_is_over:
  assumes "client_run cfg st t txs"
  shows "min (int (length txs)) (nb_warmup_rounds cfg) \<le> warmup_rounds st \<and>
    (\<forall>k < length txs. nb_warmup_rounds cfg \<le> int k \<longrightarrow>
       int (length (tx_outs (txs ! k))) = py_trunc (rat_of_int (target_tx_size cfg) / 180) + 1)"
  using assms
proof (induction rule: client_run.induct)
  case (pass st t txs r ev st')
  show ?case
  proof (cases "sent_by ev")
    case Nil
    then show ?thesis using client_round_quiet [OF pass.hyps(4)] pass.IH by auto
  next
    case (Cons tx rest)
    then have ev: "ev = Sent tx" "sent_by ev = [tx]" by (cases ev; simp)+
    obtain st1 sel where "sent_from cfg r st tx st' st1 sel" using client_round_Sent pass.hyps(4) ev(1) by blast
    then have w: "warmup_rounds st' = (if warmup_rounds st < nb_warmup_rounds cfg then warmup_rounds st + 1 else warmup_rounds st)"
      and outs: "int (length (tx_outs tx)) = nb_tx_outputs cfg st"
      by (simp_all add: sent_from_def)
    have "nb_tx_outputs cfg st = py_trunc (rat_of_int (target_tx_size cfg) / 180) + 1" if "nb_warmup_rounds cfg \<le> int (length txs)"
      using pass.IH that by (simp add: nb_tx_outputs_def)
    then show ?thesis using pass.IH w outs ev(2) by (auto simp: nth_append less_Suc_eq)
  qed
qed (simp add: start_client_def)

section \<open>The notifications in the log\<close>

text \<open>The rows of a client's log: notifications, and other messages.\<close>

datatype client_row = Notification string string string | Message string string string

fun client_row_text :: "client_row \<Rightarrow> string" where
  "client_row_text (Notification ts h q) = logger_row ts ''INFO'' (notification_msg h q)"
| "client_row_text (Message ts level msg) = logger_row ts level msg"

fun client_row_ok :: "client_row \<Rightarrow> bool" where
  "client_row_ok (Notification ts h q) = (set ts \<subseteq> stamp_chars)"
| "client_row_ok (Message ts level msg) =
     (set ts \<subseteq> stamp_chars \<and> LF \<notin> set level \<and> LF \<notin> set msg \<and>
      \<not> contains ''seqnumber: '' (''['' @ ts @ ''] ['' @ level @ ''] '' @ msg))"

fun notified :: "client_row \<Rightarrow> string list option" where
  "notified (Notification ts h q) = Some [ts, bytes_hex h]"
| "notified (Message ts level msg) = None"

text \<open>A pattern that cannot match a line feed matches within one line, and its literals occur there.\<close>

fun one_line_item :: "re_item \<Rightarrow> bool" where
  "one_line_item (Lit l) = (LF \<notin> set l)"
| "one_line_item (Rep P lo hi greedy cap) = (\<not> P LF)"
| "one_line_item (Alts as) = False"

lemma contains_longer: "contains l u \<Longrightarrow> contains l (a @ u)"
  unfolding contains_iff_sublist sublist_def by (metis append.assoc)

lemma rx_one_line:
  assumes "rx rs s = Some (cs, r)" and "list_all one_line_item rs"
  shows "\<exists>u. s = u @ r \<and> LF \<notin> set u \<and> (\<forall>l. Lit l \<in> set rs \<longrightarrow> contains l u)"
  using assms
proof (induction rs s arbitrary: cs r rule: rx.induct)
  case (2 l rs s)
  then have pre: "prefix l s" and rest: "rx rs (drop (length l) s) = Some (cs, r)" by (auto split: if_splits)
  from "2.IH" [OF pre rest] "2.prems"(2) obtain u
    where u: "drop (length l) s = u @ r" "LF \<notin> set u" "\<forall>l. Lit l \<in> set rs \<longrightarrow> contains l u" by auto
  have "s = (l @ u) @ r" using pre u(1) by (metis append.assoc append_eq_conv_conj prefix_def)
  moreover have "contains l (l @ u)" unfolding contains_iff_sublist by simp
  ultimately show ?case using u "2.prems"(2) contains_longer by (intro exI [of _ "l @ u"]) auto
next
  case (3 P lo hi greedy cap rs s)
  from "3.prems"(1) obtain k cs' where k: "k \<in> set (rep_counts P lo hi greedy s)" "rx rs (drop k s) = Some (cs', r)"
    by (auto dest!: first_some_SomeD)
  from "3.IH" [OF k(2)] "3.prems"(2) obtain u
    where u: "drop k s = u @ r" "LF \<notin> set u" "\<forall>l. Lit l \<in> set rs \<longrightarrow> contains l u" by auto
  have "LF \<notin> set (take k s)" using rep_counts_take [OF k(1)] "3.prems"(2) by (auto simp: list_all_iff)
  moreover have "s = (take k s @ u) @ r" using u(1) by (metis append.assoc append_take_drop_id)
  ultimately show ?case using u contains_longer by (intro exI [of _ "take k s @ u"]) auto
qed simp_all

lemma prefix_line: "LF \<notin> set l \<Longrightarrow> prefix l (w @ LF # z) \<Longrightarrow> prefix l w"
proof (induction l arbitrary: w)
  case (Cons x l)
  note IH = Cons.IH and prems = Cons.prems
  show ?case
  proof (cases w)
    case (Cons c v)
    then show ?thesis using prems by (simp add: IH [of v])
  qed (use prems in simp)
qed simp

lemma rx_line_absent:
  assumes "list_all one_line_item rs" "Lit l \<in> set rs" "\<not> contains l w"
  shows "rx rs (w @ LF # s) = None"
proof (rule ccontr)
  assume "rx rs (w @ LF # s) \<noteq> None"
  then obtain u r where u: "w @ LF # s = u @ r" "LF \<notin> set u" "contains l u" using rx_one_line assms(1,2) by force
  then have "prefix u w" using prefix_line by (metis prefixI)
  then show False using u(3) assms(3) unfolding contains_iff_sublist by (metis prefix_imp_sublist sublist_order.order_trans)
qed

lemma re_findall_line_absent:
  assumes "list_all one_line_item rs" "Lit l \<in> set rs" "\<not> contains l w"
  shows "re_findall rs (w @ LF # s) = re_findall rs s"
  using assms(3)
proof (induction w)
  case Nil
  then show ?case using rx_line_absent [OF assms(1,2), of "[]" s] by (subst re_findall.simps) simp
next
  case (Cons c w)
  then show ?case using rx_line_absent [OF assms(1,2) Cons.prems, of s] by (subst re_findall.simps) simp
qed

text \<open>A greedy run before a literal whose marker does not occur again in the line.\<close>

lemma rx_greedy_line:
  assumes m: "list_all any_char m" and y: "list_all any_char y" and c: "c \<notin> set b" "c \<notin> set y" and lit: "LF \<notin> set (a @ c # b)"
    and rest: "rx rs (y @ LF # z) = Some (cs, r)"
  shows "rx (dot_star # Lit (a @ c # b) # rs) (m @ (a @ c # b) @ y @ LF # z) = Some (cs, r)"
proof -
  let ?l = "a @ c # b"
  let ?s = "m @ ?l @ y @ LF # z" and ?n = "length (m @ ?l @ y)"
  have "list_all any_char (m @ ?l @ y)" using m y lit by (auto simp: list_all_iff any_char_def)
  then have run: "takeWhile any_char ((m @ ?l @ y) @ LF # z) = m @ ?l @ y" by (intro takeWhile_run) (simp_all add: any_char_def)
  then have counts: "rep_counts any_char 0 None True ?s = rev [Suc (length m)..<Suc ?n] @ length m # rev [0..<length m]"
    using upt_split_at [of "length m" ?n] by (simp add: rep_counts_def Let_def del: upt_Suc)
  have late: "rx (Lit ?l # rs) (drop u ?s) = None" if "u \<in> set (rev [Suc (length m)..<Suc ?n])" for u
  proof (rule ccontr)
    assume "rx (Lit ?l # rs) (drop u ?s) \<noteq> None"
    then have "prefix ?l (drop u ?s)" by (auto split: if_splits)
    moreover have "drop u (m @ (?l @ y) @ LF # z) = drop (u - length m) (?l @ y) @ LF # z"
    proof -
      have "length m < u" "u - length m \<le> length (?l @ y)" using that by auto
      then show ?thesis by (simp only: drop_append) simp
    qed
    ultimately have "prefix ?l (drop (u - length m) (?l @ y))" using prefix_line lit by (metis append.assoc)
    moreover have "rx (Lit ?l # []) (drop (u - length m) (?l @ y)) = None"
      by (rule Lit_marker_last [OF c]) (use that in auto)
    ultimately show False by (simp only: rx.simps if_True option.distinct)
  qed
  show ?thesis unfolding rx.simps(3)
    by (rule first_some_pick [OF counts]) (use late rest in auto)
qed

definition client_text :: "client_row list \<Rightarrow> string" where
  "client_text rows = concat (map client_row_text rows)"

lemma seen_re_one_line: "list_all one_line_item seen_re"
  by (simp add: seen_re_def any_char_def)

lemma bytes_hex_chars: "set (bytes_hex bs) \<subseteq> lower_hex"
  using hex_digits_hex by (auto simp: bytes_hex_def)

lemma hex_facts: "c \<in> lower_hex \<Longrightarrow> any_char c \<and> c \<noteq> CHR '':'' \<and> c \<noteq> CHR ''=''"
  by (auto simp: lower_hex_def any_char_def)

lemma notification_found:
  assumes "set ts \<subseteq> stamp_chars"
  shows "re_findall seen_re (logger_row ts ''INFO'' (notification_msg h q) @ s) = [ts, bytes_hex h] # re_findall seen_re s"
proof -
  let ?hex = "bytes_hex h" and ?seq = "nat_str (from_bytes_little q)"
  have hex: "list_all any_char ?hex" "CHR '':'' \<notin> set ?hex" "CHR ''='' \<notin> set ?hex"
    using bytes_hex_chars [of h] hex_facts by (auto simp: list_all_iff)
  have "rx [dot_star_cap] (?hex @ LF # s) = Some ([?hex], LF # s)"
    using rx_run [OF hex(1), of "LF # s" 0 "[]" "[]" "LF # s" None _ True] by (simp add: any_char_def)
  then have "rx [dot_star, Lit ('', tx hash'' @ CHR ''='' # []), dot_star_cap] (?seq @ ('', tx hash'' @ CHR ''='' # []) @ ?hex @ LF # s) = Some ([?hex], LF # s)"
    by (intro rx_greedy_line) (use hex in simp_all)
  then have "rx [dot_star, Lit (''seqnumber'' @ CHR '':'' # '' ''), dot_star, Lit '', tx hash='', dot_star_cap]
      (''[INFO] '' @ (''seqnumber'' @ CHR '':'' # '' '') @ (?seq @ '', tx hash='' @ ?hex) @ LF # s) = Some ([?hex], LF # s)"
    by (intro rx_greedy_line) (use hex in \<open>simp_all add: digit_not is_digit_def any_char_def del: rx.simps\<close>)
  then have "rx [dot_lazy_cap, Lit (CHR '']'' # '' ''), dot_star, Lit ''seqnumber: '', dot_star, Lit '', tx hash='', dot_star_cap]
      (ts @ (CHR '']'' # '' '') @ ''[INFO] seqnumber: '' @ ?seq @ '', tx hash='' @ ?hex @ LF # s) = Some ([ts, ?hex], LF # s)"
    by (intro rx_lazy_until) (use assms stamp_chars_any [OF assms] in \<open>auto simp: stamp_chars_def simp del: rx.simps\<close>)
  from rx_Lit_step [OF this, of "''[''"]
  have found: "rx seen_re (logger_row ts ''INFO'' (notification_msg h q) @ s) = Some ([ts, ?hex], LF # s)"
    unfolding seen_re_def by (simp add: logger_row_def notification_msg_def del: rx.simps)
  have "length (LF # s) < length (logger_row ts ''INFO'' (notification_msg h q) @ s)" by (simp add: logger_row_def notification_msg_def)
  then have "re_findall seen_re (logger_row ts ''INFO'' (notification_msg h q) @ s) = [ts, ?hex] # re_findall seen_re (LF # s)"
    by (subst re_findall.simps) (simp add: found del: rx.simps)
  also have "re_findall seen_re (LF # s) = re_findall seen_re s"
    using re_findall_line_absent [OF seen_re_one_line, of "''seqnumber: ''" "[]"] by (simp add: seen_re_def)
  finally show ?thesis .
qed

text \<open>C28: The parser of the logs reads all notifications of a client. In a log of notifications, as
  \<^verbatim>\<open>wait_for_tx\<close> writes them, and of other messages, it finds exactly the notifications, in their order, each
  with its time and the transaction hash in hexadecimal.\<close>

theorem notifications_found:
  assumes "list_all client_row_ok rows"
  shows "re_findall seen_re (client_text rows) = List.map_filter notified rows"
  using assms
proof (induction rows)
  case Nil
  then show ?case by (subst re_findall.simps) (simp add: client_text_def map_filter_simps seen_re_def)
next
  case (Cons row rows)
  then have IH: "re_findall seen_re (client_text rows) = List.map_filter notified rows" by simp
  show ?case
  proof (cases row)
    case (Notification ts h q)
    then show ?thesis using Cons.prems IH notification_found [of ts h q "client_text rows"]
      by (simp add: client_text_def map_filter_simps)
  next
    case (Message ts level msg)
    have "\<not> contains ''seqnumber: '' (''['' @ ts @ ''] ['' @ level @ ''] '' @ msg)" using Cons.prems Message by simp
    from re_findall_line_absent [OF seen_re_one_line _ this, of "client_text rows"]
    have "re_findall seen_re (client_text (row # rows)) = re_findall seen_re (client_text rows)"
      using Message by (simp add: client_text_def logger_row_def) (simp add: seen_re_def)
    then show ?thesis using IH Message by (simp add: map_filter_simps)
  qed
qed

text \<open>
  An error of the node is no reason for a client to stop, but the parser takes the message about it
  for a panic: one refused transaction makes the whole benchmark fail.
\<close>

theorem refused_transaction_fails_parser:
  "parse_clients (before @ logger_row ts ''ERROR'' (failure_msg Rpc_failure e) @ after) = Inl ParseError"
proof -
  have "before @ logger_row ts ''ERROR'' (failure_msg Rpc_failure e) @ after =
      (before @ ''['' @ ts @ ''] [ERROR] '') @ ''Error'' @ ('' sending transactions '' @ e @ ''.'' @ [LF] @ after)"
    by (simp add: logger_row_def)
  then have "contains ''Error'' (before @ logger_row ts ''ERROR'' (failure_msg Rpc_failure e) @ after)"
    unfolding contains_iff_sublist sublist_def by blast
  then show ?thesis by (simp add: parse_clients_def)
qed

section \<open>Examples\<close>

definition example_parameters :: client_config where
  "example_parameters = \<lparr>nb_warmup_rounds = 0, target_tx_rate = 1, target_tx_size = 9, target_addresses = [''a'']\<rparr>"

definition example_coin :: utxo where
  "example_coin = \<lparr>coin_txid = ''c'', vout = 0, amount = 300000\<rparr>"

definition example_round :: round_input where
  "example_round = \<lparr>listunspent = Reply [example_coin], elapsed = 1, draws = [0], signrawtransaction = Reply ''00'',
     sendrawtransaction = Reply ''h''\<rparr>"

definition example_tx :: client_tx where
  "example_tx = \<lparr>tx_ins = [example_coin], tx_outs = [(''a'', 299040)], tx_bytes = 1\<rparr>"

lemma floor_example: "\<lfloor>1 / 20 :: rat\<rfloor> = 0"
  by (simp add: floor_eq_iff)

lemma example_sent: "\<exists>st'. client_round example_parameters example_round start_client = Some (Sent example_tx, st')"
  by (simp add: client_round_def update_coins_def send_transaction_def example_parameters_def example_round_def example_coin_def
      example_tx_def start_client_def nb_tx_outputs_def py_trunc_def amount_sent_per_output_def target_byte_rate_def
      tx_fee_def make_outputs_def Let_def floor_example)

lemma example_client_run: "\<exists>st. client_run example_parameters st 1 [example_tx]"
proof -
  obtain st' where "client_round example_parameters example_round start_client = Some (Sent example_tx, st')" using example_sent by blast
  moreover have "honest_wallet [] example_round"
    by (simp add: honest_wallet_def fresh_coins_def example_round_def)
  ultimately show ?thesis
    using client_run.pass [OF client_run.start, of example_round example_parameters "Sent example_tx" st']
    by (auto simp: example_round_def)
qed

theorem coin_selection_ends_witness:
  "\<exists>m sel covered. \<forall>k \<ge> m. select_coins 200000 [example_coin] (map (\<lambda>_. 7) [0..<k]) [] 0 = Some (sel, covered)"
proof -
  have "200000 \<le> sum_list (map amount [example_coin])" "\<forall>i < length [example_coin]. \<exists>k. (7::nat) mod length [example_coin] = i"
    by (simp_all add: example_coin_def)
  from coin_selection_ends [OF this(1) _ this(2)] show ?thesis by blast
qed


theorem client_never_double_spends_witness:
  "\<exists>st. client_run example_parameters st 1 [example_tx] \<and> distinct (map outpoint (concat (map tx_ins [example_tx])))"
  using example_client_run client_never_double_spends by blast

theorem client_rate_bounded_witness:
  "\<exists>st. client_run example_parameters st 1 [example_tx] \<and> total_bytes_sent st = 1"
proof -
  obtain st where st: "client_run example_parameters st 1 [example_tx]" using example_client_run by blast
  have "0 \<le> target_tx_rate example_parameters" "0 \<le> target_tx_size example_parameters" by (simp_all add: example_parameters_def)
  from client_rate_bounded [OF st this] st show ?thesis by (auto simp: example_tx_def)
qed

theorem notifications_found_witness:
  "re_findall seen_re (client_text [Notification ''10:11'' ''a'' [], Message ''10:12'' ''INFO'' ''x'']) = [[''10:11'', ''61'']]"
proof -
  have "list_all client_row_ok [Notification ''10:11'' ''a'' [], Message ''10:12'' ''INFO'' ''x'']"
    by (simp add: stamp_chars_def)
  from notifications_found [OF this] show ?thesis
    by (simp add: map_filter_simps bytes_hex_def hex_digit_def numeral_2_eq_2 del: re_findall.simps)
qed

end
